(* ===== verification/Prelude.thy ===== *)
theory Prelude
  imports Main "HOL-Library.Word" "HOL-Library.State_Monad" "HOL-Library.Multiset"
begin

text \<open>
  What every theory of the development shares: the names of the basic types, the state
  monad in which the effectful C++ functions are written, and a small calculus of
  preserved predicates with which invariants and frame conditions are lifted through
  \<open>do\<close> blocks, conditionals and range-based \<open>for\<close> loops.
\<close>

section \<open>Types\<close>

text \<open>
  A \<open>std::string\<close> is a sequence of bytes, and a HOL \<open>char\<close> is a byte. A C \<open>int\<close> is a
  32-bit two's complement word, read with \<open>sint\<close>. A muduo connection and an event loop
  are objects that the code only compares and passes around, so they are numbered.
\<close>

type_synonym cint = "32 word"
type_synonym conn = nat
type_synonym loop_id = nat

definition cint_of :: "int \<Rightarrow> cint" where
  "cint_of i = word_of_int i"

lemma cint_of_sint [simp]: "cint_of (sint w) = w"
  by (simp add: cint_of_def)

section \<open>Stateful code\<close>

definition gets :: "('s \<Rightarrow> 'a) \<Rightarrow> ('s, 'a) state" where
  "gets f = State (\<lambda>s. (f s, s))"

definition modify :: "('s \<Rightarrow> 's) \<Rightarrow> ('s, unit) state" where
  "modify f = State (\<lambda>s. ((), f s))"

primrec for_each :: "'a list \<Rightarrow> ('a \<Rightarrow> ('s, unit) state) \<Rightarrow> ('s, unit) state" where
  "for_each [] f = State_Monad.return ()"
| "for_each (x # xs) f = do { f x; for_each xs f }"

definition do_when :: "bool \<Rightarrow> ('s, unit) state \<Rightarrow> ('s, unit) state" where
  "do_when b m = (if b then m else State_Monad.return ())"

definition exec :: "('s, 'a) state \<Rightarrow> 's \<Rightarrow> 's" where
  "exec m s = snd (run_state m s)"

definition result :: "('s, 'a) state \<Rightarrow> 's \<Rightarrow> 'a" where
  "result m s = fst (run_state m s)"

lemma run_state_gets [simp]: "run_state (gets f) s = (f s, s)"
  by (simp add: gets_def)

lemma run_state_modify [simp]: "run_state (modify f) s = ((), f s)"
  by (simp add: modify_def)

lemma run_state_if [simp]:
  "run_state (if b then m else n) s = (if b then run_state m s else run_state n s)"
  by simp

lemma exec_return [simp]: "exec (State_Monad.return x) s = s"
  by (simp add: exec_def)

lemma exec_gets [simp]: "exec (gets f) s = s"
  by (simp add: exec_def)

lemma exec_modify [simp]: "exec (modify f) s = f s"
  by (simp add: exec_def)

lemma exec_bind [simp]:
  "exec (State_Monad.bind m f) s = exec (f (result m s)) (exec m s)"
  by (simp add: exec_def result_def split: prod.split)

lemma result_return [simp]: "result (State_Monad.return x) s = x"
  by (simp add: result_def)

lemma result_gets [simp]: "result (gets f) s = f s"
  by (simp add: result_def)

lemma result_bind [simp]:
  "result (State_Monad.bind m f) s = result (f (result m s)) (exec m s)"
  by (simp add: exec_def result_def split: prod.split)

lemma exec_if [simp]:
  "exec (if b then m else n) s = (if b then exec m s else exec n s)"
  by simp

lemma result_if [simp]:
  "result (if b then m else n) s = (if b then result m s else result n s)"
  by simp

lemma exec_when [simp]: "exec (do_when b m) s = (if b then exec m s else s)"
  by (simp add: do_when_def)

lemma exec_for_each [simp]:
  "exec (for_each xs f) s = fold (\<lambda>x. exec (f x)) xs s"
  by (induction xs arbitrary: s) auto

lemma exec_discard [simp]: "exec (State_Monad.bind m (\<lambda>x. State_Monad.return (f x))) = exec m"
  by (rule ext) simp

lemma run_state_pair: "run_state m s = (result m s, exec m s)"
  by (simp add: exec_def result_def)

section \<open>Preserved predicates\<close>

text \<open>
  \<open>preserves P m\<close>: running \<open>m\<close> from a state that satisfies \<open>P\<close> ends in one that does.
  The rules of the collection \<open>preserves\<close> follow the syntax of the program, so an
  invariant of a handler is proved by \<open>intro\<close> down to the primitive updates.
\<close>

named_theorems preserves "rules that lift a preserved predicate through a program"

definition preserves :: "('s \<Rightarrow> bool) \<Rightarrow> ('s, 'a) state \<Rightarrow> bool" where
  "preserves P m \<longleftrightarrow> (\<forall>s. P s \<longrightarrow> P (exec m s))"

lemma preservesD: "preserves P m \<Longrightarrow> P s \<Longrightarrow> P (exec m s)"
  by (simp add: preserves_def)

lemma preservesI: "(\<And>s. P s \<Longrightarrow> P (exec m s)) \<Longrightarrow> preserves P m"
  by (simp add: preserves_def)

lemma preserves_return [preserves]: "preserves P (State_Monad.return x)"
  by (simp add: preserves_def)

lemma preserves_gets [preserves]: "preserves P (gets f)"
  by (simp add: preserves_def)

lemma preserves_modify: "(\<And>s. P s \<Longrightarrow> P (f s)) \<Longrightarrow> preserves P (modify f)"
  by (simp add: preserves_def)

lemma preserves_bind [preserves]:
  "preserves P m \<Longrightarrow> (\<And>x. preserves P (f x)) \<Longrightarrow> preserves P (State_Monad.bind m f)"
  by (simp add: preserves_def)

lemma preserves_if [preserves]:
  "(b \<Longrightarrow> preserves P m) \<Longrightarrow> (\<not> b \<Longrightarrow> preserves P n) \<Longrightarrow> preserves P (if b then m else n)"
  by simp

lemma preserves_do_when [preserves]: "(b \<Longrightarrow> preserves P m) \<Longrightarrow> preserves P (do_when b m)"
  by (simp add: preserves_def)

lemma preserves_case_option [preserves]:
  "(x = None \<Longrightarrow> preserves P m) \<Longrightarrow> (\<And>y. x = Some y \<Longrightarrow> preserves P (f y)) \<Longrightarrow>
   preserves P (case x of None \<Rightarrow> m | Some y \<Rightarrow> f y)"
  by (simp split: option.split)

lemma preserves_case_prod [preserves]:
  "(\<And>a b. x = (a, b) \<Longrightarrow> preserves P (f a b)) \<Longrightarrow> preserves P (case x of (a, b) \<Rightarrow> f a b)"
  by (simp split: prod.split)

lemma preserves_let [preserves]: "preserves P (f x) \<Longrightarrow> preserves P (let y = x in f y)"
  by simp

lemma fold_preserves: "(\<And>x s. x \<in> set xs \<Longrightarrow> P s \<Longrightarrow> P (f x s)) \<Longrightarrow> P s \<Longrightarrow> P (fold f xs s)"
  by (induction xs arbitrary: s) auto

lemma preserves_for_each [preserves]:
  assumes "\<And>x. x \<in> set xs \<Longrightarrow> preserves P (f x)"
  shows "preserves P (for_each xs f)"
proof (rule preservesI)
  fix s
  assume "P s"
  then show "P (exec (for_each xs f) s)"
    unfolding exec_for_each by (rule fold_preserves [rotated]) (rule preservesD [OF assms])
qed

text \<open>A frame condition: \<open>m\<close> does not change what \<open>f\<close> observes.\<close>

named_theorems keeps "rules that lift a frame condition through a program"

definition keeps :: "('s \<Rightarrow> 'b) \<Rightarrow> ('s, 'a) state \<Rightarrow> bool" where
  "keeps f m \<longleftrightarrow> (\<forall>s. f (exec m s) = f s)"

lemma keepsD: "keeps f m \<Longrightarrow> f (exec m s) = f s"
  by (simp add: keeps_def)

lemma keepsI: "(\<And>s. f (exec m s) = f s) \<Longrightarrow> keeps f m"
  by (simp add: keeps_def)

lemma keeps_return [keeps]: "keeps f (State_Monad.return x)"
  by (simp add: keeps_def)

lemma keeps_gets [keeps]: "keeps f (gets g)"
  by (simp add: keeps_def)

lemma keeps_modify: "(\<And>s. f (g s) = f s) \<Longrightarrow> keeps f (modify g)"
  by (simp add: keeps_def)

lemma keeps_bind [keeps]:
  "keeps f m \<Longrightarrow> (\<And>x. keeps f (n x)) \<Longrightarrow> keeps f (State_Monad.bind m n)"
  by (simp add: keeps_def)

lemma keeps_if [keeps]: "(b \<Longrightarrow> keeps f m) \<Longrightarrow> (\<not> b \<Longrightarrow> keeps f n) \<Longrightarrow> keeps f (if b then m else n)"
  by simp

lemma keeps_do_when [keeps]: "(b \<Longrightarrow> keeps f m) \<Longrightarrow> keeps f (do_when b m)"
  by (simp add: keeps_def)

lemma keeps_case_option [keeps]:
  "(x = None \<Longrightarrow> keeps f m) \<Longrightarrow> (\<And>y. x = Some y \<Longrightarrow> keeps f (n y)) \<Longrightarrow>
   keeps f (case x of None \<Rightarrow> m | Some y \<Rightarrow> n y)"
  by (simp split: option.split)

lemma keeps_case_prod [keeps]:
  "(\<And>a b. x = (a, b) \<Longrightarrow> keeps f (n a b)) \<Longrightarrow> keeps f (case x of (a, b) \<Rightarrow> n a b)"
  by (simp split: prod.split)

lemma keeps_fold: "(\<And>x. x \<in> set xs \<Longrightarrow> keeps f (m x)) \<Longrightarrow> f (fold (\<lambda>x. exec (m x)) xs s) = f s"
  by (induction xs arbitrary: s) (simp_all add: keeps_def)

lemma keeps_for_each [keeps]: "(\<And>x. x \<in> set xs \<Longrightarrow> keeps f (m x)) \<Longrightarrow> keeps f (for_each xs m)"
  by (rule keepsI) (simp add: keeps_fold)

section \<open>Integer division\<close>

text \<open>C++ division truncates towards zero.\<close>

definition c_div :: "int \<Rightarrow> int \<Rightarrow> int" where
  "c_div a b = sgn a * sgn b * (\<bar>a\<bar> div \<bar>b\<bar>)"

lemma c_div_nonneg: "0 \<le> a \<Longrightarrow> 0 < b \<Longrightarrow> c_div a b = a div b"
  by (cases "a = 0") (simp_all add: c_div_def)

section \<open>Lists and multisets\<close>

lemma takeWhile_append_stop:
  "(\<And>x. x \<in> set xs \<Longrightarrow> P x) \<Longrightarrow> \<not> P y \<Longrightarrow> takeWhile P (xs @ y # ys) = xs"
  by (induction xs) auto

lemma dropWhile_append_stop:
  "(\<And>x. x \<in> set xs \<Longrightarrow> P x) \<Longrightarrow> \<not> P y \<Longrightarrow> dropWhile P (xs @ y # ys) = y # ys"
  by (induction xs) auto

lemma mset_filter_split: "mset xs = mset (filter P xs) + mset (filter (\<lambda>x. \<not> P x) xs)"
  by (induction xs) auto

lemma nth_update: "n < length xs \<Longrightarrow> xs[i := x] ! n = (if n = i then x else xs ! n)"
  by (cases "n = i") simp_all

lemma map_of_update_absent [simp]:
  "k \<notin> fst ` set al \<Longrightarrow> map_of (filter (\<lambda>p. fst p \<noteq> k) al) = map_of al"
  by (induction al) auto

end
