(* ===== verification/CString.thy ===== *)
theory CString
  imports Prelude
begin

text \<open>
  The parts of the C and C++ string library the program relies on: C strings, the
  \<open>snprintf\<close> buffer, \<open>to_string\<close>/\<open>%d\<close>, \<open>atoi\<close>/\<open>atoll\<close>/\<open>stoi\<close>, \<open>find\<close>, \<open>rfind\<close> and
  \<open>substr\<close>, the ASCII \<open>isspace\<close> of the C locale, and \<open>trimCopy\<close>, which the server
  configuration and the client define word for word alike. The round trip between
  \<open>to_string\<close> and \<open>atoi\<close> is proved here, because the Redis keys and the SQL rows carry
  every user id through it.
\<close>

definition NUL :: char where
  "NUL = CHR 0x00"

section \<open>C strings\<close>

definition c_str :: "string \<Rightarrow> string" where
  "c_str s = takeWhile (\<lambda>c. c \<noteq> NUL) s"

lemma c_str_id: "NUL \<notin> set s \<Longrightarrow> c_str s = s"
  by (auto simp: c_str_def takeWhile_eq_all_conv)

lemma c_str_no_nul [simp]: "NUL \<notin> set (c_str s)"
  by (auto simp: c_str_def dest: set_takeWhileD)

lemma c_str_idem [simp]: "c_str (c_str s) = c_str s"
  by (simp add: c_str_id)

lemma length_c_str: "length (c_str s) \<le> length s"
  by (simp add: c_str_def length_takeWhile_le)

lemma c_str_Nil [simp]: "c_str [] = []"
  by (simp add: c_str_def)

lemma c_str_append: "NUL \<notin> set s \<Longrightarrow> c_str (s @ t) = s @ c_str t"
  by (induction s) (auto simp: c_str_def)

text \<open>
  \<open>snprintf(buf, n, ...)\<close> stores at most \<open>n - 1\<close> bytes of the formatted text and a
  terminator; the rest of the text is dropped.
\<close>

definition snprintf :: "nat \<Rightarrow> string \<Rightarrow> string" where
  "snprintf n formatted = take (n - 1) formatted"

lemma length_snprintf: "0 < n \<Longrightarrow> length (snprintf n s) < n"
  by (simp add: snprintf_def)

lemma snprintf_id: "length s < n \<Longrightarrow> snprintf n s = s"
  by (simp add: snprintf_def)

section \<open>Characters\<close>

definition is_space :: "char \<Rightarrow> bool" where
  "is_space c \<longleftrightarrow> c = CHR '' '' \<or> c = CHR 0x09 \<or> c = CHR 0x0A \<or> c = CHR 0x0B \<or> c = CHR 0x0C \<or> c = CHR 0x0D"

definition is_digit :: "char \<Rightarrow> bool" where
  "is_digit c \<longleftrightarrow> 48 \<le> (of_char c :: nat) \<and> (of_char c :: nat) \<le> 57"

definition digit_val :: "char \<Rightarrow> nat" where
  "digit_val c = of_char c - 48"

definition digit_char :: "nat \<Rightarrow> char" where
  "digit_char d = char_of (48 + d)"

lemma of_char_digit_char: "d < 10 \<Longrightarrow> (of_char (digit_char d) :: nat) = 48 + d"
  by (simp add: digit_char_def of_char_of take_bit_nat_eq_self)

lemma is_digit_digit_char [simp]: "d < 10 \<Longrightarrow> is_digit (digit_char d)"
  by (simp add: is_digit_def of_char_digit_char)

lemma digit_val_digit_char [simp]: "d < 10 \<Longrightarrow> digit_val (digit_char d) = d"
  by (simp add: digit_val_def of_char_digit_char)

lemma digit_not_space: "is_digit c \<Longrightarrow> \<not> is_space c"
  by (auto simp: is_digit_def is_space_def)

section \<open>Decimal text\<close>

fun show_nat :: "nat \<Rightarrow> string" where
  "show_nat n = (if n < 10 then [digit_char n] else show_nat (n div 10) @ [digit_char (n mod 10)])"

declare show_nat.simps [simp del]

definition show_int :: "int \<Rightarrow> string" where
  "show_int i = (if i < 0 then CHR ''-'' # show_nat (nat (- i)) else show_nat (nat i))"

definition to_string :: "cint \<Rightarrow> string" where
  "to_string w = show_int (sint w)"

fun digits_val :: "nat \<Rightarrow> string \<Rightarrow> nat" where
  "digits_val acc [] = acc"
| "digits_val acc (c # cs) = (if is_digit c then digits_val (10 * acc + digit_val c) cs else acc)"

definition strtol10 :: "string \<Rightarrow> int" where
  "strtol10 s =
     (case dropWhile is_space s of
        [] \<Rightarrow> 0
      | c # cs \<Rightarrow>
          if c = CHR ''-'' then - int (digits_val 0 cs)
          else if c = CHR ''+'' then int (digits_val 0 cs)
          else int (digits_val 0 (c # cs)))"

definition clamp_long :: "int \<Rightarrow> int" where
  "clamp_long i = max (- (2 ^ 63)) (min (2 ^ 63 - 1) i)"

text \<open>
  \<open>atoi\<close> is \<open>(int) strtol(s, NULL, 10)\<close>: text that is no number is 0, a value outside
  \<open>long\<close> is clamped and then cut to 32 bits.
\<close>

definition atoi :: "string \<Rightarrow> cint" where
  "atoi s = word_of_int (clamp_long (strtol10 (c_str s)))"

definition atoll :: "string \<Rightarrow> int" where
  "atoll s = clamp_long (strtol10 (c_str s))"

text \<open>
  \<open>stoi\<close> throws when there is no number to read or it is not an \<open>int\<close>; what follows the
  number is ignored.
\<close>

definition has_number :: "string \<Rightarrow> bool" where
  "has_number s =
     (case dropWhile is_space s of
        [] \<Rightarrow> False
      | c # cs \<Rightarrow>
          if c = CHR ''-'' \<or> c = CHR ''+'' then cs \<noteq> [] \<and> is_digit (hd cs) else is_digit c)"

definition is_int32 :: "int \<Rightarrow> bool" where
  "is_int32 i \<longleftrightarrow> - (2 ^ 31) \<le> i \<and> i < 2 ^ 31"

definition stoi :: "string \<Rightarrow> cint option" where
  "stoi s =
     (let v = strtol10 (c_str s) in if has_number (c_str s) \<and> is_int32 v then Some (word_of_int v) else None)"

lemma show_nat_digits: "c \<in> set (show_nat n) \<Longrightarrow> is_digit c"
proof (induction n rule: show_nat.induct)
  case (1 n)
  show ?case
  proof (cases "n < 10")
    case True
    with "1.prems" show ?thesis by (subst (asm) show_nat.simps) simp
  next
    case False
    with "1.prems" consider "c \<in> set (show_nat (n div 10))" | "c = digit_char (n mod 10)"
      by (subst (asm) show_nat.simps) auto
    then show ?thesis using "1.IH" False by cases auto
  qed
qed

lemma show_nat_nonempty [simp]: "show_nat n \<noteq> []"
  by (subst show_nat.simps) simp

lemma digits_val_append:
  "(\<And>c. c \<in> set xs \<Longrightarrow> is_digit c) \<Longrightarrow> digits_val acc (xs @ ys) = digits_val (digits_val acc xs) ys"
  by (induction xs arbitrary: acc) auto

lemma digits_val_show_nat: "digits_val 0 (show_nat n) = n"
proof (induction n rule: show_nat.induct)
  case (1 n)
  show ?case
  proof (cases "n < 10")
    case True
    then show ?thesis by (subst show_nat.simps) simp
  next
    case False
    then have "digits_val 0 (show_nat n)
        = digits_val (digits_val 0 (show_nat (n div 10))) [digit_char (n mod 10)]"
      by (subst show_nat.simps) (simp add: digits_val_append show_nat_digits)
    also have "\<dots> = n" using "1.IH" False by simp
    finally show ?thesis .
  qed
qed

lemma show_nat_Cons:
  obtains c cs where "show_nat n = c # cs" and "is_digit c"
proof -
  obtain c cs where "show_nat n = c # cs" by (cases "show_nat n") auto
  moreover from this have "is_digit c" using show_nat_digits [of c n] by simp
  ultimately show thesis by (rule that)
qed

lemma strtol10_show_int: "strtol10 (show_int i) = i"
proof (cases "i < 0")
  case True
  then show ?thesis
    by (simp add: strtol10_def show_int_def is_space_def digits_val_show_nat)
next
  case False
  obtain c cs where sn: "show_nat (nat i) = c # cs" "is_digit c" by (rule show_nat_Cons)
  moreover have "c \<noteq> CHR ''-''" "c \<noteq> CHR ''+''" using sn(2) by (auto simp: is_digit_def)
  moreover have "digits_val 0 (c # cs) = nat i" using digits_val_show_nat [of "nat i"] sn by simp
  ultimately show ?thesis using False
    by (simp add: strtol10_def show_int_def digit_not_space del: digits_val.simps)
qed

lemma show_int_no_nul [simp]: "NUL \<notin> set (show_int i)"
proof -
  have "\<not> is_digit NUL" by (simp add: is_digit_def NUL_def)
  then show ?thesis using show_nat_digits by (auto simp: show_int_def NUL_def)
qed

lemma to_string_no_nul [simp]: "NUL \<notin> set (to_string w)"
  by (simp add: to_string_def)

lemma to_string_nonempty [simp]: "to_string w \<noteq> []"
  by (simp add: to_string_def show_int_def)

lemma atoll_show_int: "- (2 ^ 63) \<le> i \<Longrightarrow> i < 2 ^ 63 \<Longrightarrow> atoll (show_int i) = i"
  by (simp add: atoll_def c_str_id strtol10_show_int clamp_long_def)

lemma sint_range32: "- (2 ^ 31) \<le> sint (w :: cint)" "sint (w :: cint) < 2 ^ 31"
  using sint_greater_eq [of w] sint_less [of w] by simp_all

theorem atoi_to_string [simp]: "atoi (to_string w) = w"
proof -
  have "clamp_long (sint w) = sint w"
    using sint_range32 [of w] by (simp add: clamp_long_def)
  then show ?thesis
    by (simp add: atoi_def to_string_def c_str_id strtol10_show_int)
qed

lemma to_string_inject [simp]: "to_string a = to_string b \<longleftrightarrow> a = b"
  by (metis atoi_to_string)

lemma show_int_inject [simp]: "show_int a = show_int b \<longleftrightarrow> a = b"
  by (metis strtol10_show_int)

lemma has_number_show_int: "has_number (show_int i)"
proof (cases "i < 0")
  case True
  obtain c cs where "show_nat (nat (- i)) = c # cs" "is_digit c" by (rule show_nat_Cons)
  then show ?thesis using True by (simp add: has_number_def show_int_def is_space_def)
next
  case False
  obtain c cs where sn: "show_nat (nat i) = c # cs" "is_digit c" by (rule show_nat_Cons)
  moreover have "c \<noteq> CHR ''-''" "c \<noteq> CHR ''+''" using sn(2) by (auto simp: is_digit_def)
  ultimately show ?thesis using False by (simp add: has_number_def show_int_def digit_not_space)
qed

lemma stoi_to_string [simp]: "stoi (to_string w) = Some w"
  using sint_range32 [of w] by (simp add: stoi_def c_str_id to_string_def strtol10_show_int has_number_show_int is_int32_def)

section \<open>find, rfind, substr\<close>

text \<open>\<open>npos\<close> is \<open>None\<close>.\<close>

fun str_find :: "char \<Rightarrow> string \<Rightarrow> nat option" where
  "str_find c [] = None"
| "str_find c (x # xs) = (if x = c then Some 0 else map_option Suc (str_find c xs))"

definition str_find_from :: "char \<Rightarrow> string \<Rightarrow> nat \<Rightarrow> nat option" where
  "str_find_from c s start = map_option (\<lambda>i. start + i) (str_find c (drop start s))"

definition str_rfind :: "char \<Rightarrow> string \<Rightarrow> nat option" where
  "str_rfind c s = map_option (\<lambda>i. length s - 1 - i) (str_find c (rev s))"

definition substr :: "string \<Rightarrow> nat \<Rightarrow> nat \<Rightarrow> string" where
  "substr s pos n = take n (drop pos s)"

lemma str_find_None: "str_find c s = None \<longleftrightarrow> c \<notin> set s"
  by (induction s) auto

lemma str_find_append: "c \<notin> set xs \<Longrightarrow> str_find c (xs @ c # ys) = Some (length xs)"
  by (induction xs) auto

lemma str_find_Some:
  "str_find c s = Some n \<Longrightarrow> n < length s \<and> s ! n = c \<and> c \<notin> set (take n s)"
  by (induction s arbitrary: n) (auto split: if_splits)

lemma str_find_Some_split:
  assumes "str_find c s = Some n"
  shows "s = take n s @ c # drop (Suc n) s" and "c \<notin> set (take n s)"
  using str_find_Some [OF assms] id_take_nth_drop [of n s] by simp_all

lemma str_rfind_append: "c \<notin> set ys \<Longrightarrow> str_rfind c (xs @ c # ys) = Some (length xs)"
  using str_find_append [of c "rev ys" "rev xs"] by (simp add: str_rfind_def)

section \<open>trimCopy\<close>

definition trimCopy :: "string \<Rightarrow> string" where
  "trimCopy s = rev (dropWhile is_space (rev (dropWhile is_space s)))"

end
