(* ===== verification/ClusterTypes.thy ===== *)
theory ClusterTypes
  imports CString
begin

text \<open>
  The types the parts of the server share: message kinds (\<open>include/public.hpp\<close>), the
  description of a cluster node (\<open>include/server/clustertypes.hpp\<close>) and the rows of the
  user and group tables (\<open>include/server/model\<close>).
\<close>

section \<open>Message kinds\<close>

datatype EnMsgType =
    LOGIN_MSG | LOGIN_MSG_ACK | LOGOUT_MSG | REG_MSG | REG_MSG_ACK | ONE_CHAT_MSG | ADD_FRIEND_MSG
  | CREATE_GROUP_MSG | ADD_GROUP_MSG | GROUP_CHAT_MSG
  | NODE_ROUTE_ONE_CHAT_MSG | NODE_ROUTE_GROUP_CHAT_MSG | NODE_PING_MSG | NODE_PONG_MSG

text \<open>The values: an enumerator without a value is one more than the one before it.\<close>

fun msg_code :: "EnMsgType \<Rightarrow> cint" where
  "msg_code LOGIN_MSG = 1"
| "msg_code LOGIN_MSG_ACK = 2"
| "msg_code LOGOUT_MSG = 3"
| "msg_code REG_MSG = 4"
| "msg_code REG_MSG_ACK = 5"
| "msg_code ONE_CHAT_MSG = 6"
| "msg_code ADD_FRIEND_MSG = 7"
| "msg_code CREATE_GROUP_MSG = 8"
| "msg_code ADD_GROUP_MSG = 9"
| "msg_code GROUP_CHAT_MSG = 10"
| "msg_code NODE_ROUTE_ONE_CHAT_MSG = 100"
| "msg_code NODE_ROUTE_GROUP_CHAT_MSG = 101"
| "msg_code NODE_PING_MSG = 102"
| "msg_code NODE_PONG_MSG = 103"

lemma msg_code_inject [simp]: "msg_code a = msg_code b \<longleftrightarrow> a = b"
  by (cases a; cases b) simp_all

section \<open>Cluster nodes\<close>

record NodeMeta =
  nodeId :: string
  instanceId :: string
  clientIp :: string
  clientPort :: "16 word"
  interIp :: string
  interPort :: "16 word"
  heartbeatMs :: int

definition emptyNodeMeta :: NodeMeta where
  "emptyNodeMeta = \<lparr>nodeId = '''', instanceId = '''', clientIp = '''', clientPort = 0,
     interIp = '''', interPort = 0, heartbeatMs = 0\<rparr>"

definition valid :: "NodeMeta \<Rightarrow> bool" where
  "valid m \<longleftrightarrow> nodeId m \<noteq> '''' \<and> interIp m \<noteq> '''' \<and> interPort m \<noteq> 0"

section \<open>Users and groups\<close>

record User =
  user_id :: cint
  user_name :: string
  user_password :: string
  user_state :: string

definition makeUser :: "cint \<Rightarrow> string \<Rightarrow> string \<Rightarrow> string \<Rightarrow> User" where
  "makeUser i n p st = \<lparr>user_id = i, user_name = n, user_password = p, user_state = st\<rparr>"

definition defaultUser :: User where
  "defaultUser = makeUser (-1) '''' '''' ''offline''"

text \<open>\<open>GroupUser\<close> inherits from \<open>User\<close>, here by record extension.\<close>

record GroupUser = User +
  user_role :: string

record Group =
  group_id :: cint
  group_name :: string
  group_desc :: string
  group_users :: "GroupUser list"

definition makeGroup :: "cint \<Rightarrow> string \<Rightarrow> string \<Rightarrow> Group" where
  "makeGroup i n d = \<lparr>group_id = i, group_name = n, group_desc = d, group_users = []\<rparr>"

end
