(* ===== verification/Json.thy ===== *)
theory Json
  imports ClusterTypes
begin

text \<open>
  The values of the JSON library and the two ways the program reads a member: as an \<open>int\<close>
  and as a string. The library itself (\<open>thirdparty/json.hpp\<close>) is not modelled: parsing and
  printing are parameters of the environment, and both may throw. A double is
  \<open>JFloat m e\<close>, the number \<open>m * 2 ^ e\<close>.
\<close>

datatype json =
    JNull | JBool bool | JInt int | JFloat int int | JStr string | JArr "json list" | JObj "(string \<times> json) list"

text \<open>
  \<open>js[key]\<close> on a \<open>json\<close> that is not constant: a missing member is null, so reading it as a
  number or a string throws, as does indexing a value that is no object. \<open>None\<close> is the
  exception.
\<close>

definition jmember :: "json \<Rightarrow> string \<Rightarrow> json option" where
  "jmember js key = (case js of JObj ms \<Rightarrow> map_of ms key | _ \<Rightarrow> None)"

definition truncate_double :: "int \<Rightarrow> int \<Rightarrow> int" where
  "truncate_double m e = (if 0 \<le> e then m * 2 ^ nat e else c_div m (2 ^ nat (- e)))"

fun jval_int :: "json \<Rightarrow> cint option" where
  "jval_int (JInt i) = Some (word_of_int i)"
| "jval_int (JFloat m e) = Some (word_of_int (truncate_double m e))"
| "jval_int (JBool b) = Some (if b then 1 else 0)"
| "jval_int _ = None"

fun jval_str :: "json \<Rightarrow> string option" where
  "jval_str (JStr s) = Some s"
| "jval_str _ = None"

definition jint :: "json \<Rightarrow> string \<Rightarrow> cint option" where
  "jint js key = Option.bind (jmember js key) jval_int"

definition jstr :: "json \<Rightarrow> string \<Rightarrow> string option" where
  "jstr js key = Option.bind (jmember js key) jval_str"

fun all_some :: "'a option list \<Rightarrow> 'a list option" where
  "all_some [] = Some []"
| "all_some (None # _) = None"
| "all_some (Some x # xs) = map_option (Cons x) (all_some xs)"

definition jints :: "json \<Rightarrow> string \<Rightarrow> cint list option" where
  "jints js key =
     (case jmember js key of Some (JArr vs) \<Rightarrow> all_some (map jval_int vs) | _ \<Rightarrow> None)"

definition jstrs :: "json \<Rightarrow> string \<Rightarrow> string list option" where
  "jstrs js key =
     (case jmember js key of Some (JArr vs) \<Rightarrow> all_some (map jval_str vs) | _ \<Rightarrow> None)"

text \<open>Building values: \<open>int\<close>, \<open>string\<close>, \<open>vector\<close>.\<close>

definition JI :: "cint \<Rightarrow> json" where
  "JI i = JInt (sint i)"

definition JStrs :: "string list \<Rightarrow> json" where
  "JStrs ss = JArr (map JStr ss)"

definition JInts :: "cint list \<Rightarrow> json" where
  "JInts is = JArr (map JI is)"

lemma all_some_map [simp]: "all_some (map (\<lambda>x. Some (f x)) xs) = Some (map f xs)"
  by (induction xs) simp_all

lemma jval_int_JI [simp]: "jval_int (JI i) = Some i"
  by (simp add: JI_def)

section \<open>Programs that may throw\<close>

text \<open>
  How a piece of code that reads or prints JSON ends: normally, or with a \<open>json::exception\<close>.
  Everything done before the exception stays done.
\<close>

datatype outcome = Finished | JsonThrew

definition with_value :: "'a option \<Rightarrow> ('a \<Rightarrow> ('s, outcome) state) \<Rightarrow> ('s, outcome) state" where
  "with_value x f = (case x of None \<Rightarrow> State_Monad.return JsonThrew | Some y \<Rightarrow> f y)"

definition finish :: "('s, 'a) state \<Rightarrow> ('s, outcome) state" where
  "finish m = do { m; State_Monad.return Finished }"

text \<open>A loop whose body may throw.\<close>

primrec each_or_throw :: "'a list \<Rightarrow> ('a \<Rightarrow> ('s, outcome) state) \<Rightarrow> ('s, outcome) state" where
  "each_or_throw [] f = State_Monad.return Finished"
| "each_or_throw (x # xs) f = do {
     r \<leftarrow> f x;
     if r = JsonThrew then State_Monad.return JsonThrew else each_or_throw xs f
   }"

definition and_then :: "('s, outcome) state \<Rightarrow> ('s, outcome) state \<Rightarrow> ('s, outcome) state" where
  "and_then m n = do {
     r \<leftarrow> m;
     if r = JsonThrew then State_Monad.return JsonThrew else n
   }"

lemma keeps_throwing [keeps]:
  "(\<And>y. keeps g (f y)) \<Longrightarrow> keeps g (with_value x f)" "keeps g m \<Longrightarrow> keeps g (finish m)"
  "keeps g m' \<Longrightarrow> keeps g n \<Longrightarrow> keeps g (and_then m' n)"
  by (auto simp: with_value_def finish_def and_then_def keeps_def split: option.split)

lemma keeps_each_or_throw [keeps]: "(\<And>x. keeps g (f x)) \<Longrightarrow> keeps g (each_or_throw xs f)"
  by (induction xs) (auto simp: keeps_def)

end
