(* ===== verification/Framing.thy ===== *)
theory Framing
  imports CString
begin

text \<open>
  The interface of a message framing on a byte stream. TCP delivers bytes, not messages:
  a receiver appends what it has got to a per-connection buffer and takes as many whole
  messages out of it as it can. The repository has three such receivers: the cluster
  port (\<open>ClusterServer::onMessage\<close>), the client port (\<open>ChatServer::onMessage\<close>) and the
  client's receive thread (\<open>readTaskHandler\<close>). The locale states what one call of such a
  receiver promises about whole and incomplete messages; the theorem is that the
  messages obtained do not depend on how the stream is cut into reads.
\<close>

type_synonym 'm scanner = "string \<Rightarrow> 'm list \<times> string"

text \<open>One read after the other: each appends to what the previous one left.\<close>

fun feed :: "'m scanner \<Rightarrow> string \<Rightarrow> string list \<Rightarrow> 'm list \<times> string" where
  "feed scan pending [] = ([], pending)"
| "feed scan pending (chunk # chunks) =
     (let (ms, rest) = scan (pending @ chunk); (ms', rest') = feed scan rest chunks
      in (ms @ ms', rest'))"

definition stream_of :: "('m \<Rightarrow> string) \<Rightarrow> 'm list \<Rightarrow> string" where
  "stream_of enc ms = concat (map enc ms)"

lemma stream_of_simps [simp]:
  "stream_of enc [] = []" "stream_of enc (m # ms) = enc m @ stream_of enc ms"
  "stream_of enc (ms @ ms') = stream_of enc ms @ stream_of enc ms'"
  by (simp_all add: stream_of_def)

text \<open>
  A cut of a stream falls inside one message: \<open>k\<close> messages are whole, and what is left
  over is a proper prefix of the next one.
\<close>

definition cut_of :: "('m \<Rightarrow> string) \<Rightarrow> 'm list \<Rightarrow> string \<Rightarrow> nat \<Rightarrow> string \<Rightarrow> bool" where
  "cut_of enc ms p k r \<longleftrightarrow>
     k \<le> length ms \<and> p = stream_of enc (take k ms) @ r \<and>
     (if k = length ms then r = [] else \<exists>t. t \<noteq> [] \<and> enc (ms ! k) = r @ t)"

lemma prefix_split:
  assumes "p @ q = a @ b"
  shows "(\<exists>t. t \<noteq> [] \<and> a = p @ t) \<or> (\<exists>p'. p = a @ p' \<and> p' @ q = b)"
proof -
  consider us where "p = a @ us" "us @ q = b" | us where "p @ us = a" "q = us @ b"
    using assms by (auto simp: append_eq_append_conv2)
  then show ?thesis
  proof cases
    case 2
    then show ?thesis by (cases "us = []") auto
  qed blast
qed

lemma cut_exists:
  assumes "p @ q = stream_of enc ms"
  shows "\<exists>k r. cut_of enc ms p k r \<and> r @ q = stream_of enc (drop k ms)"
  using assms
proof (induction ms arbitrary: p)
  case Nil
  then show ?case by (auto simp: cut_of_def)
next
  case (Cons m ms)
  then have "p @ q = enc m @ stream_of enc ms" by simp
  from prefix_split [OF this] consider
    t where "t \<noteq> []" "enc m = p @ t" | p' where "p = enc m @ p'" "p' @ q = stream_of enc ms"
    by blast
  then show ?case
  proof cases
    case 1
    then have "cut_of enc (m # ms) p 0 p" by (auto simp: cut_of_def)
    with Cons.prems show ?thesis by (metis drop0)
  next
    case 2
    from Cons.IH [OF 2(2)] obtain k r
      where "cut_of enc ms p' k r" "r @ q = stream_of enc (drop k ms)" by blast
    then have "cut_of enc (m # ms) p (Suc k) r" using 2(1) by (auto simp: cut_of_def)
    with \<open>r @ q = _\<close> show ?thesis by (metis drop_Suc_Cons)
  qed
qed

locale framing =
  fixes scan :: "'m scanner"
    and enc :: "'m \<Rightarrow> string"
    and sendable :: "'m \<Rightarrow> bool"
  assumes enc_nonempty: "sendable m \<Longrightarrow> enc m \<noteq> []"
    and scan_empty: "scan [] = ([], [])"
    and scan_whole: "sendable m \<Longrightarrow>
          scan (enc m @ rest) = (m # fst (scan rest), snd (scan rest))"
    and scan_partial: "sendable m \<Longrightarrow> enc m = p @ t \<Longrightarrow> t \<noteq> [] \<Longrightarrow> scan p = ([], p)"
begin

lemma scan_messages:
  "list_all sendable ms \<Longrightarrow>
   scan (stream_of enc ms @ rest) = (ms @ fst (scan rest), snd (scan rest))"
  by (induction ms) (auto simp: scan_whole)

lemma scan_stream: "list_all sendable ms \<Longrightarrow> scan (stream_of enc ms) = (ms, [])"
  using scan_messages [of ms "[]"] by (simp add: scan_empty)

lemma scan_cut:
  assumes "list_all sendable ms" and "cut_of enc ms p k r"
  shows "scan p = (take k ms, r)"
proof -
  have take: "list_all sendable (take k ms)" using assms(1) by (auto simp: list_all_iff dest: in_set_takeD)
  have p: "p = stream_of enc (take k ms) @ r" using assms(2) by (simp add: cut_of_def)
  have r: "scan r = ([], r)"
  proof (cases "k = length ms")
    case True
    with assms(2) show ?thesis by (simp add: cut_of_def scan_empty)
  next
    case False
    with assms(2) obtain t where "t \<noteq> []" "enc (ms ! k) = r @ t" and "k < length ms"
      by (auto simp: cut_of_def)
    with assms(1) show ?thesis
      by (intro scan_partial [of "ms ! k" r t]) (auto simp: list_all_length)
  qed
  show ?thesis using scan_messages [OF take, of r] r p by simp
qed

text \<open>However the stream is cut into reads, the receiver gets the same messages.\<close>

lemma feed_cut:
  assumes "list_all sendable ms" and "cut_of enc ms p 0 p"
    and "p @ concat chunks = stream_of enc ms"
  shows "feed scan p chunks = (ms, [])"
  using assms
proof (induction chunks arbitrary: p ms)
  case Nil
  then have p: "p = stream_of enc ms" by simp
  have "ms = []"
  proof (rule ccontr)
    assume "ms \<noteq> []"
    then obtain m ms' where ms: "ms = m # ms'" by (cases ms) auto
    with Nil.prems(2) obtain t where "t \<noteq> []" "enc m = p @ t" by (auto simp: cut_of_def)
    with p ms show False by simp
  qed
  with p show ?case by simp
next
  case (Cons c cs)
  then have "(p @ c) @ concat cs = stream_of enc ms" by simp
  from cut_exists [OF this] obtain k r
    where cut: "cut_of enc ms (p @ c) k r" and rest: "r @ concat cs = stream_of enc (drop k ms)"
    by blast
  have scan: "scan (p @ c) = (take k ms, r)" by (rule scan_cut [OF Cons.prems(1) cut])
  have "cut_of enc (drop k ms) r 0 r" using cut by (auto simp: cut_of_def)
  moreover have "list_all sendable (drop k ms)"
    using Cons.prems(1) by (auto simp: list_all_iff dest: in_set_dropD)
  ultimately have "feed scan r cs = (drop k ms, [])" using rest by (intro Cons.IH)
  with scan show ?case by simp
qed

lemma feed_stream:
  assumes "list_all sendable ms" and "concat chunks = stream_of enc ms"
  shows "feed scan [] chunks = (ms, [])"
proof (rule feed_cut [OF assms(1)])
  show "cut_of enc ms [] 0 []"
    using assms(1) by (cases ms) (auto simp: cut_of_def enc_nonempty)
  show "[] @ concat chunks = stream_of enc ms" using assms(2) by simp
qed

text \<open>
  A stream that stops in the middle of a message: the whole messages have been
  delivered, and exactly the incomplete tail is kept for the next read.
\<close>

lemma feed_truncated:
  assumes "list_all sendable ms" and "sendable m" and "enc m = p @ t" and "t \<noteq> []"
    and "concat chunks = stream_of enc ms @ p"
  shows "feed scan [] (chunks @ [t]) = (ms @ [m], [])"
    and "scan (concat chunks) = (ms, p)"
proof -
  have "list_all sendable (ms @ [m])" using assms(1,2) by simp
  moreover have "concat (chunks @ [t]) = stream_of enc (ms @ [m])" using assms(3,5) by simp
  ultimately show "feed scan [] (chunks @ [t]) = (ms @ [m], [])" by (rule feed_stream)
  show "scan (concat chunks) = (ms, p)"
    using scan_messages [OF assms(1), of p] scan_partial [OF assms(2-4)] assms(5) by simp
qed

end

end
