(* ===== verification/ChatWire.thy ===== *)
theory ChatWire
  imports Framing
begin

text \<open>
  The two other receivers of the program. \<open>ChatServer::onMessage\<close>
  (\<open>src/server/chatserver.cpp\<close>) splits a client's bytes at NUL. The client's receive
  thread (\<open>src/client/main.cpp\<close>) cannot, because the server sends its JSON without a
  terminator: it looks for the end of a JSON object by counting braces outside string
  literals.
\<close>

section \<open>The client port of the server\<close>

text \<open>
  The loop of \<open>onMessage\<close>, with its index \<open>start\<close>; the result is the list of texts given
  to \<open>json::parse\<close> and the index after the last terminator. The bytes before that index
  are erased.
\<close>

function chatOnMessageLoop :: "string \<Rightarrow> nat \<Rightarrow> string list \<times> nat" where
  "chatOnMessageLoop pending start =
     (case str_find_from NUL pending start of
        None \<Rightarrow> ([], start)
      | Some end' \<Rightarrow>
          let (ms, start') = chatOnMessageLoop pending (end' + 1)
          in ((if end' > start then [substr pending start (end' - start)] else []) @ ms, start'))"
  by pat_completeness auto
termination
  by (relation "measure (\<lambda>(pending, start). length pending - start)")
    (auto simp: str_find_from_def dest!: str_find_Some)

declare chatOnMessageLoop.simps [simp del]

definition chatOnMessage :: "string \<Rightarrow> string list \<times> string" where
  "chatOnMessage pending =
     (let (ms, start) = chatOnMessageLoop pending 0
      in (ms, if 0 < start then drop start pending else pending))"

text \<open>
  What the loop computes, without the index: the pieces between terminators, the empty
  ones left out.
\<close>

fun nul_split :: "string \<Rightarrow> string \<Rightarrow> string list \<times> string" where
  "nul_split piece [] = ([], piece)"
| "nul_split piece (c # cs) =
     (if c = NUL then
        let (ms, rest) = nul_split [] cs in ((if piece = [] then [] else [piece]) @ ms, rest)
      else nul_split (piece @ [c]) cs)"

lemma nul_split_no_nul: "NUL \<notin> set s \<Longrightarrow> nul_split piece s = ([], piece @ s)"
  by (induction s arbitrary: piece) auto

lemma nul_split_piece:
  "NUL \<notin> set s \<Longrightarrow> nul_split piece (s @ NUL # rest) =
     (let (ms, r) = nul_split [] rest in ((if piece @ s = [] then [] else [piece @ s]) @ ms, r))"
  by (induction s arbitrary: piece) auto

lemma chat_loop_split:
  "chatOnMessageLoop pending start = (ms, start') \<Longrightarrow> start \<le> length pending \<Longrightarrow>
   start \<le> start' \<and> start' \<le> length pending \<and> nul_split [] (drop start pending) = (ms, drop start' pending)"
proof (induction pending start arbitrary: ms start' rule: chatOnMessageLoop.induct)
  case (1 pending start)
  show ?case
  proof (cases "str_find NUL (drop start pending)")
    case None
    with "1.prems" show ?thesis
      by (subst (asm) chatOnMessageLoop.simps)
        (auto simp: str_find_from_def str_find_None nul_split_no_nul)
  next
    case (Some n)
    note split = str_find_Some_split [OF Some]
    have n: "start + n < length pending" using str_find_Some [OF Some] by (simp add: less_diff_conv add.commute)
    define end' where "end' = start + n"
    have find: "str_find_from NUL pending start = Some end'"
      by (simp add: str_find_from_def Some end'_def)
    obtain ms' s' where rec: "chatOnMessageLoop pending (end' + 1) = (ms', s')" by fastforce
    from "1.IH" [OF find rec] n
    have IH: "end' + 1 \<le> s'" "s' \<le> length pending"
      "nul_split [] (drop (end' + 1) pending) = (ms', drop s' pending)"
      by (auto simp: end'_def)
    have ms: "ms = (if end' > start then [substr pending start n] else []) @ ms'" "start' = s'"
      using "1.prems"(1) find rec by (subst (asm) chatOnMessageLoop.simps, auto simp: end'_def)+
    have "drop start pending = take n (drop start pending) @ NUL # drop (end' + 1) pending"
      using split(1) by (simp add: end'_def add.commute)
    then have "nul_split [] (drop start pending)
        = nul_split [] (take n (drop start pending) @ NUL # drop (end' + 1) pending)" by simp
    also have "\<dots> = (ms, drop start' pending)"
      using IH(3) ms n split(2) by (simp add: nul_split_piece substr_def end'_def)
    finally show ?thesis using IH ms by (simp add: end'_def)
  qed
qed

lemma chatOnMessage_split: "chatOnMessage pending = nul_split [] pending"
  using chat_loop_split [of pending 0]
  by (auto simp: chatOnMessage_def split: prod.split)

lemma nul_split_append:
  "nul_split piece (xs @ ys) =
     (let (ms, r) = nul_split piece xs; (ms', r') = nul_split r ys in (ms @ ms', r'))"
  by (induction piece xs rule: nul_split.induct) (auto simp: split_beta Let_def)

lemma nul_split_rest: "NUL \<notin> set piece \<Longrightarrow> NUL \<notin> set (snd (nul_split piece xs))"
  by (induction piece xs rule: nul_split.induct) (auto simp: split_beta Let_def)

lemma nul_split_pending: "NUL \<notin> set piece \<Longrightarrow> nul_split [] (piece @ xs) = nul_split piece xs"
  by (simp add: nul_split_append nul_split_no_nul)

definition sendable_text :: "string \<Rightarrow> bool" where
  "sendable_text text \<longleftrightarrow> text \<noteq> [] \<and> NUL \<notin> set text"

interpretation chat_wire: framing chatOnMessage "\<lambda>text. text @ [NUL]" sendable_text
proof unfold_locales
  fix m rest p t :: string
  show "sendable_text m \<Longrightarrow> m @ [NUL] \<noteq> []" by simp
  show "chatOnMessage [] = ([], [])" by (simp add: chatOnMessage_split)
  show "sendable_text m \<Longrightarrow> chatOnMessage ((m @ [NUL]) @ rest) = (m # fst (chatOnMessage rest), snd (chatOnMessage rest))"
    by (simp add: chatOnMessage_split sendable_text_def nul_split_piece split_beta)
  show "sendable_text m \<Longrightarrow> m @ [NUL] = p @ t \<Longrightarrow> t \<noteq> [] \<Longrightarrow> chatOnMessage p = ([], p)"
    by (cases t rule: rev_cases) (auto simp: chatOnMessage_split sendable_text_def nul_split_no_nul)
qed

section \<open>The receive thread of the client\<close>

text \<open>
  \<open>findJsonEnd\<close>, with its loop variables. \<open>depth\<close> is a C \<open>int\<close>: it stays below the number
  of bytes received, so it is an \<open>int\<close> here.
\<close>

fun findJsonEndLoop :: "string \<Rightarrow> nat \<Rightarrow> int \<Rightarrow> bool \<Rightarrow> bool \<Rightarrow> nat option" where
  "findJsonEndLoop [] i depth inStr esc = None"
| "findJsonEndLoop (c # cs) i depth inStr esc =
     (if esc then findJsonEndLoop cs (i + 1) depth inStr False
      else if inStr then
        if c = CHR 0x5C then findJsonEndLoop cs (i + 1) depth inStr True
        else if c = CHR 0x22 then findJsonEndLoop cs (i + 1) depth False esc
        else findJsonEndLoop cs (i + 1) depth inStr esc
      else if c = CHR 0x22 then findJsonEndLoop cs (i + 1) depth True esc
      else if c = CHR ''{'' then findJsonEndLoop cs (i + 1) (depth + 1) inStr esc
      else if c = CHR ''}'' then
        if depth - 1 = 0 then Some (i + 1) else findJsonEndLoop cs (i + 1) (depth - 1) inStr esc
      else findJsonEndLoop cs (i + 1) depth inStr esc)"

definition findJsonEnd :: "string \<Rightarrow> nat \<Rightarrow> nat option" where
  "findJsonEnd buf start = findJsonEndLoop (drop start buf) start 0 False False"

lemma findJsonEndLoop_bounds:
  "findJsonEndLoop cs i d s e = Some n \<Longrightarrow> i < n \<and> n \<le> i + length cs"
  by (induction cs i d s e rule: findJsonEndLoop.induct) (auto split: if_splits)

lemma findJsonEndLoop_append:
  "findJsonEndLoop cs i d s e = Some n \<Longrightarrow> findJsonEndLoop (cs @ rest) i d s e = Some n"
  by (induction cs i d s e rule: findJsonEndLoop.induct) (auto split: if_splits)

lemma findJsonEndLoop_shift:
  "findJsonEndLoop cs (i + k) d s e = map_option (\<lambda>n. n + k) (findJsonEndLoop cs i d s e)"
  by (induction cs i d s e rule: findJsonEndLoop.induct) (auto simp: add.commute add.left_commute)

lemma findJsonEnd_bounds:
  assumes "findJsonEnd buf start = Some n"
  shows "start < n \<and> n \<le> length buf"
proof -
  have "start < length buf"
    using assms by (cases "start < length buf") (auto simp: findJsonEnd_def)
  then show ?thesis
    using findJsonEndLoop_bounds [OF assms [unfolded findJsonEnd_def]] by simp
qed

definition skippable :: "char \<Rightarrow> bool" where
  "skippable c \<longleftrightarrow> c = NUL \<or> c = CHR '' '' \<or> c = CHR 0x0A \<or> c = CHR 0x0D \<or> c = CHR 0x09"

function skipBlank :: "string \<Rightarrow> nat \<Rightarrow> nat" where
  "skipBlank buf pos =
     (if pos < length buf \<and> skippable (buf ! pos) then skipBlank buf (pos + 1) else pos)"
  by pat_completeness auto
termination
  by (relation "measure (\<lambda>(buf, pos). length buf - pos)") auto

declare skipBlank.simps [simp del]

lemma skipBlank_bounds: "pos \<le> skipBlank buf pos \<and> (pos \<le> length buf \<longrightarrow> skipBlank buf pos \<le> length buf)"
proof (induction buf pos rule: skipBlank.induct)
  case (1 buf pos)
  then show ?case by (subst (1 2) skipBlank.simps) force
qed

text \<open>
  The extraction loop of \<open>readTaskHandler\<close>: the texts handed to \<open>json::parse\<close>, and the
  position up to which the buffer is then erased.
\<close>

function readLoop :: "string \<Rightarrow> nat \<Rightarrow> string list \<times> nat" where
  "readLoop recvBuf pos =
     (if pos < length recvBuf then
        let pos' = skipBlank recvBuf pos in
        if pos' \<ge> length recvBuf then ([], pos')
        else
          case findJsonEnd recvBuf pos' of
            None \<Rightarrow> ([], pos')
          | Some end' \<Rightarrow>
              let (ms, p) = readLoop recvBuf end'
              in (substr recvBuf pos' (end' - pos') # ms, p)
      else ([], pos))"
  by pat_completeness auto
termination
proof (relation "measure (\<lambda>(buf, pos). length buf - pos)", goal_cases)
  case (2 recvBuf pos pos' end')
  then show ?case
    using findJsonEnd_bounds [of recvBuf pos' end'] skipBlank_bounds [of pos recvBuf] by force
qed simp

declare readLoop.simps [simp del]

definition clientReceive :: "string \<Rightarrow> string list \<times> string" where
  "clientReceive recvBuf =
     (let (ms, pos) = readLoop recvBuf 0
      in (ms, if 0 < pos then drop pos recvBuf else recvBuf))"

text \<open>
  The braces of a JSON text: anything but quotes and braces, string literals with
  backslash escapes, and brace pairs around such text. Every JSON object (RFC 8259) has
  the form \<open>{ body }\<close> with a body of this shape.
\<close>

fun literal_tail :: "string \<Rightarrow> bool" where
  "literal_tail [] \<longleftrightarrow> False"
| "literal_tail [c] \<longleftrightarrow> c = CHR 0x22"
| "literal_tail (c # d # cs) \<longleftrightarrow>
     (if c = CHR 0x5C then literal_tail cs else c \<noteq> CHR 0x22 \<and> literal_tail (d # cs))"

inductive json_body :: "string \<Rightarrow> bool" where
  empty: "json_body []"
| plain: "c \<noteq> CHR 0x22 \<Longrightarrow> c \<noteq> CHR ''{'' \<Longrightarrow> c \<noteq> CHR ''}'' \<Longrightarrow> json_body s \<Longrightarrow> json_body (c # s)"
| literal: "literal_tail lit \<Longrightarrow> json_body s \<Longrightarrow> json_body (CHR 0x22 # lit @ s)"
| object: "json_body t \<Longrightarrow> json_body s \<Longrightarrow> json_body (CHR ''{'' # t @ CHR ''}'' # s)"

definition json_object :: "string \<Rightarrow> bool" where
  "json_object text \<longleftrightarrow> (\<exists>body. text = CHR ''{'' # body @ [CHR ''}''] \<and> json_body body)"

lemma scan_literal:
  "literal_tail lit \<Longrightarrow>
   findJsonEndLoop (lit @ rest) i d True False = findJsonEndLoop rest (i + length lit) d False False"
  by (induction lit arbitrary: i rule: literal_tail.induct) (auto split: if_splits)

lemma scan_body:
  "json_body s \<Longrightarrow> 0 < d \<Longrightarrow>
   findJsonEndLoop (s @ rest) i d False False = findJsonEndLoop rest (i + length s) d False False"
proof (induction arbitrary: i d rest rule: json_body.induct)
  case (literal lit s)
  then show ?case by (simp add: scan_literal add.commute add.left_commute)
next
  case (object t s)
  then show ?case by (simp add: add.commute add.left_commute)
qed simp_all

text \<open>An incomplete object: the scan runs off the end of the buffer.\<close>

lemma scan_prefix_None:
  "findJsonEndLoop (p @ t) i d s e = Some n \<Longrightarrow> n = i + length (p @ t) \<Longrightarrow> t \<noteq> [] \<Longrightarrow>
   findJsonEndLoop p i d s e = None"
proof (rule ccontr)
  assume found: "findJsonEndLoop (p @ t) i d s e = Some n" and n: "n = i + length (p @ t)" and t: "t \<noteq> []"
    and "findJsonEndLoop p i d s e \<noteq> None"
  then obtain k where k: "findJsonEndLoop p i d s e = Some k" by blast
  with found have "k = n" by (simp add: findJsonEndLoop_append)
  with findJsonEndLoop_bounds [OF k] n t show False by simp
qed

lemma findJsonEnd_object:
  assumes "json_object text"
  shows "findJsonEnd (text @ rest) 0 = Some (length text)"
  using assms scan_body [of _ 1 "CHR ''}'' # rest" 1]
  by (auto simp: json_object_def findJsonEnd_def)

lemma object_starts:
  assumes "json_object text" and "text @ rest = p @ t" and "p \<noteq> []"
  shows "skipBlank p 0 = 0" and "0 < length p"
proof -
  from assms have "p ! 0 = CHR ''{''" by (cases p) (auto simp: json_object_def)
  then show "skipBlank p 0 = 0" by (subst skipBlank.simps) (simp add: skippable_def NUL_def)
  show "0 < length p" using assms(3) by simp
qed

lemma skipBlank_shift: "skipBlank (a @ b) (length a + pos) = length a + skipBlank b pos"
proof (induction b pos rule: skipBlank.induct)
  case (1 b pos)
  then show ?case
    by (subst skipBlank.simps, subst (2) skipBlank.simps) (auto simp: nth_append)
qed

lemma findJsonEnd_shift:
  "findJsonEnd (a @ b) (length a + pos) = map_option (\<lambda>n. length a + n) (findJsonEnd b pos)"
proof -
  have "findJsonEndLoop (drop pos b) (pos + length a) 0 False False
      = map_option (\<lambda>n. n + length a) (findJsonEndLoop (drop pos b) pos 0 False False)"
    by (rule findJsonEndLoop_shift)
  then show ?thesis by (simp add: findJsonEnd_def add.commute)
qed

lemma readLoop_shift:
  "readLoop (a @ b) (length a + pos) = (fst (readLoop b pos), length a + snd (readLoop b pos))"
proof (induction b pos rule: readLoop.induct)
  case (1 b pos)
  show ?case
  proof (cases "pos < length b \<and> skipBlank b pos < length b \<and> findJsonEnd b (skipBlank b pos) \<noteq> None")
    case True
    then obtain n where n: "findJsonEnd b (skipBlank b pos) = Some n" by blast
    with True "1.IH" have IH: "readLoop (a @ b) (length a + n) = (fst (readLoop b n), length a + snd (readLoop b n))"
      by (auto simp: not_le)
    from True n IH show ?thesis
      by (subst readLoop.simps, subst (2 3) readLoop.simps)
        (simp add: skipBlank_shift findJsonEnd_shift substr_def split_beta Let_def)
  next
    case False
    then show ?thesis
      by (subst readLoop.simps, subst (2 3) readLoop.simps)
        (auto simp: skipBlank_shift findJsonEnd_shift Let_def)
  qed
qed

lemma readLoop_bound: "pos \<le> length b \<Longrightarrow> snd (readLoop b pos) \<le> length b"
proof (induction b pos rule: readLoop.induct)
  case (1 b pos)
  show ?case
    using 1 skipBlank_bounds [of pos b] findJsonEnd_bounds [of b "skipBlank b pos"]
    by (subst readLoop.simps) (auto simp: Let_def split_beta not_le split: option.split)
qed

lemma clientReceive_drop: "clientReceive b = (fst (readLoop b 0), drop (snd (readLoop b 0)) b)"
  by (simp add: clientReceive_def split_beta)

interpretation client_wire: framing clientReceive "\<lambda>text. text" json_object
proof unfold_locales
  fix m rest p t :: string
  show "json_object m \<Longrightarrow> m \<noteq> []" by (auto simp: json_object_def)
  show "clientReceive [] = ([], [])" by (simp add: clientReceive_drop readLoop.simps)
  show "clientReceive (m @ rest) = (m # fst (clientReceive rest), snd (clientReceive rest))" if "json_object m"
  proof -
    have m: "m \<noteq> []" using that by (auto simp: json_object_def)
    then have "skipBlank (m @ rest) 0 = 0" using object_starts [OF that, of rest "m @ rest" "[]"] by simp
    moreover have "readLoop (m @ rest) (length m) = (fst (readLoop rest 0), length m + snd (readLoop rest 0))"
      using readLoop_shift [of m rest 0] by simp
    ultimately have "readLoop (m @ rest) 0 = (m # fst (readLoop rest 0), length m + snd (readLoop rest 0))"
      using m findJsonEnd_object [OF that, of rest] by (subst readLoop.simps) (simp add: substr_def)
    then show ?thesis by (simp add: clientReceive_drop)
  qed
  show "clientReceive p = ([], p)" if "json_object m" "m = p @ t" "t \<noteq> []"
  proof (cases "p = []")
    case True
    then show ?thesis by (simp add: clientReceive_drop readLoop.simps)
  next
    case False
    have "findJsonEnd p 0 = None"
      using findJsonEnd_object [OF that(1), of "[]"] that(2,3)
      by (auto simp: findJsonEnd_def intro: scan_prefix_None)
    with object_starts [OF that(1), of "[]" p t] False that(2)
    show ?thesis by (simp add: clientReceive_drop readLoop.simps)
  qed
qed

section \<open>Properties\<close>

text \<open>
  C30. The brace counter of the client. Every JSON object text, whatever braces and escaped
  quotes its string literals hold, is recognised by the client's receive thread exactly when
  its last byte has arrived; any sequence of objects sent back to back, without terminators,
  is delivered object by object however it is cut into reads.
\<close>

theorem client_transport:
  assumes "list_all json_object texts" and "concat reads = concat texts"
  shows "feed clientReceive [] reads = (texts, [])"
  using client_wire.feed_stream [OF assms(1), of reads] assms(2) by (simp add: stream_of_def)

theorem client_transport_witness:
  "feed clientReceive [] [''{'' @ [CHR 0x22], ''}'' @ [CHR 0x22, CHR ''}'', CHR ''{''], ''}''] =
     ([''{'' @ [CHR 0x22, CHR ''}'', CHR 0x22] @ ''}'', ''{}''], [])"
proof -
  have "json_body (CHR 0x22 # [CHR ''}'', CHR 0x22] @ [])"
    by (rule json_body.literal) (simp_all add: json_body.empty)
  then have "json_object (''{'' @ [CHR 0x22, CHR ''}'', CHR 0x22] @ ''}'')" by (simp add: json_object_def)
  moreover have "json_object ''{}''" by (simp add: json_object_def json_body.empty)
  ultimately show ?thesis by (intro client_transport) simp_all
qed

end
