(* ===== verification/Client.thy ===== *)
theory Client
  imports Json ChatWire
begin

text \<open>
  The chat client (\<open>src/client/main.cpp\<close>): the standard input it reads, the requests it sends,
  what it does with the answers, and its two threads, the main thread with the menus and the
  receive thread, which meet at a semaphore.
\<close>

section \<open>Standard input\<close>

text \<open>What is still to be read, and \<open>good()\<close>: no end of file, no failure so far.\<close>

record istream =
  in_text :: string
  in_good :: bool

definition newline :: char where
  "newline = CHR 0x0A"

text \<open>
  \<open>cin.getline(buf, n)\<close>, and the C string then in the buffer. A line that does not fit sets
  the failure bit, and so does the end of the input; the stream then yields empty lines.
\<close>

definition cin_getline :: "nat \<Rightarrow> istream \<Rightarrow> string \<times> istream" where
  "cin_getline n inp =
     (if \<not> in_good inp then ([], inp)
      else
        let line = takeWhile (\<lambda>c. c \<noteq> newline) (in_text inp); k = length line in
        if k \<le> n - 1 then
          if k < length (in_text inp) then (c_str line, \<lparr>in_text = drop (Suc k) (in_text inp), in_good = True\<rparr>)
          else (c_str line, \<lparr>in_text = [], in_good = False\<rparr>)
        else (c_str (take (n - 1) line), \<lparr>in_text = drop (n - 1) (in_text inp), in_good = False\<rparr>))"

definition cin_get :: "istream \<Rightarrow> istream" where
  "cin_get inp =
     (if \<not> in_good inp then inp
      else if in_text inp = [] then inp\<lparr>in_good := False\<rparr>
      else inp\<lparr>in_text := tl (in_text inp)\<rparr>)"

text \<open>
  \<open>cin >> i\<close> on an \<open>int\<close> that is 0 before: blanks are skipped, a sign and digits are read;
  without digits the value is 0, outside the range it is the nearest \<open>int\<close>, and both set the
  failure bit.
\<close>

definition split_sign :: "string \<Rightarrow> bool \<times> string" where
  "split_sign s =
     (case s of
        [] \<Rightarrow> (False, [])
      | c # cs \<Rightarrow> if c = CHR ''-'' then (True, cs) else if c = CHR ''+'' then (False, cs) else (False, s))"

definition cin_int :: "istream \<Rightarrow> cint \<times> istream" where
  "cin_int inp =
     (if \<not> in_good inp then (0, inp)
      else
        let (neg, ds) = split_sign (dropWhile is_space (in_text inp));
            digits = takeWhile is_digit ds; rest = dropWhile is_digit ds;
            v = (if neg then - int (digits_val 0 digits) else int (digits_val 0 digits));
            ok = (digits \<noteq> [] \<and> is_int32 v)
        in (if digits = [] then 0 else word_of_int (max (- (2 ^ 31)) (min (2 ^ 31 - 1) v)),
            \<lparr>in_text = rest, in_good = (ok \<and> rest \<noteq> [])\<rparr>))"

section \<open>Environment and state\<close>

text \<open>\<open>struct tm\<close>, as far as \<open>getCurrentTime\<close> reads it.\<close>

record tm =
  tm_year :: int
  tm_mon :: int
  tm_mday :: int
  tm_hour :: int
  tm_min :: int
  tm_sec :: int

text \<open>
  \<open>c_send k\<close>: the \<open>k\<close>-th call of \<open>send\<close> does not return -1; the socket is blocking, so it
  then takes all bytes. \<open>c_localtime k\<close>: what \<open>localtime\<close> gives at the \<open>k\<close>-th call.
\<close>

record client_env =
  c_dump :: "json \<Rightarrow> string option"
  c_parse :: "string \<Rightarrow> json option"
  c_send :: "nat \<Rightarrow> bool"
  c_localtime :: "nat \<Rightarrow> tm"

text \<open>
  What appears on the terminal, one constructor for each kind of line; the prompts, a line that
  an exception cuts off in the middle and the text of an exception are not recorded.
\<close>

datatype shown =
    HelpText
  | ChatLine string json string string
  | GroupLine json string json string string
  | UserData User "User list" "Group list"
  | RegisterSuccess json
  | ErrorText string
  | ErrorJson json

record client_state =
  currentUser :: User
  friendList :: "User list"
  groupList :: "Group list"
  isMainMenuRunning :: bool
  rwSem :: nat
  isLoginSuccess :: bool
  stdin :: istream
  recvBuf :: string
  sentBytes :: string
  sendCalls :: nat
  timeCalls :: nat
  display :: "shown list"

definition client_init :: "string \<Rightarrow> client_state" where
  "client_init input = \<lparr>currentUser = defaultUser, friendList = [], groupList = [], isMainMenuRunning = False,
     rwSem = 0, isLoginSuccess = False, stdin = \<lparr>in_text = input, in_good = True\<rparr>, recvBuf = [], sentBytes = [],
     sendCalls = 0, timeCalls = 0, display = []\<rparr>"

definition say :: "shown \<Rightarrow> (client_state, unit) state" where
  "say x = modify (\<lambda>s. s\<lparr>display := display s @ [x]\<rparr>)"

definition readLine :: "nat \<Rightarrow> (client_state, string) state" where
  "readLine n = State (\<lambda>s. let (line, inp) = cin_getline n (stdin s) in (line, s\<lparr>stdin := inp\<rparr>))"

definition readInt :: "(client_state, cint) state" where
  "readInt = State (\<lambda>s. let (i, inp) = cin_int (stdin s) in (i, s\<lparr>stdin := cin_get inp\<rparr>))"

definition sendBytes :: "client_env \<Rightarrow> string \<Rightarrow> (client_state, bool) state" where
  "sendBytes E bytes = State (\<lambda>s.
     let ok = c_send E (sendCalls s)
     in (ok, s\<lparr>sendCalls := Suc (sendCalls s), sentBytes := (if ok then sentBytes s @ bytes else sentBytes s)\<rparr>))"

lemma run_basic [simp]:
  "exec (say x) s = s\<lparr>display := display s @ [x]\<rparr>"
  "result (readLine n) s = fst (cin_getline n (stdin s))"
  "exec (readLine n) s = s\<lparr>stdin := snd (cin_getline n (stdin s))\<rparr>"
  "result readInt s = fst (cin_int (stdin s))"
  "exec readInt s = s\<lparr>stdin := cin_get (snd (cin_int (stdin s)))\<rparr>"
  "result (sendBytes E bytes) s = c_send E (sendCalls s)"
  "exec (sendBytes E bytes) s = s\<lparr>sendCalls := Suc (sendCalls s),
     sentBytes := (if c_send E (sendCalls s) then sentBytes s @ bytes else sentBytes s)\<rparr>"
  by (simp_all add: say_def readLine_def readInt_def sendBytes_def exec_def result_def split_beta Let_def)

section \<open>Answers of the server\<close>

text \<open>\<open>cout << js[key]\<close> prints the member as JSON, a missing one as null.\<close>

definition jshown :: "json \<Rightarrow> string \<Rightarrow> json" where
  "jshown js key = (case jmember js key of None \<Rightarrow> JNull | Some v \<Rightarrow> v)"

definition showOneChat :: "json \<Rightarrow> (client_state, outcome) state" where
  "showOneChat js =
     with_value (jstr js ''time'') (\<lambda>time.
     with_value (jstr js ''name'') (\<lambda>name.
     with_value (jstr js ''msg'') (\<lambda>msg. finish (say (ChatLine time (jshown js ''id'') name msg)))))"

definition showGroupChat :: "json \<Rightarrow> (client_state, outcome) state" where
  "showGroupChat js =
     with_value (jstr js ''time'') (\<lambda>time.
     with_value (jstr js ''name'') (\<lambda>name.
     with_value (jstr js ''msg'') (\<lambda>msg.
       finish (say (GroupLine (jshown js ''groupid'') time (jshown js ''id'') name msg)))))"

text \<open>\<open>js.contains(key)\<close>\<close>

definition jcontains :: "json \<Rightarrow> string \<Rightarrow> bool" where
  "jcontains js key \<longleftrightarrow> jmember js key \<noteq> None"

definition takeFriend :: "client_env \<Rightarrow> string \<Rightarrow> (client_state, outcome) state" where
  "takeFriend E str =
     with_value (c_parse E str) (\<lambda>js.
     with_value (jint js ''id'') (\<lambda>i.
     with_value (jstr js ''name'') (\<lambda>name.
     with_value (jstr js ''state'') (\<lambda>st. finish (modify (\<lambda>s. s\<lparr>friendList := friendList s @
       [defaultUser\<lparr>user_id := i, user_name := name, user_state := st\<rparr>]\<rparr>))))))"

definition groupUserOf :: "client_env \<Rightarrow> string \<Rightarrow> GroupUser option" where
  "groupUserOf E str =
     Option.bind (c_parse E str) (\<lambda>js.
     Option.bind (jint js ''id'') (\<lambda>i.
     Option.bind (jstr js ''name'') (\<lambda>name.
     Option.bind (jstr js ''state'') (\<lambda>st.
     map_option (\<lambda>role. User.extend (defaultUser\<lparr>user_id := i, user_name := name, user_state := st\<rparr>) \<lparr>user_role = role\<rparr>)
       (jstr js ''role'')))))"

definition takeGroup :: "client_env \<Rightarrow> string \<Rightarrow> (client_state, outcome) state" where
  "takeGroup E str =
     with_value (c_parse E str) (\<lambda>js.
     with_value (jint js ''id'') (\<lambda>i.
     with_value (jstr js ''groupname'') (\<lambda>name.
     with_value (jstr js ''groupdesc'') (\<lambda>desc.
     with_value (jstrs js ''users'') (\<lambda>users.
     with_value (all_some (map (groupUserOf E) users)) (\<lambda>members.
       finish (modify (\<lambda>s. s\<lparr>groupList := groupList s @ [(makeGroup i name desc)\<lparr>group_users := members\<rparr>]\<rparr>))))))))"

definition showOffline :: "client_env \<Rightarrow> string \<Rightarrow> (client_state, outcome) state" where
  "showOffline E str =
     with_value (c_parse E str) (\<lambda>js.
     with_value (jint js ''msgId'') (\<lambda>msgId.
       if msg_code ONE_CHAT_MSG = msgId then showOneChat js else showGroupChat js))"

definition showCurrentUserData :: "(client_state, unit) state" where
  "showCurrentUserData = do {
     u \<leftarrow> gets currentUser;
     friends \<leftarrow> gets friendList;
     groups \<leftarrow> gets groupList;
     say (UserData u friends groups)
   }"

text \<open>
  The three optional lists of an answer to a login. A list replaces the one of the client only
  when the answer has it.
\<close>

definition takeFriends :: "client_env \<Rightarrow> json \<Rightarrow> (client_state, outcome) state" where
  "takeFriends E respJs =
     (if jcontains respJs ''friends'' then do {
        modify (\<lambda>s. s\<lparr>friendList := []\<rparr>);
        with_value (jstrs respJs ''friends'') (\<lambda>strs. each_or_throw strs (takeFriend E))
      } else State_Monad.return Finished)"

definition takeGroups :: "client_env \<Rightarrow> json \<Rightarrow> (client_state, outcome) state" where
  "takeGroups E respJs =
     (if jcontains respJs ''groups'' then do {
        modify (\<lambda>s. s\<lparr>groupList := []\<rparr>);
        with_value (jstrs respJs ''groups'') (\<lambda>strs. each_or_throw strs (takeGroup E))
      } else State_Monad.return Finished)"

definition showOfflines :: "client_env \<Rightarrow> json \<Rightarrow> (client_state, outcome) state" where
  "showOfflines E respJs =
     (if jcontains respJs ''offlinemsg''
      then with_value (jstrs respJs ''offlinemsg'') (\<lambda>strs. each_or_throw strs (showOffline E))
      else State_Monad.return Finished)"

definition doLoginResponse :: "client_env \<Rightarrow> json \<Rightarrow> (client_state, outcome) state" where
  "doLoginResponse E respJs =
     with_value (jint respJs ''errno'') (\<lambda>errno.
       if errno \<noteq> 0 then finish (do {
         say (ErrorJson (jshown respJs ''errmsg''));
         modify (\<lambda>s. s\<lparr>isLoginSuccess := False\<rparr>)
       })
       else do {
         modify (\<lambda>s. s\<lparr>isLoginSuccess := True\<rparr>);
         with_value (jint respJs ''id'') (\<lambda>i. do {
           modify (\<lambda>s. s\<lparr>currentUser := (currentUser s)\<lparr>user_id := i\<rparr>\<rparr>);
           with_value (jstr respJs ''name'') (\<lambda>name. do {
             modify (\<lambda>s. s\<lparr>currentUser := (currentUser s)\<lparr>user_name := name\<rparr>\<rparr>);
             and_then (takeFriends E respJs) (and_then (takeGroups E respJs) (do {
               showCurrentUserData;
               showOfflines E respJs
             }))
           })
         })
       })"

definition doRegResponse :: "json \<Rightarrow> (client_state, outcome) state" where
  "doRegResponse respJs =
     with_value (jint respJs ''errno'') (\<lambda>errno.
       if errno \<noteq> 0 then finish (say (ErrorText '' Username is already exist, register failed!''))
       else finish (say (RegisterSuccess (jshown respJs ''id''))))"

definition sem_post :: "(client_state, unit) state" where
  "sem_post = modify (\<lambda>s. s\<lparr>rwSem := Suc (rwSem s)\<rparr>)"

section \<open>The receive thread\<close>

definition dispatchAnswer :: "client_env \<Rightarrow> json \<Rightarrow> (client_state, outcome) state" where
  "dispatchAnswer E js = with_value (jint js ''msgId'') (\<lambda>msgType.
     if msg_code ONE_CHAT_MSG = msgType then showOneChat js
     else if msg_code GROUP_CHAT_MSG = msgType then showGroupChat js
     else if msg_code LOGIN_MSG_ACK = msgType then and_then (doLoginResponse E js) (finish sem_post)
     else if msg_code REG_MSG_ACK = msgType then and_then (doRegResponse js) (finish sem_post)
     else State_Monad.return Finished)"

definition handleAnswer :: "client_env \<Rightarrow> string \<Rightarrow> (client_state, unit) state" where
  "handleAnswer E text = do {
     r \<leftarrow> (case c_parse E text of None \<Rightarrow> State_Monad.return JsonThrew | Some js \<Rightarrow> dispatchAnswer E js);
     do_when (r = JsonThrew) (say (ErrorText ''JSON parse error: ''))
   }"

text \<open>
  One turn of \<open>readTaskHandler\<close>. \<open>None\<close> is a \<open>recv\<close> that returns no bytes: the process exits.
  The objects are cut out of the buffer by \<open>clientReceive\<close>; handling them does not touch it.
\<close>

definition readTaskTurn :: "client_env \<Rightarrow> string option \<Rightarrow> (client_state, bool) state" where
  "readTaskTurn E received =
     (case received of
        None \<Rightarrow> State_Monad.return False
      | Some bytes \<Rightarrow> do {
          buf \<leftarrow> gets recvBuf;
          let (texts, rest) = clientReceive (buf @ bytes);
          for_each texts (handleAnswer E);
          modify (\<lambda>s. s\<lparr>recvBuf := rest\<rparr>);
          State_Monad.return True
        })"

section \<open>Commands\<close>

text \<open>How a command ends: an exception that nobody catches terminates the client.\<close>

datatype command_end = Returned | Terminated

text \<open>\<open>%d\<close> and \<open>%02d\<close>, and \<open>getCurrentTime\<close> with its 60-byte buffer.\<close>

definition pad2 :: "int \<Rightarrow> string" where
  "pad2 i = (if 0 \<le> i \<and> i < 10 then CHR ''0'' # show_int i else show_int i)"

definition timeText :: "tm \<Rightarrow> string" where
  "timeText t = snprintf 60 (show_int (tm_year t + 1900) @ ''-'' @ pad2 (tm_mon t + 1) @ ''-'' @ pad2 (tm_mday t) @
     '' '' @ pad2 (tm_hour t) @ '':'' @ pad2 (tm_min t) @ '':'' @ pad2 (tm_sec t))"

definition getCurrentTime :: "client_env \<Rightarrow> (client_state, string) state" where
  "getCurrentTime E = State (\<lambda>s. (timeText (c_localtime E (timeCalls s)), s\<lparr>timeCalls := Suc (timeCalls s)\<rparr>))"

lemma run_getCurrentTime [simp]:
  "result (getCurrentTime E) s = timeText (c_localtime E (timeCalls s))"
  "exec (getCurrentTime E) s = s\<lparr>timeCalls := Suc (timeCalls s)\<rparr>"
  by (simp_all add: getCurrentTime_def exec_def result_def)

text \<open>Every request is the JSON text with its terminating NUL.\<close>

definition sendRequest :: "client_env \<Rightarrow> string \<Rightarrow> json \<Rightarrow> (client_state, command_end) state" where
  "sendRequest E complaint js =
     (case c_dump E js of
        None \<Rightarrow> State_Monad.return Terminated
      | Some text \<Rightarrow> do {
          ok \<leftarrow> sendBytes E (text @ [NUL]);
          do_when (\<not> ok) (say (ErrorText (complaint @ text)));
          State_Monad.return Returned
        })"

text \<open>\<open>str.find(":")\<close> and the two \<open>substr\<close> of the commands with two arguments.\<close>

definition splitArgs :: "string \<Rightarrow> (string \<times> string) option" where
  "splitArgs str =
     map_option (\<lambda>idx. (take idx str, substr str (idx + 1) (length str - idx))) (str_find (CHR '':'') str)"

definition addfriend :: "client_env \<Rightarrow> string \<Rightarrow> (client_state, command_end) state" where
  "addfriend E str =
     (case stoi str of
        None \<Rightarrow> State_Monad.return Terminated
      | Some friendId \<Rightarrow> do {
          u \<leftarrow> gets currentUser;
          sendRequest E ''send addfriend msg error -> ''
            (JObj [(''friendId'', JI friendId), (''id'', JI (user_id u)), (''msgId'', JI (msg_code ADD_FRIEND_MSG))])
        })"

definition chat :: "client_env \<Rightarrow> string \<Rightarrow> (client_state, command_end) state" where
  "chat E str =
     (case splitArgs str of
        None \<Rightarrow> do { say (ErrorText ''chat command invalid!''); State_Monad.return Returned }
      | Some (target, message) \<Rightarrow>
          (case stoi target of
             None \<Rightarrow> State_Monad.return Terminated
           | Some friendId \<Rightarrow> do {
               u \<leftarrow> gets currentUser;
               time \<leftarrow> getCurrentTime E;
               sendRequest E ''send chat msg error -> ''
                 (JObj [(''id'', JI (user_id u)), (''msg'', JStr message), (''msgId'', JI (msg_code ONE_CHAT_MSG)),
                        (''name'', JStr (user_name u)), (''time'', JStr time), (''to'', JI friendId)])
             }))"

definition creategroup :: "client_env \<Rightarrow> string \<Rightarrow> (client_state, command_end) state" where
  "creategroup E str =
     (case splitArgs str of
        None \<Rightarrow> do { say (ErrorText ''creategroup command invalid!''); State_Monad.return Returned }
      | Some (groupname, groupdesc) \<Rightarrow> do {
          u \<leftarrow> gets currentUser;
          sendRequest E ''send creategroup msg error -> ''
            (JObj [(''groupdesc'', JStr groupdesc), (''groupname'', JStr groupname), (''id'', JI (user_id u)),
                   (''msgId'', JI (msg_code CREATE_GROUP_MSG))])
        })"

definition addgroup :: "client_env \<Rightarrow> string \<Rightarrow> (client_state, command_end) state" where
  "addgroup E str =
     (case stoi str of
        None \<Rightarrow> State_Monad.return Terminated
      | Some groupId \<Rightarrow> do {
          u \<leftarrow> gets currentUser;
          sendRequest E ''send addfriend msg error -> ''
            (JObj [(''groupid'', JI groupId), (''id'', JI (user_id u)), (''msgId'', JI (msg_code ADD_GROUP_MSG))])
        })"

definition groupchat :: "client_env \<Rightarrow> string \<Rightarrow> (client_state, command_end) state" where
  "groupchat E str =
     (case splitArgs str of
        None \<Rightarrow> do { say (ErrorText ''groupchat command invalid!''); State_Monad.return Returned }
      | Some (target, message) \<Rightarrow>
          (case stoi target of
             None \<Rightarrow> State_Monad.return Terminated
           | Some groupId \<Rightarrow> do {
               u \<leftarrow> gets currentUser;
               time \<leftarrow> getCurrentTime E;
               sendRequest E ''send groupchat msg error -> ''
                 (JObj [(''groupid'', JI groupId), (''id'', JI (user_id u)), (''msg'', JStr message),
                        (''msgId'', JI (msg_code GROUP_CHAT_MSG)), (''name'', JStr (user_name u)), (''time'', JStr time)])
             }))"

text \<open>\<open>logout\<close> leaves the menu only when the request went out.\<close>

definition client_logout :: "client_env \<Rightarrow> (client_state, command_end) state" where
  "client_logout E = do {
     u \<leftarrow> gets currentUser;
     (case c_dump E (JObj [(''id'', JI (user_id u)), (''msgId'', JI (msg_code LOGOUT_MSG))]) of
        None \<Rightarrow> State_Monad.return Terminated
      | Some text \<Rightarrow> do {
          ok \<leftarrow> sendBytes E (text @ [NUL]);
          (if ok then modify (\<lambda>s. s\<lparr>isMainMenuRunning := False\<rparr>)
           else say (ErrorText (''send logout msg error -> '' @ text)));
          State_Monad.return Returned
        })
   }"

definition commandHandler :: "client_env \<Rightarrow> string \<Rightarrow> (string \<Rightarrow> (client_state, command_end) state) option" where
  "commandHandler E = map_of
     [(''help'', \<lambda>_. do { say HelpText; State_Monad.return Returned }), (''chat'', chat E), (''addfriend'', addfriend E),
      (''creategroup'', creategroup E), (''addgroup'', addgroup E), (''groupchat'', groupchat E),
      (''logout'', \<lambda>_. client_logout E)]"

section \<open>The menu of a user\<close>

text \<open>The full-width colon, three bytes in UTF-8, and \<open>find\<close> for a text.\<close>

definition fullColon :: string where
  "fullColon = [CHR 0xEF, CHR 0xBC, CHR 0x9A]"

fun find_text :: "string \<Rightarrow> string \<Rightarrow> nat option" where
  "find_text t [] = (if t = [] then Some 0 else None)"
| "find_text t (c # cs) =
     (if take (length t) (c # cs) = t then Some 0 else map_option Suc (find_text t cs))"

definition splitCommand :: "string \<Rightarrow> string \<times> string" where
  "splitCommand commandBuf =
     (let sep = (case str_find (CHR '':'') commandBuf of
                   Some i \<Rightarrow> Some (i, 1)
                 | None \<Rightarrow> map_option (\<lambda>i. (i, length fullColon)) (find_text fullColon commandBuf))
      in (trimCopy (case sep of None \<Rightarrow> commandBuf | Some (i, _) \<Rightarrow> take i commandBuf),
          (case sep of None \<Rightarrow> [] | Some (i, n) \<Rightarrow> drop (i + n) commandBuf)))"

text \<open>The body of the loop of \<open>mainMenu\<close>, and the loop. \<open>None\<close>: it does not return.\<close>

definition menuTurn :: "client_env \<Rightarrow> (client_state, command_end) state" where
  "menuTurn E = do {
     commandBuf \<leftarrow> readLine 1024;
     let (command, args) = splitCommand commandBuf;
     if command = [] then State_Monad.return Returned
     else
       case commandHandler E command of
         None \<Rightarrow> do { say (ErrorText ''invalid input command!''); State_Monad.return Returned }
       | Some handler \<Rightarrow> handler args
   }"

partial_function (option) menuLoop :: "client_env \<Rightarrow> client_state \<Rightarrow> (command_end \<times> client_state) option" where
  "menuLoop E s =
     (if isMainMenuRunning s then
        (let (r, s') = run_state (menuTurn E) s
         in if r = Terminated then Some (Terminated, s') else menuLoop E s')
      else Some (Returned, s))"

definition mainMenu :: "client_env \<Rightarrow> client_state \<Rightarrow> (command_end \<times> client_state) option" where
  "mainMenu E s = menuLoop E (exec (say HelpText) s)"

section \<open>The main thread\<close>

text \<open>
  Where the main thread is. The waits at the semaphore are places of their own, because only
  the receive thread can end them.
\<close>

datatype main_at = AtChoice | AwaitLogin | AwaitRegister | InMenu | Crashed | Left

definition loginPrompt :: "client_env \<Rightarrow> (client_state, main_at) state" where
  "loginPrompt E = do {
     i \<leftarrow> readInt;
     pwd \<leftarrow> readLine 50;
     (case c_dump E (JObj [(''id'', JI i), (''msgId'', JI (msg_code LOGIN_MSG)), (''password'', JStr pwd)]) of
        None \<Rightarrow> State_Monad.return Crashed
      | Some request \<Rightarrow> do {
          modify (\<lambda>s. s\<lparr>isLoginSuccess := False\<rparr>);
          ok \<leftarrow> sendBytes E (request @ [NUL]);
          do_when (\<not> ok) (say (ErrorText (''send login msg error: '' @ request)));
          State_Monad.return AwaitLogin
        })
   }"

definition registerPrompt :: "client_env \<Rightarrow> (client_state, main_at) state" where
  "registerPrompt E = do {
     name \<leftarrow> readLine 50;
     pwd \<leftarrow> readLine 50;
     (case c_dump E (JObj [(''msgId'', JI (msg_code REG_MSG)), (''name'', JStr name), (''password'', JStr pwd)]) of
        None \<Rightarrow> State_Monad.return Crashed
      | Some request \<Rightarrow> do {
          ok \<leftarrow> sendBytes E (request @ [NUL]);
          do_when (\<not> ok) (say (ErrorText (''send reg msg error: '' @ request)));
          State_Monad.return AwaitRegister
        })
   }"

definition choiceTurn :: "client_env \<Rightarrow> (client_state, main_at) state" where
  "choiceTurn E = do {
     choice \<leftarrow> readInt;
     if choice = 1 then loginPrompt E
     else if choice = 2 then registerPrompt E
     else if choice = 3 then State_Monad.return Left
     else do { say (ErrorText ''invalid input!''); State_Monad.return AtChoice }
   }"

text \<open>After \<open>sem_wait\<close> on the answer to a login.\<close>

definition afterLogin :: "(client_state, main_at) state" where
  "afterLogin = do {
     ok \<leftarrow> gets isLoginSuccess;
     if ok then do {
       modify (\<lambda>s. s\<lparr>isMainMenuRunning := True\<rparr>);
       say HelpText;
       State_Monad.return InMenu
     } else State_Monad.return AtChoice
   }"

text \<open>
  \<open>main\<close> up to its loop. \<open>cs_socket\<close> and \<open>cs_connect\<close> are what the calls of the operating system
  answer; every failure is a message and \<open>exit(-1)\<close>.
\<close>

record client_sockets =
  cs_socket :: bool
  cs_connect :: "string \<Rightarrow> 16 word \<Rightarrow> bool"

datatype client_start = Usage | SocketFailed | ConnectFailed | Running "main_at \<times> client_state"

definition client_main :: "client_sockets \<Rightarrow> string list \<Rightarrow> string \<Rightarrow> client_start" where
  "client_main N argv input =
     (if length argv < 3 then Usage
      else
        let ip = argv ! 1; port = ucast (atoi (argv ! 2)) in
        if \<not> cs_socket N then SocketFailed
        else if \<not> cs_connect N ip port then ConnectFailed
        else Running (AtChoice, client_init input))"

lemma client_main_Running: "client_main N argv input = Running c \<Longrightarrow> c = (AtChoice, client_init input)"
  by (auto simp: client_main_def Let_def split: if_splits)

text \<open>
  One step of the main thread; \<open>None\<close> when it waits or is gone. In the menu a step is one turn
  of the loop of \<open>mainMenu\<close>.
\<close>

definition sem_wait :: "client_state \<Rightarrow> client_state option" where
  "sem_wait s = (if 0 < rwSem s then Some (s\<lparr>rwSem := rwSem s - 1\<rparr>) else None)"

fun mainStep :: "client_env \<Rightarrow> main_at \<times> client_state \<Rightarrow> (main_at \<times> client_state) option" where
  "mainStep E (AtChoice, s) = Some (run_state (choiceTurn E) s)"
| "mainStep E (AwaitLogin, s) = map_option (run_state afterLogin) (sem_wait s)"
| "mainStep E (AwaitRegister, s) = map_option (Pair AtChoice) (sem_wait s)"
| "mainStep E (InMenu, s) =
     (if isMainMenuRunning s then
        (let (r, s') = run_state (menuTurn E) s in Some (if r = Terminated then Crashed else InMenu, s'))
      else Some (AtChoice, s))"
| "mainStep E (Crashed, s) = None"
| "mainStep E (Left, s) = None"

text \<open>
  The two threads. The main thread is blocked while the answer to its own request is handled,
  so its steps and the turns of the receive thread are taken as atomic.
\<close>

inductive client_step :: "client_env \<Rightarrow> main_at \<times> client_state \<Rightarrow> main_at \<times> client_state \<Rightarrow> bool" for E where
  main: "mainStep E (at, s) = Some c \<Longrightarrow> client_step E (at, s) c"
| receive: "at \<noteq> Crashed \<Longrightarrow> at \<noteq> Left \<Longrightarrow> client_step E (at, s) (at, exec (readTaskTurn E (Some bytes)) s)"
| closed: "at \<noteq> Crashed \<Longrightarrow> client_step E (at, s) (Left, s)"

end
