(* ===== verification/ShardChannel.thy ===== *)
theory ShardChannel
  imports ClusterTypes
begin

text \<open>
  One outgoing channel of the class \<open>ClusterRouter\<close> (\<open>src/server/clusterrouter.cpp\<close>):
  the struct \<open>ShardChannel\<close> and the block of each function that runs under the channel's
  mutex. The threads that use a channel interleave between these blocks; that is the
  subject of \<open>ChannelThreads\<close>.
\<close>

section \<open>The channel and its locked blocks\<close>

text \<open>
  \<open>client\<close> says that the \<open>TcpClient\<close> exists. A connection is a number; whether it is
  \<open>connected()\<close> is the environment's knowledge, the parameter \<open>up\<close> of the blocks.
\<close>

record ShardChannel =
  channelId :: string
  ch_nodeMeta :: NodeMeta
  ioLoop :: loop_id
  client :: bool
  connection :: "conn option"
  pending :: "string list"
  connecting :: bool
  isOverloaded :: bool
  closing :: bool
  pendingLimit :: nat
  highWaterMark :: nat

definition newShardChannel :: "string \<Rightarrow> NodeMeta \<Rightarrow> loop_id \<Rightarrow> nat \<Rightarrow> nat \<Rightarrow> ShardChannel" where
  "newShardChannel i meta loop limit mark =
     \<lparr>channelId = i, ch_nodeMeta = meta, ioLoop = loop, client = False, connection = None, pending = [],
      connecting = False, isOverloaded = False, closing = False, pendingLimit = limit, highWaterMark = mark\<rparr>"

definition isConnected :: "(conn \<Rightarrow> bool) \<Rightarrow> ShardChannel \<Rightarrow> bool" where
  "isConnected up ch = (case connection ch of None \<Rightarrow> False | Some c \<Rightarrow> up c)"

text \<open>
  The block of \<open>enqueueOrSend\<close>: refused, or to be sent on a connection by the caller, or
  queued, with what the caller then has to schedule.
\<close>

datatype enqueue_result = Refused | SendOn conn | QueuedConnect | QueuedDrain | QueuedOnly

definition enqueueLocked :: "(conn \<Rightarrow> bool) \<Rightarrow> string \<Rightarrow> ShardChannel \<Rightarrow> enqueue_result \<times> ShardChannel" where
  "enqueueLocked up message ch =
     (if closing ch then (Refused, ch)
      else
        let connected = isConnected up ch in
        if connected \<and> \<not> isOverloaded ch \<and> pending ch = [] then (SendOn (the (connection ch)), ch)
        else if pendingLimit ch \<le> length (pending ch) then (Refused, ch)
        else
          let ch = ch\<lparr>pending := pending ch @ [message]\<rparr> in
          if \<not> connected \<and> \<not> connecting ch then (QueuedConnect, ch\<lparr>connecting := True\<rparr>)
          else if connected \<and> \<not> isOverloaded ch then (QueuedDrain, ch)
          else (QueuedOnly, ch))"

text \<open>The block of one turn of \<open>drainPendingInLoop\<close>: \<open>None\<close> ends the loop.\<close>

definition drainLocked :: "(conn \<Rightarrow> bool) \<Rightarrow> ShardChannel \<Rightarrow> (conn \<times> string) option \<times> ShardChannel" where
  "drainLocked up ch =
     (if closing ch \<or> isOverloaded ch then (None, ch)
      else if \<not> isConnected up ch then (None, ch)
      else
        case pending ch of
          [] \<Rightarrow> (None, ch)
        | message # rest \<Rightarrow> (Some (the (connection ch), message), ch\<lparr>pending := rest\<rparr>))"

text \<open>The loop, when no other thread uses the channel meanwhile: what it sends.\<close>

function drainPending :: "(conn \<Rightarrow> bool) \<Rightarrow> ShardChannel \<Rightarrow> (conn \<times> string) list \<times> ShardChannel" where
  "drainPending up ch =
     (case drainLocked up ch of
        (None, ch') \<Rightarrow> ([], ch')
      | (Some send, ch') \<Rightarrow> let (sends, ch'') = drainPending up ch' in (send # sends, ch''))"
  by pat_completeness auto
termination
  by (relation "measure (\<lambda>(up, ch). length (pending ch))")
    (auto simp: drainLocked_def split: if_splits list.splits)

declare drainPending.simps [simp del]

definition channelUp :: "conn \<Rightarrow> ShardChannel \<Rightarrow> ShardChannel" where
  "channelUp c ch = ch\<lparr>connection := Some c, connecting := False, isOverloaded := False\<rparr>"

definition channelDown :: "ShardChannel \<Rightarrow> ShardChannel" where
  "channelDown ch = ch\<lparr>connection := None, isOverloaded := False, connecting := \<not> closing ch\<rparr>"

definition writeCompleteLocked :: "ShardChannel \<Rightarrow> ShardChannel" where
  "writeCompleteLocked ch = ch\<lparr>isOverloaded := False\<rparr>"

definition highWaterLocked :: "ShardChannel \<Rightarrow> ShardChannel" where
  "highWaterLocked ch = ch\<lparr>isOverloaded := True\<rparr>"

definition stopLocked :: "ShardChannel \<Rightarrow> ShardChannel" where
  "stopLocked ch = ch\<lparr>closing := True, connecting := False, pending := [], connection := None\<rparr>"

text \<open>
  The functor of \<open>scheduleConnect\<close>: its locked test, then \<open>ensureClientInLoop\<close> and
  \<open>connect\<close>. The result tells whether \<open>connect\<close> is called.
\<close>

definition ensureClientInLoop :: "ShardChannel \<Rightarrow> ShardChannel" where
  "ensureClientInLoop ch = (if closing ch \<or> client ch then ch else ch\<lparr>client := True\<rparr>)"

definition connectTask :: "(conn \<Rightarrow> bool) \<Rightarrow> ShardChannel \<Rightarrow> bool \<times> ShardChannel" where
  "connectTask up ch =
     (if closing ch \<or> isConnected up ch then (False, ch\<lparr>connecting := False\<rparr>)
      else
        let ch = ensureClientInLoop ch in
        if \<not> client ch then (False, ch\<lparr>connecting := False\<rparr>) else (True, ch))"

section \<open>Draining alone\<close>

lemma drainPending_all:
  assumes "\<not> closing ch" and "\<not> isOverloaded ch" and "connection ch = Some c" and "up c"
  shows "drainPending up ch = (map (Pair c) (pending ch), ch\<lparr>pending := []\<rparr>)"
  using assms
proof (induction "pending ch" arbitrary: ch)
  case Nil
  then show ?case
    by (subst drainPending.simps) (simp add: drainLocked_def isConnected_def)
next
  case (Cons m ms)
  then have run: "drainLocked up ch = (Some (c, m), ch\<lparr>pending := ms\<rparr>)"
    by (simp add: drainLocked_def isConnected_def flip: Cons.hyps(2))
  have "drainPending up (ch\<lparr>pending := ms\<rparr>) = (map (Pair c) ms, ch\<lparr>pending := []\<rparr>)"
    using Cons.hyps(1) [of "ch\<lparr>pending := ms\<rparr>"] Cons.prems by simp
  then show ?case using run Cons.hyps(2) by (subst drainPending.simps) (simp add: flip: Cons.hyps(2))
qed

lemma drainPending_blocked:
  "closing ch \<or> isOverloaded ch \<or> \<not> isConnected up ch \<Longrightarrow> drainPending up ch = ([], ch)"
  by (subst drainPending.simps) (auto simp: drainLocked_def)

end
