(* ===== verification/ClusterWire.thy ===== *)
theory ClusterWire
  imports Framing
begin

unbundle bit_operations_syntax

text \<open>
  The wire format between two nodes. A one-to-one message travels in the frame
  \<open>ONC1\<close>, length, receiver, payload, written by \<open>ClusterRouter::sendOneChat\<close> and read
  by \<open>ClusterServer::onMessage\<close> (\<open>src/server/clusterrouter.cpp\<close>,
  \<open>src/server/clusterserver.cpp\<close>); a group message travels as JSON text closed by a NUL
  byte. The receiver tells the two apart by the first byte.
\<close>

section \<open>32-bit integers in network order\<close>

definition appendUint32 :: "string \<Rightarrow> 32 word \<Rightarrow> string" where
  "appendUint32 out v =
     out @ [char_of (unat (drop_bit 24 v AND 0xFF)), char_of (unat (drop_bit 16 v AND 0xFF)),
            char_of (unat (drop_bit 8 v AND 0xFF)), char_of (unat (v AND 0xFF))]"

definition readUint32 :: "string \<Rightarrow> 32 word" where
  "readUint32 data =
     push_bit 24 (of_char (data ! 0)) OR push_bit 16 (of_char (data ! 1)) OR
     push_bit 8 (of_char (data ! 2)) OR of_char (data ! 3)"

lemma length_appendUint32 [simp]: "length (appendUint32 out v) = length out + 4"
  by (simp add: appendUint32_def)

lemma mask_FF: "(0xFF :: 32 word) = mask 8"
  by (simp add: mask_eq_exp_minus_1)

lemma of_char_byte: "(of_char (char_of (unat (w AND 0xFF))) :: 32 word) = w AND 0xFF"
proof -
  have "unat (w AND 0xFF) < 256"
    using word_and_le1 [of w "0xFF"] by (simp add: word_le_nat_alt)
  then have "(of_char (char_of (unat (w AND 0xFF))) :: nat) = unat (w AND 0xFF)" by simp
  then show ?thesis by (metis of_nat_of_char of_nat_unat ucast_id)
qed

lemma word_of_bytes:
  fixes v :: "32 word"
  shows "push_bit 24 (drop_bit 24 v AND 0xFF) OR push_bit 16 (drop_bit 16 v AND 0xFF) OR
         push_bit 8 (drop_bit 8 v AND 0xFF) OR (v AND 0xFF) = v" (is "?l = v")
proof (rule bit_word_eqI)
  fix n :: nat
  assume "n < LENGTH(32)"
  then have "n < 8 \<or> 8 \<le> n \<and> n < 16 \<or> 16 \<le> n \<and> n < 24 \<or> 24 \<le> n \<and> n < 32" by auto
  then show "bit ?l n = bit v n"
    unfolding mask_FF take_bit_eq_mask [symmetric] by (auto simp: bit_simps)
qed

lemma readUint32_append: "readUint32 (appendUint32 [] v @ rest) = v"
  by (simp add: readUint32_def appendUint32_def of_char_byte word_of_bytes [simplified])

section \<open>The frame\<close>

definition kOneChatFrameMagic :: string where
  "kOneChatFrameMagic = ''ONC1''"

definition kOneChatFrameHeaderBytes :: nat where
  "kOneChatFrameHeaderBytes = 8"

definition kOneChatFrameBodyPrefixBytes :: nat where
  "kOneChatFrameBodyPrefixBytes = 4"

definition oneChatFrame :: "cint \<Rightarrow> string \<Rightarrow> string" where
  "oneChatFrame toUser payload =
     (let frame = kOneChatFrameMagic;
          frame = appendUint32 frame (of_nat (kOneChatFrameBodyPrefixBytes + length payload));
          frame = appendUint32 frame toUser
      in frame @ payload)"

section \<open>The receiver\<close>

text \<open>
  One turn of the receive loop either hands an event to the service or stops; the two
  error branches log and clear the buffer. \<open>JsonText\<close> is the text given to
  \<open>json::parse\<close>.
\<close>

datatype cluster_event = OneChatFrame cint string | JsonText string

lemma magic_simps: "length kOneChatFrameMagic = 4" "kOneChatFrameMagic ! 0 = CHR ''O''"
  by (simp_all add: kOneChatFrameMagic_def)

lemmas frame_consts = magic_simps kOneChatFrameHeaderBytes_def kOneChatFrameBodyPrefixBytes_def

function clusterOnMessageLoop :: "string \<Rightarrow> cluster_event list \<times> string" where
  "clusterOnMessageLoop pending =
     (if pending = [] then ([], [])
      else if hd pending = kOneChatFrameMagic ! 0 then
        if length pending < length kOneChatFrameMagic then ([], pending)
        else if take (length kOneChatFrameMagic) pending = kOneChatFrameMagic then
          if length pending < length kOneChatFrameMagic + kOneChatFrameHeaderBytes then ([], pending)
          else
            let bodyLen = unat (readUint32 (drop (length kOneChatFrameMagic) pending)) in
            if bodyLen < kOneChatFrameBodyPrefixBytes then ([], [])
            else
              let frameLen = length kOneChatFrameMagic + kOneChatFrameHeaderBytes + bodyLen
                               - kOneChatFrameBodyPrefixBytes in
              if length pending < frameLen then ([], pending)
              else
                let toUser = readUint32 (drop (length kOneChatFrameMagic + 4) pending);
                    payload = substr pending (length kOneChatFrameMagic + kOneChatFrameHeaderBytes)
                                (bodyLen - kOneChatFrameBodyPrefixBytes);
                    (es, rest) = clusterOnMessageLoop (drop frameLen pending)
                in (OneChatFrame toUser payload # es, rest)
        else ([], [])
      else
        case str_find NUL pending of
          None \<Rightarrow> ([], pending)
        | Some end' \<Rightarrow>
            let (es, rest) = clusterOnMessageLoop (drop (end' + 1) pending)
            in ((if 0 < end' then [JsonText (take end' pending)] else []) @ es, rest))"
  by pat_completeness auto
termination
  by (relation "measure length") (auto simp: frame_consts)

declare clusterOnMessageLoop.simps [simp del]

text \<open>\<open>onMessage\<close>: append what the socket has delivered, then run the loop.\<close>

definition clusterOnMessage :: "string \<Rightarrow> string \<Rightarrow> cluster_event list \<times> string" where
  "clusterOnMessage pending received = clusterOnMessageLoop (pending @ received)"

section \<open>What the sender writes the receiver reads\<close>

text \<open>
  \<open>encodeEvent\<close> is what the two senders of a node put on the wire, \<open>sendable_event\<close> what
  they can put there: the frame's 32-bit length field bounds the payload, and JSON text
  starts with a brace, so not with the first magic byte, and has no NUL.
\<close>

fun encodeEvent :: "cluster_event \<Rightarrow> string" where
  "encodeEvent (OneChatFrame toUser payload) = oneChatFrame toUser payload"
| "encodeEvent (JsonText text) = text @ [NUL]"

fun sendable_event :: "cluster_event \<Rightarrow> bool" where
  "sendable_event (OneChatFrame toUser payload) \<longleftrightarrow>
     kOneChatFrameBodyPrefixBytes + length payload < 2 ^ 32"
| "sendable_event (JsonText text) \<longleftrightarrow>
     text \<noteq> [] \<and> hd text \<noteq> kOneChatFrameMagic ! 0 \<and> NUL \<notin> set text"

lemma oneChatFrame_eq:
  "oneChatFrame u p = kOneChatFrameMagic @ appendUint32 [] (of_nat (4 + length p)) @ appendUint32 [] u @ p"
  by (simp add: oneChatFrame_def appendUint32_def kOneChatFrameBodyPrefixBytes_def)

lemma length_oneChatFrame: "length (oneChatFrame u p) = 12 + length p"
  by (simp add: oneChatFrame_eq kOneChatFrameMagic_def)

lemma drop_magic: "drop 4 (oneChatFrame u p) = appendUint32 [] (of_nat (4 + length p)) @ appendUint32 [] u @ p"
  by (simp add: oneChatFrame_eq kOneChatFrameMagic_def)

lemma frame_head:
  assumes "t = oneChatFrame u p @ rest"
  shows "t \<noteq> []" "hd t = CHR ''O''" "take 4 t = kOneChatFrameMagic"
    "drop 4 t = appendUint32 [] (of_nat (4 + length p)) @ appendUint32 [] u @ p @ rest"
    "drop 8 t = appendUint32 [] u @ p @ rest" "drop 12 t = p @ rest"
  using assms by (simp_all add: oneChatFrame_eq kOneChatFrameMagic_def appendUint32_def)

lemma bodyLen_frame:
  "4 + length p < 2 ^ 32 \<Longrightarrow> unat (readUint32 (appendUint32 [] (of_nat (4 + length p)) @ rest)) = 4 + length p"
  by (simp only: readUint32_append unat_of_nat) simp

lemma loop_frame:
  assumes "4 + length p < 2 ^ 32"
  shows "clusterOnMessageLoop (oneChatFrame u p @ rest) =
    (OneChatFrame u p # fst (clusterOnMessageLoop rest), snd (clusterOnMessageLoop rest))"
proof -
  define t where "t = oneChatFrame u p @ rest"
  note h = frame_head [OF t_def]
  have body: "unat (readUint32 (drop 4 t)) = 4 + length p"
    using bodyLen_frame [OF assms] h(4) by simp
  have user: "readUint32 (drop 8 t) = u" using h(5) by (simp add: readUint32_append)
  have len: "length t = 12 + length p + length rest" by (simp add: t_def length_oneChatFrame)
  have payload: "substr t 12 (length p) = p" using h(6) by (simp add: substr_def)
  have next_: "drop (12 + length p) t = rest" by (simp add: t_def length_oneChatFrame)
  show ?thesis
    using h(1-3) body user len payload next_
    by (subst clusterOnMessageLoop.simps) (simp add: t_def [symmetric] frame_consts Let_def split_beta)
qed

lemma loop_json:
  assumes "sendable_event (JsonText text)"
  shows "clusterOnMessageLoop ((text @ [NUL]) @ rest) =
    (JsonText text # fst (clusterOnMessageLoop rest), snd (clusterOnMessageLoop rest))"
proof -
  have "str_find NUL (text @ NUL # rest) = Some (length text)"
    using assms by (simp add: str_find_append)
  then show ?thesis using assms
    by (subst clusterOnMessageLoop.simps) (simp add: frame_consts split_beta)
qed

lemma take_prefix: "a = p @ t \<Longrightarrow> n \<le> length p \<Longrightarrow> take n p = take n a"
  by simp

lemma drop_prefix_read:
  assumes "a = p @ t" and "n + 4 \<le> length p"
  shows "readUint32 (drop n p) = readUint32 (drop n a)"
proof -
  have "drop n p ! i = drop n a ! i" if "i < 4" for i
    using assms(2) that by (simp add: assms(1) nth_append) linarith
  then show ?thesis by (simp add: readUint32_def)
qed

lemma loop_partial_frame:
  assumes "4 + length p < 2 ^ 32" and "oneChatFrame u p = q @ t" and "t \<noteq> []"
  shows "clusterOnMessageLoop q = ([], q)"
proof (cases "q = []")
  case True
  then show ?thesis by (subst clusterOnMessageLoop.simps) simp
next
  case False
  have len: "length q < 12 + length p"
    using assms(2,3) length_oneChatFrame [of u p] by (cases t) (auto dest: arg_cong [of _ _ length])
  have "hd (oneChatFrame u p) = CHR ''O''" using frame_head(2) [of _ u p "[]"] by simp
  with False assms(2) have hd: "hd q = CHR ''O''" by (simp add: hd_append)
  have magic: "take 4 q = kOneChatFrameMagic" if "4 \<le> length q"
    using take_prefix [OF assms(2) that] frame_head(3) [of _ u p "[]"] by simp
  have body: "unat (readUint32 (drop 4 q)) = 4 + length p" if "12 \<le> length q"
    using drop_prefix_read [OF assms(2), of 4] that bodyLen_frame [OF assms(1)] by (simp add: drop_magic)
  show ?thesis
    using False hd magic body len
    by (subst clusterOnMessageLoop.simps) (simp add: frame_consts Let_def)
qed

lemma loop_partial_json:
  assumes "sendable_event (JsonText text)" and "text @ [NUL] = q @ t" and "t \<noteq> []"
  shows "clusterOnMessageLoop q = ([], q)"
proof -
  obtain t' where t: "text = q @ t'" using assms(2,3) by (cases t rule: rev_cases) auto
  with assms(1) have "str_find NUL q = None" by (simp add: str_find_None)
  moreover have "q \<noteq> [] \<Longrightarrow> hd q \<noteq> CHR ''O''"
    using assms(1) t by (auto simp: hd_append kOneChatFrameMagic_def)
  ultimately show ?thesis
    by (subst clusterOnMessageLoop.simps) (simp add: frame_consts)
qed

interpretation cluster_wire: framing clusterOnMessageLoop encodeEvent sendable_event
proof unfold_locales
  fix m :: cluster_event and rest p t :: string
  show "sendable_event m \<Longrightarrow> encodeEvent m \<noteq> []"
    by (cases m) (simp_all add: oneChatFrame_eq kOneChatFrameMagic_def)
  show "clusterOnMessageLoop [] = ([], [])" by (subst clusterOnMessageLoop.simps) simp
  show "sendable_event m \<Longrightarrow> clusterOnMessageLoop (encodeEvent m @ rest) =
      (m # fst (clusterOnMessageLoop rest), snd (clusterOnMessageLoop rest))"
    by (cases m) (auto simp: loop_frame frame_consts simp del: append_assoc sendable_event.simps(2) intro!: loop_json)
  show "sendable_event m \<Longrightarrow> encodeEvent m = p @ t \<Longrightarrow> t \<noteq> [] \<Longrightarrow> clusterOnMessageLoop p = ([], p)"
    by (cases m) (auto simp: frame_consts intro: loop_partial_frame loop_partial_json simp del: sendable_event.simps(2))
qed

section \<open>Properties\<close>

lemma feed_clusterOnMessage:
  "feed clusterOnMessageLoop pending (chunk # chunks) =
     (let (es, rest) = clusterOnMessage pending chunk; (es', rest') = feed clusterOnMessageLoop rest chunks
      in (es @ es', rest'))"
  by (simp add: clusterOnMessage_def)

text \<open>
  C20. Node to node transport. Whatever frames and JSON texts a node sends, and however TCP
  cuts the byte stream into reads, the receive loop of \<open>ClusterServer::onMessage\<close> hands
  exactly those frames (receiver and payload) and texts to the service, in order, and keeps
  nothing back.
\<close>

theorem cluster_transport:
  assumes "list_all sendable_event es" and "concat reads = stream_of encodeEvent es"
  shows "feed clusterOnMessageLoop [] reads = (es, [])"
  by (rule cluster_wire.feed_stream [OF assms])

theorem cluster_transport_witness:
  "feed clusterOnMessageLoop [] [take 9 (oneChatFrame 7 ''hi''), drop 9 (oneChatFrame 7 ''hi'') @ ''{}'', [NUL]]
     = ([OneChatFrame 7 ''hi'', JsonText ''{}''], [])"
  by (rule cluster_transport) (simp_all add: frame_consts NUL_def)

text \<open>
  The malformed frames. A buffer that starts like a frame but does not carry the magic,
  or whose length field is below the four bytes of the receiver id, is discarded whole and
  yields no event; nothing that arrived with it is interpreted.
\<close>

theorem cluster_malformed:
  assumes "pending @ received = CHR ''O'' # rest" and "4 \<le> length (pending @ received)"
    and "take 4 (pending @ received) \<noteq> ''ONC1'' \<or>
      12 \<le> length (pending @ received) \<and> readUint32 (drop 4 (pending @ received)) < 4"
  shows "clusterOnMessage pending received = ([], [])"
proof -
  define t where "t = pending @ received"
  have t: "t \<noteq> []" "hd t = CHR ''O''" "4 \<le> length t"
    "take 4 t \<noteq> kOneChatFrameMagic \<or> 12 \<le> length t \<and> unat (readUint32 (drop 4 t)) < 4"
    using assms by (auto simp: t_def word_less_nat_alt kOneChatFrameMagic_def)
  then show ?thesis unfolding clusterOnMessage_def t_def [symmetric]
    by (subst clusterOnMessageLoop.simps) (auto simp: frame_consts Let_def)
qed

theorem cluster_malformed_witness:
  "clusterOnMessage ''ON'' ''X1....{}'' = ([], [])"
  by (rule cluster_malformed [where rest = "''NX1....{}''"]) simp_all

end
