(* ===== verification/Config.thy ===== *)
theory Config
  imports CString
begin

text \<open>
  The configuration (\<open>src/server/config.cpp\<close>): the environment of the process, the \<open>.env\<close>
  file that is loaded into it once, and the settings that are read from it all over the
  server. The environment is a map from names to values; the file, if it can be opened, is
  the string of its bytes.
\<close>

type_synonym environment = "string \<rightharpoonup> string"

section \<open>The file\<close>

text \<open>\<open>getline\<close>: the pieces between newlines, with no empty piece after the last newline.\<close>

fun split_lines :: "string \<Rightarrow> string \<Rightarrow> string list" where
  "split_lines piece [] = (if piece = [] then [] else [piece])"
| "split_lines piece (c # cs) =
     (if c = CHR 0x0A then piece # split_lines [] cs else split_lines (piece @ [c]) cs)"

definition starts_with :: "string \<Rightarrow> string \<Rightarrow> bool" where
  "starts_with prefix s \<longleftrightarrow> take (length prefix) s = prefix"

definition stripQuotes :: "string \<Rightarrow> string" where
  "stripQuotes val =
     (if 2 \<le> length val \<and>
         (hd val = CHR 0x22 \<and> last val = CHR 0x22 \<or> hd val = CHR 0x27 \<and> last val = CHR 0x27)
      then substr val 1 (length val - 2)
      else val)"

text \<open>One turn of the loop: the arguments of \<open>setenv\<close>, or nothing when the line is skipped.\<close>

definition envLine :: "string \<Rightarrow> (string \<times> string) option" where
  "envLine line =
     (let trimmed = trimCopy line in
      if trimmed = [] \<or> hd trimmed = CHR ''#'' then None
      else
        let trimmed = (if starts_with ''export '' trimmed then trimCopy (drop 7 trimmed) else trimmed) in
        case str_find (CHR ''='') trimmed of
          None \<Rightarrow> None
        | Some pos \<Rightarrow>
            let key = trimCopy (take pos trimmed); val = trimCopy (drop (pos + 1) trimmed) in
            if key = [] then None else Some (key, stripQuotes val))"

text \<open>\<open>setenv(key, value, 0)\<close>: never overwrites, and refuses an empty name.\<close>

definition setenv_keep :: "string \<times> string \<Rightarrow> environment \<Rightarrow> environment" where
  "setenv_keep kv env =
     (let k = c_str (fst kv); v = c_str (snd kv)
      in if k = [] \<or> env k \<noteq> None then env else env(k \<mapsto> v))"

text \<open>The process: its environment and the \<open>once_flag\<close> of \<open>loadEnvFile\<close>.\<close>

record process =
  environ :: environment
  envLoaded :: bool

definition loadEnvFile :: "string option \<Rightarrow> process \<Rightarrow> process" where
  "loadEnvFile file p =
     (if envLoaded p then p
      else
        case file of
          None \<Rightarrow> p\<lparr>envLoaded := True\<rparr>
        | Some bytes \<Rightarrow>
            p\<lparr>environ := fold setenv_keep (List.map_filter envLine (split_lines [] bytes)) (environ p),
              envLoaded := True\<rparr>)"

section \<open>The settings\<close>

definition getEnvOrDefault :: "environment \<Rightarrow> string \<Rightarrow> string \<Rightarrow> string" where
  "getEnvOrDefault env key defaultValue =
     (case env key of
        None \<Rightarrow> defaultValue
      | Some val \<Rightarrow> if val = [] then defaultValue else val)"

definition getEnvIntOrDefault :: "environment \<Rightarrow> string \<Rightarrow> cint \<Rightarrow> cint" where
  "getEnvIntOrDefault env key defaultValue =
     (case env key of
        None \<Rightarrow> defaultValue
      | Some val \<Rightarrow> if val = [] then defaultValue else atoi val)"

text \<open>The thread counts of the two servers.\<close>

definition ioThreadsOf :: "environment \<Rightarrow> string \<Rightarrow> cint" where
  "ioThreadsOf env key = (let n = getEnvIntOrDefault env key 4 in if sint n \<le> 0 then 4 else n)"

definition chatServerThreads :: "environment \<Rightarrow> cint" where
  "chatServerThreads env = ioThreadsOf env ''CHAT_SERVER_IO_THREADS''"

definition clusterServerThreads :: "environment \<Rightarrow> cint" where
  "clusterServerThreads env = ioThreadsOf env ''CHAT_CLUSTER_IO_THREADS''"

text \<open>\<open>ChatService::ChatService\<close>: the limit of a local delivery queue.\<close>

definition localQueueLimitOf :: "environment \<Rightarrow> nat" where
  "localQueueLimitOf env =
     (let n = getEnvIntOrDefault env ''CHAT_LOCAL_DELIVERY_QUEUE_LIMIT'' 8192 in
      if 0 < sint n then nat (sint n) else 8192)"

text \<open>\<open>ClusterRouter::ClusterRouter\<close>.\<close>

record router_config =
  rc_shardCount :: nat
  rc_connectingQueueLimit :: nat
  rc_highWaterMark :: nat
  rc_ioThreadCount :: nat

definition positiveOr :: "nat \<Rightarrow> cint \<Rightarrow> nat" where
  "positiveOr d n = (if 0 < sint n then nat (sint n) else d)"

definition routerConfigOf :: "environment \<Rightarrow> router_config" where
  "routerConfigOf env =
     (let shards = positiveOr 4 (getEnvIntOrDefault env ''CHAT_INTER_NODE_SHARDS'' 4);
          limit = positiveOr 256 (getEnvIntOrDefault env ''CHAT_INTER_NODE_CONNECTING_QUEUE_LIMIT''
                    (getEnvIntOrDefault env ''CHAT_INTER_NODE_QUEUE_LIMIT'' 256));
          mark = positiveOr (512 * 1024) (getEnvIntOrDefault env ''CHAT_INTER_NODE_HIGH_WATER_MARK'' (512 * 1024));
          threads = sint (getEnvIntOrDefault env ''CHAT_INTER_NODE_IO_THREADS'' 0);
          threads = (if threads \<le> 0 then
                       let t = int shards; t = (if 4 < t then 4 else t) in if t \<le> 0 then 1 else t
                     else threads)
      in \<lparr>rc_shardCount = shards, rc_connectingQueueLimit = limit, rc_highWaterMark = mark,
          rc_ioThreadCount = nat threads\<rparr>)"

text \<open>\<open>main\<close>: the two addresses of the server, or exit for want of arguments.\<close>

record server_addresses =
  sa_ip :: string
  sa_port :: "16 word"
  sa_interIp :: string
  sa_interPort :: "16 word"

definition addressesOf :: "environment \<Rightarrow> string list \<Rightarrow> server_addresses option" where
  "addressesOf env argv =
     (if length argv < 3 then None
      else
        let ip = argv ! 1; port = ucast (atoi (argv ! 2)) :: 16 word;
            interIp = getEnvOrDefault env ''CHAT_INTER_NODE_IP'' ip;
            interPort = getEnvIntOrDefault env ''CHAT_INTER_NODE_PORT'' (ucast port + 100)
        in Some \<lparr>sa_ip = ip, sa_port = port, sa_interIp = interIp, sa_interPort = ucast interPort\<rparr>)"

section \<open>Properties\<close>

lemma setenv_keep_lookup:
  "setenv_keep kv env k =
     (case env k of
        Some v \<Rightarrow> Some v
      | None \<Rightarrow> if k \<noteq> [] \<and> c_str (fst kv) = k then Some (c_str (snd kv)) else None)"
  by (auto simp: setenv_keep_def Let_def split: option.split)

text \<open>
  The environment wins over the file, the first line of the file that defines a name wins
  over later ones, and the file is read at most once: after any number of calls of
  \<open>loadEnvFile\<close>, whatever the file then holds, a variable has its old value, or else the value
  of the first line of the file as it was at the first call.
\<close>

theorem load_env_precedence:
  assumes "\<not> envLoaded p"
  shows "environ (fold loadEnvFile files (loadEnvFile (Some bytes) p)) k =
    (case environ p k of
       Some v \<Rightarrow> Some v
     | None \<Rightarrow> if k = [] then None
               else map_of (map (\<lambda>(f, v). (c_str f, c_str v)) (List.map_filter envLine (split_lines [] bytes))) k)"
proof -
  have once: "fold loadEnvFile files q = q" if "envLoaded q" for q
    using that by (induction files) (simp_all add: loadEnvFile_def)
  have fold: "fold setenv_keep kvs env k =
      (case env k of
         Some v \<Rightarrow> Some v
       | None \<Rightarrow> if k = [] then None else map_of (map (\<lambda>(f, v). (c_str f, c_str v)) kvs) k)" for kvs env
    by (induction kvs arbitrary: env) (auto simp: setenv_keep_lookup split: option.split)
  have "envLoaded (loadEnvFile (Some bytes) p)" using assms by (simp add: loadEnvFile_def)
  from once [OF this] show ?thesis using assms fold by (simp add: loadEnvFile_def)
qed

theorem load_env_precedence_witness:
  "environ (loadEnvFile (Some ''export A = x'') \<lparr>environ = [''A'' \<mapsto> ''y''], envLoaded = False\<rparr>) ''A'' = Some ''y''"
  using load_env_precedence [of "\<lparr>environ = [''A'' \<mapsto> ''y''], envLoaded = False\<rparr>" "[]" "''export A = x''" "''A''"]
  by simp

text \<open>
  No configuration gives a router that cannot work: whatever the environment holds, text
  that is no number included, the shard count, the queue limit, the high-water mark and the
  number of I/O threads of the cluster router, the local queue limit and the thread counts
  of both servers are positive, and without an explicit setting the router has at most four
  I/O threads.
\<close>

theorem config_positive:
  "0 < rc_shardCount (routerConfigOf env) \<and> 0 < rc_connectingQueueLimit (routerConfigOf env) \<and>
   0 < rc_highWaterMark (routerConfigOf env) \<and> 0 < rc_ioThreadCount (routerConfigOf env) \<and>
   (env ''CHAT_INTER_NODE_IO_THREADS'' = None \<longrightarrow> rc_ioThreadCount (routerConfigOf env) \<le> 4) \<and>
   0 < localQueueLimitOf env \<and> 0 < sint (chatServerThreads env) \<and> 0 < sint (clusterServerThreads env)"
proof -
  have pos: "0 < d \<Longrightarrow> 0 < positiveOr d n" for d n by (simp add: positiveOr_def)
  have threads: "0 < sint (ioThreadsOf env key)" for key by (simp add: ioThreadsOf_def Let_def)
  show ?thesis
    using pos threads
    by (auto simp: routerConfigOf_def localQueueLimitOf_def chatServerThreads_def clusterServerThreads_def
        getEnvIntOrDefault_def Let_def)
qed

theorem config_positive_witness:
  "rc_ioThreadCount (routerConfigOf [''CHAT_INTER_NODE_SHARDS'' \<mapsto> ''no number'']) \<le> 4"
  using config_positive [of "[''CHAT_INTER_NODE_SHARDS'' \<mapsto> ''no number'']"] by simp

end
