(* ===== verification/RedisClient.thy ===== *)
theory RedisClient
  imports ClusterTypes
begin

text \<open>
  The class \<open>Redis\<close> (\<open>src/server/redis/redis.cpp\<close>): the control plane's commands. The
  Redis server is not part of the repository. It is the parameter \<open>redisCommand\<close> of the
  environment: what hiredis returns for an argument vector, and the server state after
  it (\<open>None\<close> is the null reply of a broken connection). \<open>redis_documented\<close> states what
  the Redis documentation says of the commands used; it is a hypothesis of the results
  that need it, never part of a definition.
\<close>

section \<open>Environment and state\<close>

datatype redis_reply =
    RStatus string | RError string | RString string | RInteger int | RNil | RArray "redis_reply list"

text \<open>
  \<open>steadyNs n\<close> and \<open>systemMs n\<close> are what the \<open>n\<close>-th reading of the steady and of the
  system clock returns; nothing is assumed of them in the definitions.
\<close>

record 'r redis_env =
  redisCommand :: "string list \<Rightarrow> 'r \<Rightarrow> redis_reply option \<times> 'r"
  steadyNs :: "nat \<Rightarrow> int"
  systemMs :: "nat \<Rightarrow> int"

record 'r redis_state =
  redisSrv :: 'r
  ticks :: nat
  cmdQueue :: "string list"

definition redisCmd ::
  "('r, 'e) redis_env_scheme \<Rightarrow> string list \<Rightarrow> (('r, 'x) redis_state_scheme, redis_reply option) state" where
  "redisCmd E argv = State (\<lambda>s. let (reply, srv) = redisCommand E argv (redisSrv s)
                                 in (reply, s\<lparr>redisSrv := srv\<rparr>))"

definition readSteadyNs :: "('r, 'e) redis_env_scheme \<Rightarrow> (('r, 'x) redis_state_scheme, int) state" where
  "readSteadyNs E = State (\<lambda>s. (steadyNs E (ticks s), s\<lparr>ticks := Suc (ticks s)\<rparr>))"

definition readSystemMs :: "('r, 'e) redis_env_scheme \<Rightarrow> (('r, 'x) redis_state_scheme, int) state" where
  "readSystemMs E = State (\<lambda>s. (systemMs E (ticks s), s\<lparr>ticks := Suc (ticks s)\<rparr>))"

text \<open>\<open>reply->str\<close> as a \<open>std::string\<close>; null for the replies without text.\<close>

fun reply_str :: "redis_reply \<Rightarrow> string option" where
  "reply_str (RStatus s) = Some (c_str s)"
| "reply_str (RError s) = Some (c_str s)"
| "reply_str (RString s) = Some (c_str s)"
| "reply_str _ = None"

definition str_or_empty :: "redis_reply \<Rightarrow> string" where
  "str_or_empty r = (case reply_str r of None \<Rightarrow> '''' | Some s \<Rightarrow> s)"

section \<open>Keys\<close>

definition nodeKey :: "string \<Rightarrow> string" where
  "nodeKey nid = c_str (''chat:node:'' @ nid)"

definition nodeUsersKey :: "string \<Rightarrow> string" where
  "nodeUsersKey nid = c_str (''chat:node-users:'' @ nid)"

definition sessionKey :: "cint \<Rightarrow> string" where
  "sessionKey userId = ''chat:session:'' @ to_string userId"

section \<open>Nodes\<close>

definition registerNode ::
  "('r, 'e) redis_env_scheme \<Rightarrow> NodeMeta \<Rightarrow> int \<Rightarrow> (('r, 'x) redis_state_scheme, bool) state" where
  "registerNode E nodeMeta ttlSeconds = do {
     beat \<leftarrow> (if heartbeatMs nodeMeta \<le> 0
              then do { now \<leftarrow> readSystemMs E; State_Monad.return (c_div now 1000 * 1000) }
              else State_Monad.return (heartbeatMs nodeMeta));
     reply \<leftarrow> redisCmd E [''HMSET'', nodeKey (nodeId nodeMeta),
                ''node_id'', c_str (nodeId nodeMeta),
                ''instance_id'', c_str (instanceId nodeMeta),
                ''client_ip'', c_str (clientIp nodeMeta),
                ''client_port'', show_int (uint (clientPort nodeMeta)),
                ''inter_ip'', c_str (interIp nodeMeta),
                ''inter_port'', show_int (uint (interPort nodeMeta)),
                ''heartbeat_ms'', show_int beat];
     if reply = None then State_Monad.return False
     else do {
       reply \<leftarrow> redisCmd E [''EXPIRE'', nodeKey (nodeId nodeMeta), show_int ttlSeconds];
       if reply = None then State_Monad.return False
       else do {
         reply \<leftarrow> redisCmd E [''SADD'', ''chat:nodes'', c_str (nodeId nodeMeta)];
         State_Monad.return (reply \<noteq> None)
       }
     }
   }"

definition unregisterNode ::
  "('r, 'e) redis_env_scheme \<Rightarrow> string \<Rightarrow> (('r, 'x) redis_state_scheme, bool) state" where
  "unregisterNode E nid = do {
     reply \<leftarrow> redisCmd E [''DEL'', nodeKey nid];
     if reply = None then State_Monad.return False
     else do {
       reply \<leftarrow> redisCmd E [''DEL'', nodeUsersKey nid];
       if reply = None then State_Monad.return False
       else do {
         reply \<leftarrow> redisCmd E [''SREM'', ''chat:nodes'', c_str nid];
         State_Monad.return (reply \<noteq> None)
       }
     }
   }"

text \<open>The loop over the field/value pairs of the \<open>HGETALL\<close> reply.\<close>

definition readNodeField :: "string \<Rightarrow> string \<Rightarrow> NodeMeta \<Rightarrow> NodeMeta" where
  "readNodeField field value meta =
     (if field = ''node_id'' then meta\<lparr>nodeId := value\<rparr>
      else if field = ''instance_id'' then meta\<lparr>instanceId := value\<rparr>
      else if field = ''client_ip'' then meta\<lparr>clientIp := value\<rparr>
      else if field = ''client_port'' then meta\<lparr>clientPort := ucast (atoi value)\<rparr>
      else if field = ''inter_ip'' then meta\<lparr>interIp := value\<rparr>
      else if field = ''inter_port'' then meta\<lparr>interPort := ucast (atoi value)\<rparr>
      else if field = ''heartbeat_ms'' then meta\<lparr>heartbeatMs := atoll value\<rparr>
      else meta)"

fun readNodeFields :: "redis_reply list \<Rightarrow> NodeMeta \<Rightarrow> NodeMeta" where
  "readNodeFields (f # v # rest) meta =
     readNodeFields rest (readNodeField (str_or_empty f) (str_or_empty v) meta)"
| "readNodeFields _ meta = meta"

definition getNode ::
  "('r, 'e) redis_env_scheme \<Rightarrow> string \<Rightarrow> (('r, 'x) redis_state_scheme, NodeMeta option) state" where
  "getNode E nid = do {
     reply \<leftarrow> redisCmd E [''HGETALL'', nodeKey nid];
     State_Monad.return
       (case reply of
          Some (RArray elements) \<Rightarrow>
            if elements = [] then None
            else
              let meta = readNodeFields elements emptyNodeMeta in
              if valid meta then Some meta else None
        | _ \<Rightarrow> None)
   }"

definition getNodeIds ::
  "('r, 'e) redis_env_scheme \<Rightarrow> (('r, 'x) redis_state_scheme, string list) state" where
  "getNodeIds E = do {
     reply \<leftarrow> redisCmd E [''SMEMBERS'', ''chat:nodes''];
     State_Monad.return
       (case reply of
          Some (RArray elements) \<Rightarrow> List.map_filter reply_str elements
        | _ \<Rightarrow> [])
   }"

section \<open>Sessions\<close>

definition sessionValue :: "string \<Rightarrow> string \<Rightarrow> string" where
  "sessionValue nid inst = nid @ ''|'' @ inst"

definition splitSession :: "string \<Rightarrow> string \<times> string" where
  "splitSession v =
     (case str_rfind (CHR ''|'') v of
        None \<Rightarrow> (v, '''')
      | Some pos \<Rightarrow> (take pos v, drop (pos + 1) v))"

definition bindUserNode ::
  "('r, 'e) redis_env_scheme \<Rightarrow> cint \<Rightarrow> string \<Rightarrow> string \<Rightarrow> (('r, 'x) redis_state_scheme, bool) state" where
  "bindUserNode E userId nid inst = do {
     reply \<leftarrow> redisCmd E [''SET'', sessionKey userId, c_str (sessionValue nid inst), ''NX''];
     if (case reply of Some (RStatus str) \<Rightarrow> c_str str = ''OK'' | _ \<Rightarrow> False)
     then do {
       reply \<leftarrow> redisCmd E [''SADD'', nodeUsersKey nid, to_string userId];
       State_Monad.return (reply \<noteq> None)
     }
     else State_Monad.return False
   }"

definition unbindUserNode ::
  "('r, 'e) redis_env_scheme \<Rightarrow> cint \<Rightarrow> string \<Rightarrow> (('r, 'x) redis_state_scheme, bool) state" where
  "unbindUserNode E userId nid = do {
     reply \<leftarrow> redisCmd E [''DEL'', sessionKey userId];
     if reply = None then State_Monad.return False
     else if nid \<noteq> '''' then do {
       reply \<leftarrow> redisCmd E [''SREM'', nodeUsersKey nid, to_string userId];
       State_Monad.return (reply \<noteq> None)
     }
     else State_Monad.return True
   }"

definition getUserSession ::
  "('r, 'e) redis_env_scheme \<Rightarrow> cint \<Rightarrow> (('r, 'x) redis_state_scheme, (string \<times> string) option) state" where
  "getUserSession E userId = do {
     reply \<leftarrow> redisCmd E [''GET'', sessionKey userId];
     State_Monad.return
       (case reply of
          Some (RString str) \<Rightarrow>
            let (nid, inst) = splitSession (c_str str) in if nid \<noteq> '''' then Some (nid, inst) else None
        | _ \<Rightarrow> None)
   }"

definition getNodeUsers ::
  "('r, 'e) redis_env_scheme \<Rightarrow> string \<Rightarrow> (('r, 'x) redis_state_scheme, cint list) state" where
  "getNodeUsers E nid = do {
     reply \<leftarrow> redisCmd E [''SMEMBERS'', nodeUsersKey nid];
     State_Monad.return
       (case reply of
          Some (RArray elements) \<Rightarrow> map atoi (List.map_filter reply_str elements)
        | _ \<Rightarrow> [])
   }"

section \<open>Publish and subscribe\<close>

definition publish ::
  "('r, 'e) redis_env_scheme \<Rightarrow> cint \<Rightarrow> string \<Rightarrow> (('r, 'x) redis_state_scheme, cint) state" where
  "publish E channel message = do {
     reply \<leftarrow> redisCmd E [''PUBLISH'', to_string channel, c_str message];
     State_Monad.return
       (case reply of None \<Rightarrow> -1 | Some (RInteger n) \<Rightarrow> word_of_int n | Some _ \<Rightarrow> 0)
   }"

definition subscribe :: "cint \<Rightarrow> (('r, 'x) redis_state_scheme, bool) state" where
  "subscribe channel = do {
     modify (\<lambda>s. s\<lparr>cmdQueue := cmdQueue s @ [''SUBSCRIBE '' @ to_string channel]\<rparr>);
     State_Monad.return True
   }"

definition unsubscribe :: "cint \<Rightarrow> (('r, 'x) redis_state_scheme, bool) state" where
  "unsubscribe channel = do {
     modify (\<lambda>s. s\<lparr>cmdQueue := cmdQueue s @ [''UNSUBSCRIBE '' @ to_string channel]\<rparr>);
     State_Monad.return True
   }"

section \<open>Running a command\<close>

lemma exec_redisCmd [simp]:
  "exec (redisCmd E argv) s = s\<lparr>redisSrv := snd (redisCommand E argv (redisSrv s))\<rparr>"
  by (simp add: redisCmd_def exec_def split_beta)

lemma result_redisCmd [simp]: "result (redisCmd E argv) s = fst (redisCommand E argv (redisSrv s))"
  by (simp add: redisCmd_def result_def split_beta)

lemma exec_readSteadyNs [simp]: "exec (readSteadyNs E) s = s\<lparr>ticks := Suc (ticks s)\<rparr>"
  by (simp add: readSteadyNs_def exec_def)

lemma result_readSteadyNs [simp]: "result (readSteadyNs E) s = steadyNs E (ticks s)"
  by (simp add: readSteadyNs_def result_def)

lemma exec_readSystemMs [simp]: "exec (readSystemMs E) s = s\<lparr>ticks := Suc (ticks s)\<rparr>"
  by (simp add: readSystemMs_def exec_def)

lemma result_readSystemMs [simp]: "result (readSystemMs E) s = systemMs E (ticks s)"
  by (simp add: readSystemMs_def result_def)

text \<open>
  The client never touches anything but the server and the clock. \<open>redis_only\<close> says so
  of a program on any extension of the state; the rules follow the syntax.
\<close>

definition redis_only :: "(('r, 'x) redis_state_scheme, 'a) state \<Rightarrow> bool" where
  "redis_only m \<longleftrightarrow> (\<forall>s. \<exists>srv t. ticks s \<le> t \<and> exec m s = s\<lparr>redisSrv := srv, ticks := t\<rparr>)"

named_theorems redis_intros "rules for redis_only"

lemma redis_onlyI: "(\<And>s. \<exists>srv t. ticks s \<le> t \<and> exec m s = s\<lparr>redisSrv := srv, ticks := t\<rparr>) \<Longrightarrow> redis_only m"
  by (simp add: redis_only_def)

lemma redis_onlyE:
  assumes "redis_only m"
  obtains srv t where "exec m s = s\<lparr>redisSrv := srv, ticks := t\<rparr>" and "ticks s \<le> t"
  using assms unfolding redis_only_def by blast

lemma redis_only_return [redis_intros]: "redis_only (State_Monad.return x)"
proof (rule redis_onlyI)
  fix s
  show "\<exists>srv t. ticks s \<le> t \<and> exec (State_Monad.return x) s = s\<lparr>redisSrv := srv, ticks := t\<rparr>"
    by (rule exI [of _ "redisSrv s"], rule exI [of _ "ticks s"]) simp
qed

lemma redis_only_cmd [redis_intros]: "redis_only (redisCmd E argv)"
proof (rule redis_onlyI)
  fix s
  show "\<exists>srv t. ticks s \<le> t \<and> exec (redisCmd E argv) s = s\<lparr>redisSrv := srv, ticks := t\<rparr>"
    by (rule exI [of _ "snd (redisCommand E argv (redisSrv s))"], rule exI [of _ "ticks s"]) simp
qed

lemma redis_only_clock [redis_intros]: "redis_only (readSystemMs E)" "redis_only (readSteadyNs E)"
proof -
  show "redis_only (readSystemMs E)"
  proof (rule redis_onlyI)
    fix s
    show "\<exists>srv t. ticks s \<le> t \<and> exec (readSystemMs E) s = s\<lparr>redisSrv := srv, ticks := t\<rparr>"
      by (rule exI [of _ "redisSrv s"], rule exI [of _ "Suc (ticks s)"]) simp
  qed
  show "redis_only (readSteadyNs E)"
  proof (rule redis_onlyI)
    fix s
    show "\<exists>srv t. ticks s \<le> t \<and> exec (readSteadyNs E) s = s\<lparr>redisSrv := srv, ticks := t\<rparr>"
      by (rule exI [of _ "redisSrv s"], rule exI [of _ "Suc (ticks s)"]) simp
  qed
qed

lemma redis_only_bind [redis_intros]:
  assumes "redis_only m" and "\<And>x. redis_only (f x)"
  shows "redis_only (State_Monad.bind m f)"
proof (rule redis_onlyI)
  fix s
  obtain srv t where 1: "exec m s = s\<lparr>redisSrv := srv, ticks := t\<rparr>" "ticks s \<le> t"
    by (rule redis_onlyE [OF assms(1)])
  obtain srv' t' where 2: "exec (f (result m s)) (exec m s) = (exec m s)\<lparr>redisSrv := srv', ticks := t'\<rparr>"
    "ticks (exec m s) \<le> t'"
    by (rule redis_onlyE [OF assms(2)])
  then have "exec (State_Monad.bind m f) s = s\<lparr>redisSrv := srv', ticks := t'\<rparr>" by (simp add: 1)
  moreover have "ticks s \<le> t'" using 1 2(2) by simp
  ultimately show "\<exists>srv t. ticks s \<le> t \<and> exec (State_Monad.bind m f) s = s\<lparr>redisSrv := srv, ticks := t\<rparr>"
    by blast
qed

lemma redis_only_if [redis_intros]: "redis_only m \<Longrightarrow> redis_only n \<Longrightarrow> redis_only (if b then m else n)"
  by simp

lemmas redis_ops = registerNode_def unregisterNode_def getNode_def getNodeIds_def bindUserNode_def
  unbindUserNode_def getUserSession_def getNodeUsers_def publish_def

lemma redis_only_ops [redis_intros, simp]:
  "redis_only (registerNode E m ttl)" "redis_only (unregisterNode E n)" "redis_only (getNode E n)"
  "redis_only (getNodeIds E)" "redis_only (bindUserNode E u n i)" "redis_only (unbindUserNode E u n)"
  "redis_only (getUserSession E u)" "redis_only (getNodeUsers E n)" "redis_only (publish E u n)"
  unfolding redis_ops by (intro redis_intros)+

lemma preserves_redis:
  assumes "redis_only m" and "\<And>s srv t. P s \<Longrightarrow> ticks s \<le> t \<Longrightarrow> P (s\<lparr>redisSrv := srv, ticks := t\<rparr>)"
  shows "preserves P m"
  using assms by (metis preservesI redis_onlyE)

end
