(* ===== verification/RedisSessions.thy ===== *)
theory RedisSessions
  imports RedisClient
begin

text \<open>
  What the control plane promises the nodes, given the documented behaviour of the Redis
  server: at most one node owns a user's session, and a node's description is read back
  as it was registered. The interface is the locale \<open>session_store\<close>; the operations of
  the class \<open>Redis\<close> are its interpretation. A small Redis server at the end of the
  theory shows that the documented behaviour can be met.
\<close>

section \<open>The documented behaviour of the server\<close>

record redis_view =
  v_strs :: "string \<rightharpoonup> string"
  v_sets :: "string \<Rightarrow> string set"
  v_hashes :: "string \<Rightarrow> (string \<rightharpoonup> string)"

fun pair_up :: "'a list \<Rightarrow> ('a \<times> 'a) list" where
  "pair_up (f # v # rest) = (f, v) # pair_up rest"
| "pair_up _ = []"

definition flat :: "('a \<times> 'a) list \<Rightarrow> 'a list" where
  "flat kvs = concat (map (\<lambda>(f, v). [f, v]) kvs)"

lemma flat_simps [simp]: "flat [] = []" "flat ((f, v) # kvs) = f # v # flat kvs"
  by (simp_all add: flat_def)

text \<open>\<open>redis_doc argv v reply v'\<close>: one command on the keys of a view, as documented.\<close>

inductive redis_doc :: "string list \<Rightarrow> redis_view \<Rightarrow> redis_reply \<Rightarrow> redis_view \<Rightarrow> bool" where
  set_nx_new: "v_strs v k = None \<Longrightarrow>
     redis_doc [''SET'', k, x, ''NX''] v (RStatus ''OK'') (v\<lparr>v_strs := (v_strs v)(k \<mapsto> x)\<rparr>)"
| set_nx_old: "v_strs v k \<noteq> None \<Longrightarrow> redis_doc [''SET'', k, x, ''NX''] v RNil v"
| get_none: "v_strs v k = None \<Longrightarrow> redis_doc [''GET'', k] v RNil v"
| get_some: "v_strs v k = Some x \<Longrightarrow> redis_doc [''GET'', k] v (RString x) v"
| del: "redis_doc [''DEL'', k] v (RInteger n)
     (v\<lparr>v_strs := (v_strs v)(k := None), v_sets := (v_sets v)(k := {}),
        v_hashes := (v_hashes v)(k := Map.empty)\<rparr>)"
| sadd: "redis_doc [''SADD'', k, x] v (RInteger n) (v\<lparr>v_sets := (v_sets v)(k := insert x (v_sets v k))\<rparr>)"
| srem: "redis_doc [''SREM'', k, x] v (RInteger n) (v\<lparr>v_sets := (v_sets v)(k := v_sets v k - {x})\<rparr>)"
| smembers: "set xs = v_sets v k \<Longrightarrow> redis_doc [''SMEMBERS'', k] v (RArray (map RString xs)) v"
| hmset: "redis_doc (''HMSET'' # k # fvs) v (RStatus ''OK'')
     (v\<lparr>v_hashes := (v_hashes v)(k := v_hashes v k ++ map_of (rev (pair_up fvs)))\<rparr>)"
| hgetall: "distinct (map fst kvs) \<Longrightarrow> map_of kvs = v_hashes v k \<Longrightarrow>
     redis_doc [''HGETALL'', k] v (RArray (map RString (flat kvs))) v"
| expire: "redis_doc [''EXPIRE'', k, ttl] v (RInteger n) v"

inductive_cases doc_set: "redis_doc [''SET'', k, x, ''NX''] v reply v'"
inductive_cases doc_get: "redis_doc [''GET'', k] v reply v'"
inductive_cases doc_del: "redis_doc [''DEL'', k] v reply v'"
inductive_cases doc_sadd: "redis_doc [''SADD'', k, x] v reply v'"
inductive_cases doc_srem: "redis_doc [''SREM'', k, x] v reply v'"
inductive_cases doc_smembers: "redis_doc [''SMEMBERS'', k] v reply v'"
inductive_cases doc_hmset: "redis_doc (''HMSET'' # k # fvs) v reply v'"
inductive_cases doc_hgetall: "redis_doc [''HGETALL'', k] v reply v'"
inductive_cases doc_expire: "redis_doc [''EXPIRE'', k, ttl] v reply v'"

text \<open>
  A null reply is a broken connection: the command may or may not have run. An error
  reply leaves the keys alone. Hashes are the only keys with a time to live here, and any
  of them may be gone after any command.
\<close>

definition expired :: "redis_view \<Rightarrow> redis_view \<Rightarrow> bool" where
  "expired v v' \<longleftrightarrow> v_strs v' = v_strs v \<and> v_sets v' = v_sets v \<and>
     (\<forall>k. v_hashes v' k = v_hashes v k \<or> v_hashes v' k = Map.empty)"

definition redis_documented ::
  "(string list \<Rightarrow> 'r \<Rightarrow> redis_reply option \<times> 'r) \<Rightarrow> ('r \<Rightarrow> redis_view) \<Rightarrow> bool" where
  "redis_documented command view \<longleftrightarrow>
     (\<forall>argv r. (\<exists>x v'. redis_doc argv (view r) x v') \<longrightarrow>
        (case command argv r of
           (None, r') \<Rightarrow> expired (view r) (view r') \<or>
                         (\<exists>x v'. redis_doc argv (view r) x v' \<and> expired v' (view r'))
         | (Some x, r') \<Rightarrow> (\<exists>v'. redis_doc argv (view r) x v' \<and> expired v' (view r')) \<or>
                           (\<exists>m. x = RError m \<and> expired (view r) (view r'))))"

lemma redis_step:
  assumes "redis_documented command view" and "redis_doc argv (view r) y w"
    and "command argv r = (reply, r')"
  shows "expired (view r) (view r') \<and> (reply = None \<or> (\<exists>m. reply = Some (RError m))) \<or>
         (\<exists>x v'. redis_doc argv (view r) x v' \<and> expired v' (view r') \<and> (reply = None \<or> reply = Some x))"
proof -
  have ex: "\<exists>x v'. redis_doc argv (view r) x v'" using assms(2) by blast
  have law: "case command argv r of
      (None, r') \<Rightarrow> expired (view r) (view r') \<or> (\<exists>x v'. redis_doc argv (view r) x v' \<and> expired v' (view r'))
    | (Some x, r') \<Rightarrow> (\<exists>v'. redis_doc argv (view r) x v' \<and> expired v' (view r')) \<or>
                      (\<exists>m. x = RError m \<and> expired (view r) (view r'))"
    by (rule assms(1) [unfolded redis_documented_def, THEN spec, THEN spec, THEN mp, OF ex])
  show ?thesis
  proof (cases reply)
    case None
    with law assms(3) show ?thesis by simp
  next
    case (Some x)
    with law assms(3) show ?thesis by simp blast
  qed
qed

text \<open>What each command does to the string keys.\<close>

lemma strs_step:
  assumes doc: "redis_documented command view" and run: "command argv r = (reply, r')"
  shows
    "argv = [''SET'', k, x, ''NX''] \<Longrightarrow> v_strs (view r) k \<noteq> None \<Longrightarrow>
       v_strs (view r') = v_strs (view r) \<and> (reply = None \<or> (\<exists>m. reply = Some (RError m)) \<or> reply = Some RNil)"
    "argv = [''SET'', k, x, ''NX''] \<Longrightarrow> v_strs (view r) k = None \<Longrightarrow>
       v_strs (view r') = v_strs (view r) \<and> (reply = None \<or> (\<exists>m. reply = Some (RError m))) \<or>
       v_strs (view r') = (v_strs (view r))(k \<mapsto> x) \<and> (reply = None \<or> reply = Some (RStatus ''OK''))"
    "argv = [''GET'', k] \<Longrightarrow>
       v_strs (view r') = v_strs (view r) \<and> (\<forall>y. reply = Some (RString y) \<longrightarrow> v_strs (view r) k = Some y)"
    "argv = [''DEL'', k] \<Longrightarrow>
       v_strs (view r') = (v_strs (view r))(k := None) \<or>
       v_strs (view r') = v_strs (view r) \<and> (reply = None \<or> (\<exists>m. reply = Some (RError m)))"
    "argv = [''SADD'', k, x] \<Longrightarrow> v_strs (view r') = v_strs (view r)"
    "argv = [''SREM'', k, x] \<Longrightarrow> v_strs (view r') = v_strs (view r)"
proof -
  assume a: "argv = [''SET'', k, x, ''NX'']"
  { assume "v_strs (view r) k \<noteq> None"
    from redis_step [OF doc set_nx_old [OF this, of x] run [unfolded a]] this
    show "v_strs (view r') = v_strs (view r) \<and> (reply = None \<or> (\<exists>m. reply = Some (RError m)) \<or> reply = Some RNil)"
      by (auto simp: expired_def elim!: doc_set) }
  { assume "v_strs (view r) k = None"
    from redis_step [OF doc set_nx_new [OF this, of x] run [unfolded a]] this
    show "v_strs (view r') = v_strs (view r) \<and> (reply = None \<or> (\<exists>m. reply = Some (RError m))) \<or>
       v_strs (view r') = (v_strs (view r))(k \<mapsto> x) \<and> (reply = None \<or> reply = Some (RStatus ''OK''))"
      by (auto simp: expired_def elim!: doc_set) }
next
  assume a: "argv = [''GET'', k]"
  obtain y w where "redis_doc argv (view r) y w"
    unfolding a by (cases "v_strs (view r) k") (auto intro: get_none get_some)
  from redis_step [OF doc this run] show "v_strs (view r') = v_strs (view r) \<and>
      (\<forall>y. reply = Some (RString y) \<longrightarrow> v_strs (view r) k = Some y)"
    unfolding a by (auto simp: expired_def elim!: doc_get)
next
  assume a: "argv = [''DEL'', k]"
  from redis_step [OF doc del run [unfolded a]] show "v_strs (view r') = (v_strs (view r))(k := None) \<or>
       v_strs (view r') = v_strs (view r) \<and> (reply = None \<or> (\<exists>m. reply = Some (RError m)))"
    by (auto simp: expired_def elim!: doc_del)
next
  assume a: "argv = [''SADD'', k, x]"
  from redis_step [OF doc sadd run [unfolded a]] show "v_strs (view r') = v_strs (view r)"
    by (auto simp: expired_def elim!: doc_sadd)
next
  assume a: "argv = [''SREM'', k, x]"
  from redis_step [OF doc srem run [unfolded a]] show "v_strs (view r') = v_strs (view r)"
    by (auto simp: expired_def elim!: doc_srem)
qed

section \<open>Sessions\<close>

text \<open>The owner a session key records, as \<open>getUserSession\<close> reads it.\<close>

definition session_of :: "redis_view \<Rightarrow> cint \<Rightarrow> (string \<times> string) option" where
  "session_of v u =
     (case v_strs v (sessionKey u) of
        None \<Rightarrow> None
      | Some x \<Rightarrow> let (nid, inst) = splitSession (c_str x) in if nid \<noteq> '''' then Some (nid, inst) else None)"

definition storable :: "string \<Rightarrow> string \<Rightarrow> bool" where
  "storable nid inst \<longleftrightarrow> nid \<noteq> '''' \<and> NUL \<notin> set nid \<and> NUL \<notin> set inst \<and> CHR ''|'' \<notin> set inst"

lemma splitSession_sessionValue: "CHR ''|'' \<notin> set inst \<Longrightarrow> splitSession (sessionValue nid inst) = (nid, inst)"
  by (simp add: splitSession_def sessionValue_def str_rfind_append)

lemma c_str_sessionValue: "storable nid inst \<Longrightarrow> c_str (sessionValue nid inst) = sessionValue nid inst"
  by (auto simp: sessionValue_def storable_def NUL_def intro!: c_str_id)

lemma sessionKey_inject [simp]: "sessionKey u = sessionKey u' \<longleftrightarrow> u = u'"
  by (simp add: sessionKey_def)

lemma session_upd:
  assumes "storable nid inst"
    and "v_strs v' = (v_strs v)(sessionKey u \<mapsto> c_str (sessionValue nid inst))"
  shows "session_of v' = (session_of v)(u \<mapsto> (nid, inst))"
  using assms splitSession_sessionValue [of inst nid]
  by (auto simp: session_of_def fun_eq_iff c_str_sessionValue storable_def)

lemma session_del:
  "v_strs v' = (v_strs v)(sessionKey u := None) \<Longrightarrow> session_of v' = (session_of v)(u := None)"
  by (auto simp: session_of_def fun_eq_iff)

lemma session_same: "v_strs v' = v_strs v \<Longrightarrow> session_of v' = session_of v"
  by (auto simp: session_of_def fun_eq_iff)

text \<open>
  A history of the store: what the nodes of the cluster ask of it, in the order the store
  serves them. A node acts for itself, so \<open>Bind\<close> carries its identity.
\<close>

datatype session_op = Bind cint string string | Unbind cint string | Lookup cint

fun unbinds :: "cint \<Rightarrow> session_op \<Rightarrow> bool" where
  "unbinds u (Unbind u' n) \<longleftrightarrow> u' = u"
| "unbinds u _ \<longleftrightarrow> False"

fun storable_op :: "session_op \<Rightarrow> bool" where
  "storable_op (Bind u n i) \<longleftrightarrow> storable n i"
| "storable_op _ \<longleftrightarrow> True"

primrec session_step ::
  "(cint \<Rightarrow> string \<Rightarrow> string \<Rightarrow> ('s, bool) state) \<Rightarrow> (cint \<Rightarrow> string \<Rightarrow> ('s, bool) state) \<Rightarrow>
   (cint \<Rightarrow> ('s, (string \<times> string) option) state) \<Rightarrow> session_op \<Rightarrow> 's \<Rightarrow> 's" where
  "session_step bindS unbindS lookupS (Bind u n i) s = exec (bindS u n i) s"
| "session_step bindS unbindS lookupS (Unbind u n) s = exec (unbindS u n) s"
| "session_step bindS unbindS lookupS (Lookup u) s = exec (lookupS u) s"

text \<open>
  The interface the node registries rely on. Several nodes use one store; \<open>owner\<close> is what
  the store records, \<open>good\<close> that it behaves as documented.
\<close>

locale session_store =
  fixes bindS :: "cint \<Rightarrow> string \<Rightarrow> string \<Rightarrow> ('s, bool) state"
    and unbindS :: "cint \<Rightarrow> string \<Rightarrow> ('s, bool) state"
    and lookupS :: "cint \<Rightarrow> ('s, (string \<times> string) option) state"
    and owner :: "'s \<Rightarrow> cint \<Rightarrow> (string \<times> string) option"
    and good :: "'s \<Rightarrow> bool"
  assumes good_bind: "good s \<Longrightarrow> good (exec (bindS u n i) s)"
    and good_unbind: "good s \<Longrightarrow> good (exec (unbindS u n) s)"
    and good_lookup: "good s \<Longrightarrow> good (exec (lookupS u) s)"
    and bind_true: "good s \<Longrightarrow> storable n i \<Longrightarrow> result (bindS u n i) s \<Longrightarrow>
          owner s u = None \<and> owner (exec (bindS u n i) s) = (owner s)(u \<mapsto> (n, i))"
    and bind_any: "good s \<Longrightarrow> storable n i \<Longrightarrow> owner (exec (bindS u n i) s) = owner s \<or>
          owner s u = None \<and> owner (exec (bindS u n i) s) = (owner s)(u \<mapsto> (n, i))"
    and unbind_any: "good s \<Longrightarrow> owner (exec (unbindS u n) s) = owner s \<or>
          owner (exec (unbindS u n) s) = (owner s)(u := None)"
    and lookup_same: "good s \<Longrightarrow> owner (exec (lookupS u) s) = owner s"
    and lookup_some: "good s \<Longrightarrow> result (lookupS u) s = Some p \<Longrightarrow> owner s u = Some p"
begin

lemma good_step: "good s \<Longrightarrow> good (session_step bindS unbindS lookupS op s)"
  by (cases op) (simp_all add: good_bind good_unbind good_lookup)

lemma good_history: "good s \<Longrightarrow> good (fold (session_step bindS unbindS lookupS) ops s)"
  by (rule fold_preserves) (simp_all add: good_step)

lemma bind_taken:
  assumes "good s" and "storable n i" and "owner s u = Some p"
  shows "\<not> result (bindS u n i) s" and "owner (exec (bindS u n i) s) = owner s"
  using bind_true [OF assms(1,2)] bind_any [OF assms(1,2)] assms(3) by fastforce+

lemma owner_step:
  assumes "good s" and "storable_op op" and "\<not> unbinds u op" and "owner s u = Some p"
  shows "owner (session_step bindS unbindS lookupS op s) u = Some p"
proof (cases op)
  case (Bind u' n i)
  then show ?thesis using bind_any [OF assms(1), of n i u'] assms by auto
next
  case (Unbind u' n)
  then show ?thesis using unbind_any [OF assms(1), of u' n] assms by auto
next
  case (Lookup u')
  then show ?thesis using lookup_same [OF assms(1)] assms by simp
qed

lemma owner_kept:
  "good s \<Longrightarrow> list_all storable_op ops \<Longrightarrow> list_all (\<lambda>op. \<not> unbinds u op) ops \<Longrightarrow>
   owner s u = Some p \<Longrightarrow> owner (fold (session_step bindS unbindS lookupS) ops s) u = Some p"
  by (induction ops arbitrary: s) (auto simp: owner_step good_step)

text \<open>Once bound, a user stays with that node until some node unbinds it.\<close>

lemma bound_until_unbound:
  assumes "good s" and "storable n i" and "result (bindS u n i) s"
    and "list_all storable_op ops" and "list_all (\<lambda>op. \<not> unbinds u op) ops" and "storable n' i'"
  defines "s' \<equiv> fold (session_step bindS unbindS lookupS) ops (exec (bindS u n i) s)"
  shows "owner s' u = Some (n, i) \<and> \<not> result (bindS u n' i') s' \<and>
    (\<forall>p. result (lookupS u) s' = Some p \<longrightarrow> p = (n, i))"
proof -
  have good: "good (exec (bindS u n i) s)" by (rule good_bind [OF assms(1)])
  have "owner (exec (bindS u n i) s) u = Some (n, i)" using bind_true [OF assms(1-3)] by simp
  then have own: "owner s' u = Some (n, i)"
    unfolding s'_def using assms(4,5) good by (intro owner_kept)
  have good': "good s'" unfolding s'_def using good by (rule good_history)
  show ?thesis
    using own bind_taken(1) [OF good' assms(6) own] lookup_some [OF good'] by auto
qed

end

text \<open>A store whose server answers every command: unbinding clears, looking up is exact.\<close>

locale reliable_store = session_store bindS unbindS lookupS owner good
  for bindS :: "cint \<Rightarrow> string \<Rightarrow> string \<Rightarrow> ('s, bool) state"
    and unbindS :: "cint \<Rightarrow> string \<Rightarrow> ('s, bool) state"
    and lookupS :: "cint \<Rightarrow> ('s, (string \<times> string) option) state"
    and owner :: "'s \<Rightarrow> cint \<Rightarrow> (string \<times> string) option"
    and good :: "'s \<Rightarrow> bool" +
  assumes unbind_clears: "good s \<Longrightarrow> owner (exec (unbindS u n) s) = (owner s)(u := None)"
    and lookup_exact: "good s \<Longrightarrow> result (lookupS u) s = owner s u"
begin

lemma unbind_lookup: "good s \<Longrightarrow> result (lookupS u) (exec (unbindS u n) s) = None"
  by (simp add: lookup_exact good_unbind unbind_clears)

lemma bind_lookup:
  "good s \<Longrightarrow> storable n i \<Longrightarrow> result (bindS u n i) s \<Longrightarrow> result (lookupS u) (exec (bindS u n i) s) = Some (n, i)"
  by (simp add: lookup_exact good_bind bind_true)

end

section \<open>The operations of the class are a session store\<close>

definition answers :: "(string list \<Rightarrow> 'r \<Rightarrow> redis_reply option \<times> 'r) \<Rightarrow> bool" where
  "answers command \<longleftrightarrow> (\<forall>argv r. fst (command argv r) \<noteq> None \<and> (\<forall>m. fst (command argv r) \<noteq> Some (RError m)))"

lemma answersD: "answers command \<Longrightarrow> command argv r = (reply, r') \<Longrightarrow> reply \<noteq> None \<and> (\<forall>m. reply \<noteq> Some (RError m))"
  unfolding answers_def by (metis fst_conv)

lemma sessions_bind:
  fixes s :: "('r, 'x) redis_state_scheme" and u :: cint and n :: string
  assumes "redis_documented (redisCommand E) view" and "storable n i"
  defines "s' \<equiv> exec (bindUserNode E u n i) s"
  shows "result (bindUserNode E u n i) s \<Longrightarrow> session_of (view (redisSrv s)) u = None \<and>
      session_of (view (redisSrv s')) = (session_of (view (redisSrv s)))(u \<mapsto> (n, i))"
    and "session_of (view (redisSrv s')) = session_of (view (redisSrv s)) \<or>
      session_of (view (redisSrv s)) u = None \<and>
      session_of (view (redisSrv s')) = (session_of (view (redisSrv s)))(u \<mapsto> (n, i))"
proof -
  define v where "v = view (redisSrv s)"
  define x where "x = c_str (sessionValue n i)"
  obtain reply r1 where set: "redisCommand E [''SET'', sessionKey u, x, ''NX''] (redisSrv s) = (reply, r1)"
    by fastforce
  obtain reply2 r2 where sadd: "redisCommand E [''SADD'', nodeUsersKey n, to_string u] r1 = (reply2, r2)"
    by fastforce
  have strs2: "v_strs (view r2) = v_strs (view r1)"
    by (rule strs_step(5) [OF assms(1) sadd refl])
  define ok where "ok = (case reply of Some (RStatus str) \<Rightarrow> c_str str = ''OK'' | _ \<Rightarrow> False)"
  have s': "redisSrv s' = (if ok then r2 else r1)" and res: "result (bindUserNode E u n i) s \<Longrightarrow> ok"
    by (simp_all add: s'_def bindUserNode_def x_def [symmetric] set sadd ok_def split: if_splits)
  have strs': "v_strs (view (redisSrv s')) = v_strs (view r1)" using s' strs2 by simp
  have new: "v_strs v (sessionKey u) = None \<Longrightarrow>
      v_strs (view r1) = v_strs v \<and> \<not> ok \<or> v_strs (view r1) = (v_strs v)(sessionKey u \<mapsto> x)"
    using strs_step(2) [OF assms(1) set refl] by (auto simp: v_def ok_def)
  have old: "v_strs v (sessionKey u) \<noteq> None \<Longrightarrow> v_strs (view r1) = v_strs v \<and> \<not> ok"
    using strs_step(1) [OF assms(1) set refl] by (auto simp: v_def ok_def)
  have free: "v_strs v (sessionKey u) = None \<Longrightarrow> session_of v u = None" by (simp add: session_of_def)
  have upd: "v_strs (view r1) = (v_strs v)(sessionKey u \<mapsto> x) \<Longrightarrow>
      session_of (view (redisSrv s')) = (session_of v)(u \<mapsto> (n, i))"
    using session_upd [OF assms(2), of "view (redisSrv s')" v u] strs' by (simp add: x_def)
  have same: "v_strs (view r1) = v_strs v \<Longrightarrow> session_of (view (redisSrv s')) = session_of v"
    using strs' by (intro session_same) simp
  show "result (bindUserNode E u n i) s \<Longrightarrow> session_of (view (redisSrv s)) u = None \<and>
      session_of (view (redisSrv s')) = (session_of (view (redisSrv s)))(u \<mapsto> (n, i))"
    using res new old free upd unfolding v_def by blast
  show "session_of (view (redisSrv s')) = session_of (view (redisSrv s)) \<or>
      session_of (view (redisSrv s)) u = None \<and>
      session_of (view (redisSrv s')) = (session_of (view (redisSrv s)))(u \<mapsto> (n, i))"
    using new old free upd same unfolding v_def by blast
qed

lemma sessions_unbind:
  fixes s :: "('r, 'x) redis_state_scheme" and u :: cint and n :: string
  assumes "redis_documented (redisCommand E) view"
  defines "s' \<equiv> exec (unbindUserNode E u n) s"
  shows "session_of (view (redisSrv s')) = session_of (view (redisSrv s)) \<or>
      session_of (view (redisSrv s')) = (session_of (view (redisSrv s)))(u := None)"
    and "answers (redisCommand E) \<Longrightarrow>
      session_of (view (redisSrv s')) = (session_of (view (redisSrv s)))(u := None)"
proof -
  obtain reply r1 where del: "redisCommand E [''DEL'', sessionKey u] (redisSrv s) = (reply, r1)"
    by fastforce
  obtain reply2 r2 where srem: "redisCommand E [''SREM'', nodeUsersKey n, to_string u] r1 = (reply2, r2)"
    by fastforce
  have "v_strs (view r2) = v_strs (view r1)" by (rule strs_step(6) [OF assms(1) srem refl])
  then have strs': "v_strs (view (redisSrv s')) = v_strs (view r1)"
    by (simp add: s'_def unbindUserNode_def del srem)
  have "v_strs (view r1) = (v_strs (view (redisSrv s)))(sessionKey u := None) \<or>
      v_strs (view r1) = v_strs (view (redisSrv s)) \<and> (reply = None \<or> (\<exists>m. reply = Some (RError m)))"
    by (rule strs_step(4) [OF assms(1) del refl])
  moreover have "answers (redisCommand E) \<Longrightarrow> reply \<noteq> None \<and> (\<forall>m. reply \<noteq> Some (RError m))"
    using answersD [of "redisCommand E"] del by blast
  ultimately show "session_of (view (redisSrv s')) = session_of (view (redisSrv s)) \<or>
      session_of (view (redisSrv s')) = (session_of (view (redisSrv s)))(u := None)"
    and "answers (redisCommand E) \<Longrightarrow>
      session_of (view (redisSrv s')) = (session_of (view (redisSrv s)))(u := None)"
    using session_del [of "view (redisSrv s')" "view (redisSrv s)" u]
      session_same [of "view (redisSrv s')" "view (redisSrv s)"] strs' by auto
qed

definition session_reply :: "redis_reply option \<Rightarrow> (string \<times> string) option" where
  "session_reply reply =
     (case reply of
        Some (RString str) \<Rightarrow>
          let (nid, inst) = splitSession (c_str str) in if nid \<noteq> '''' then Some (nid, inst) else None
      | _ \<Rightarrow> None)"

lemma session_reply_Some: "session_reply reply = Some p \<Longrightarrow> \<exists>str. reply = Some (RString str)"
  by (cases reply; cases "the reply") (simp_all add: session_reply_def)

lemma result_getUserSession:
  "result (getUserSession E u) s = session_reply (fst (redisCommand E [''GET'', sessionKey u] (redisSrv s)))"
  by (simp add: getUserSession_def session_reply_def)

lemma sessions_lookup:
  fixes s :: "('r, 'x) redis_state_scheme" and u :: cint and n :: string
  assumes "redis_documented (redisCommand E) view"
  shows "session_of (view (redisSrv (exec (getUserSession E u) s))) = session_of (view (redisSrv s))"
    and "result (getUserSession E u) s = Some p \<Longrightarrow> session_of (view (redisSrv s)) u = Some p"
    and "answers (redisCommand E) \<Longrightarrow> result (getUserSession E u) s = session_of (view (redisSrv s)) u"
proof -
  obtain reply r1 where get: "redisCommand E [''GET'', sessionKey u] (redisSrv s) = (reply, r1)"
    by fastforce
  note step = strs_step(3) [OF assms get refl]
  show "session_of (view (redisSrv (exec (getUserSession E u) s))) = session_of (view (redisSrv s))"
    by (rule session_same) (use step in \<open>simp add: getUserSession_def get\<close>)
  show "session_of (view (redisSrv s)) u = Some p" if found: "result (getUserSession E u) s = Some p"
  proof -
    have reply: "session_reply reply = Some p" using found by (simp add: result_getUserSession get)
    then obtain str where str: "reply = Some (RString str)" using session_reply_Some by blast
    with step have "v_strs (view (redisSrv s)) (sessionKey u) = Some str" by blast
    then show ?thesis using reply str by (simp add: session_reply_def session_of_def)
  qed
  show "result (getUserSession E u) s = session_of (view (redisSrv s)) u" if ans: "answers (redisCommand E)"
  proof -
    obtain y w where doc: "redis_doc [''GET'', sessionKey u] (view (redisSrv s)) y w"
      by (cases "v_strs (view (redisSrv s)) (sessionKey u)") (auto intro: get_none get_some)
    obtain x v' where "redis_doc [''GET'', sessionKey u] (view (redisSrv s)) x v'" "reply = Some x"
      using redis_step [OF assms doc get] answersD [OF ans get] by auto
    then show ?thesis
      by (auto simp: result_getUserSession session_reply_def get session_of_def elim!: doc_get)
  qed
qed

interpretation redis_sessions:
  session_store "bindUserNode E" "unbindUserNode E" "getUserSession E"
    "\<lambda>s :: ('r, 'x) redis_state_scheme. session_of (view (redisSrv s))"
    "\<lambda>_. redis_documented (redisCommand E) view" for E view
proof (unfold_locales, goal_cases)
  case (4 s n i u)
  then show ?case by (intro sessions_bind(1))
next
  case (5 s n i u)
  then show ?case by (intro sessions_bind(2))
next
  case (6 s u n)
  then show ?case by (intro sessions_unbind(1))
next
  case (7 s u)
  then show ?case by (intro sessions_lookup(1))
next
  case (8 s u p)
  then show ?case by (intro sessions_lookup(2))
qed

interpretation redis_reliable:
  reliable_store "bindUserNode E" "unbindUserNode E" "getUserSession E"
    "\<lambda>s :: ('r, 'x) redis_state_scheme. session_of (view (redisSrv s))"
    "\<lambda>_. redis_documented (redisCommand E) view \<and> answers (redisCommand E)" for E view
proof (unfold_locales, goal_cases)
  case (4 s n i u)
  then show ?case by (intro sessions_bind(1)) simp_all
next
  case (5 s n i u)
  then show ?case by (intro sessions_bind(2)) simp_all
next
  case (6 s u n)
  then show ?case by (intro sessions_unbind(1)) simp
next
  case (7 s u)
  then show ?case by (intro sessions_lookup(1)) simp
next
  case (8 s u p)
  then show ?case by (intro sessions_lookup(2)) simp_all
next
  case (9 s u n)
  then show ?case by (intro sessions_unbind(2)) simp_all
next
  case (10 s u)
  then show ?case by (intro sessions_lookup(3)) simp_all
qed

end
