(* ===== verification/RedisNodes.thy ===== *)
theory RedisNodes
  imports RedisSessions "HOL-Library.AList"
begin

text \<open>
  A node's description is a Redis hash. This theory shows that \<open>getNode\<close> reads back what
  \<open>registerNode\<close> stored, whatever the order in which the server lists the fields, and
  gives a small server that meets the documented behaviour, for the witnesses.
\<close>

section \<open>Reading the fields\<close>

text \<open>The fields \<open>registerNode\<close> stores.\<close>

definition nodeFields :: "NodeMeta \<Rightarrow> (string \<times> string) list" where
  "nodeFields m =
     [(''node_id'', nodeId m), (''instance_id'', instanceId m), (''client_ip'', clientIp m),
      (''client_port'', show_int (uint (clientPort m))), (''inter_ip'', interIp m),
      (''inter_port'', show_int (uint (interPort m))), (''heartbeat_ms'', show_int (heartbeatMs m))]"

definition field_or :: "(string \<rightharpoonup> string) \<Rightarrow> string \<Rightarrow> (string \<Rightarrow> 'a) \<Rightarrow> 'a \<Rightarrow> 'a" where
  "field_or h f conv d = (case h f of None \<Rightarrow> d | Some v \<Rightarrow> conv (c_str v))"

lemma field_or_Cons [simp]:
  "field_or (map_of ((f, v) # kvs)) g conv d = (if g = f then conv (c_str v) else field_or (map_of kvs) g conv d)"
  by (simp add: field_or_def)

definition fieldsOf :: "(string \<rightharpoonup> string) \<Rightarrow> NodeMeta \<Rightarrow> NodeMeta" where
  "fieldsOf h m =
     \<lparr>nodeId = field_or h ''node_id'' id (nodeId m),
      instanceId = field_or h ''instance_id'' id (instanceId m),
      clientIp = field_or h ''client_ip'' id (clientIp m),
      clientPort = field_or h ''client_port'' (\<lambda>v. ucast (atoi v)) (clientPort m),
      interIp = field_or h ''inter_ip'' id (interIp m),
      interPort = field_or h ''inter_port'' (\<lambda>v. ucast (atoi v)) (interPort m),
      heartbeatMs = field_or h ''heartbeat_ms'' atoll (heartbeatMs m)\<rparr>"

lemma str_or_empty_RString [simp]: "str_or_empty (RString s) = c_str s"
  by (simp add: str_or_empty_def)

lemma field_or_absent: "h f = None \<Longrightarrow> field_or h f conv d = d"
  by (simp add: field_or_def)

lemma fieldsOf_readNodeField:
  assumes "map_of kvs f = None"
  shows "fieldsOf (map_of kvs) (readNodeField f (c_str v) m) = fieldsOf (map_of ((f, v) # kvs)) m"
proof -
  consider "f = ''node_id''" | "f = ''instance_id''" | "f = ''client_ip''" | "f = ''client_port''"
    | "f = ''inter_ip''" | "f = ''inter_port''" | "f = ''heartbeat_ms''"
    | "f \<notin> set (map fst (nodeFields emptyNodeMeta))"
    by (auto simp: nodeFields_def)
  then show ?thesis
  proof cases
    case 8
    then show ?thesis
      by (auto simp: fieldsOf_def readNodeField_def nodeFields_def simp del: map_of.simps)
  qed (use assms in \<open>simp_all add: fieldsOf_def readNodeField_def field_or_absent del: map_of.simps\<close>)
qed

lemma readNodeFields_map:
  "distinct (map fst kvs) \<Longrightarrow> (\<And>f. f \<in> fst ` set kvs \<Longrightarrow> NUL \<notin> set f) \<Longrightarrow>
   readNodeFields (map RString (flat kvs)) m = fieldsOf (map_of kvs) m"
proof (induction kvs arbitrary: m)
  case Nil
  then show ?case by (simp add: fieldsOf_def field_or_def)
next
  case (Cons kv kvs)
  obtain f v where kv: "kv = (f, v)" by fastforce
  have f: "c_str f = f" using Cons.prems(2) [of f] kv by (simp add: c_str_id)
  have absent: "map_of kvs f = None"
    using Cons.prems(1) kv by (simp add: map_of_eq_None_iff)
  have IH: "readNodeFields (map RString (flat kvs)) m' = fieldsOf (map_of kvs) m'" for m'
    using Cons.prems by (intro Cons.IH) auto
  show ?case
    using fieldsOf_readNodeField [OF absent, of v m] by (simp add: kv f IH del: map_of.simps)
qed

section \<open>The registration round trip\<close>

definition registrable :: "NodeMeta \<Rightarrow> bool" where
  "registrable m \<longleftrightarrow> valid m \<and> NUL \<notin> set (nodeId m) \<and> NUL \<notin> set (instanceId m) \<and>
     NUL \<notin> set (clientIp m) \<and> NUL \<notin> set (interIp m) \<and> - (2 ^ 63) \<le> heartbeatMs m \<and> heartbeatMs m < 2 ^ 63"

text \<open>
  The description \<open>registerNode\<close> stores: one without a heartbeat gets the system time, in whole
  seconds.
\<close>

definition recorded :: "('r, 'e) redis_env_scheme \<Rightarrow> ('r, 'x) redis_state_scheme \<Rightarrow> NodeMeta \<Rightarrow> NodeMeta" where
  "recorded E s m = m\<lparr>heartbeatMs := (if heartbeatMs m \<le> 0 then c_div (systemMs E (ticks s)) 1000 * 1000 else heartbeatMs m)\<rparr>"

lemma recorded_simps [simp]:
  "nodeId (recorded E s m) = nodeId m" "instanceId (recorded E s m) = instanceId m"
  "clientIp (recorded E s m) = clientIp m" "clientPort (recorded E s m) = clientPort m"
  "interIp (recorded E s m) = interIp m" "interPort (recorded E s m) = interPort m"
  by (simp_all add: recorded_def)

lemma pair_up_flat [simp]: "pair_up (flat kvs) = kvs"
  by (induction kvs) auto

lemma ucast_16_32_16: "(ucast (ucast (p :: 16 word) :: cint) :: 16 word) = p"
  by (rule bit_word_eqI) (simp add: bit_simps)

lemma port_roundtrip: "(ucast (atoi (show_int (uint (p :: 16 word)))) :: 16 word) = p"
proof -
  have "- (2 ^ 63) \<le> uint p" by (rule order_trans [OF _ unsigned_greater_eq]) simp
  moreover have "uint p < 2 ^ 16" using uint_lt2p [of p] by simp
  ultimately have "clamp_long (uint p) = uint p" by (auto simp: clamp_long_def max_def min_def)
  then show ?thesis by (simp add: atoi_def c_str_id strtol10_show_int ucast_16_32_16)
qed

lemma fieldsOf_nodeFields:
  assumes "registrable m" and "\<And>f v. map_of (nodeFields m) f = Some v \<Longrightarrow> h f = Some v"
  shows "fieldsOf h m' = m"
proof -
  have "h ''node_id'' = Some (nodeId m)" "h ''instance_id'' = Some (instanceId m)"
    "h ''client_ip'' = Some (clientIp m)" "h ''client_port'' = Some (show_int (uint (clientPort m)))"
    "h ''inter_ip'' = Some (interIp m)" "h ''inter_port'' = Some (show_int (uint (interPort m)))"
    "h ''heartbeat_ms'' = Some (show_int (heartbeatMs m))"
    by (rule assms(2), simp add: nodeFields_def)+
  then show ?thesis using assms(1)
    by (simp add: fieldsOf_def field_or_def registrable_def c_str_id port_roundtrip atoll_show_int)
qed

definition onlyNodeFields :: "(string \<rightharpoonup> string) \<Rightarrow> bool" where
  "onlyNodeFields h \<longleftrightarrow> (\<forall>f. h f \<noteq> None \<longrightarrow> f \<in> set (map fst (nodeFields emptyNodeMeta)))"

lemma fst_nodeFields: "map fst (nodeFields m) = map fst (nodeFields m')"
  by (simp add: nodeFields_def)

lemma distinct_nodeFields: "distinct (map fst (nodeFields m))"
  by (simp add: nodeFields_def)

text \<open>What the commands of \<open>registerNode\<close> and \<open>getNode\<close> do to the hash of the node.\<close>

lemma hash_step:
  assumes doc: "redis_documented command view" and run: "command argv r = (reply, r')"
  shows "argv = ''HMSET'' # k # flat fvs \<Longrightarrow> answers command \<Longrightarrow>
      v_hashes (view r') k = v_hashes (view r) k ++ map_of (rev fvs) \<or> v_hashes (view r') k = Map.empty"
    and "argv = [''EXPIRE'', k', ttl] \<or> argv = [''SADD'', k', x] \<Longrightarrow>
      v_hashes (view r') k = v_hashes (view r) k \<or> v_hashes (view r') k = Map.empty"
proof -
  assume a: "argv = ''HMSET'' # k # flat fvs" and ans: "answers command"
  have "reply \<noteq> None \<and> (\<forall>m. reply \<noteq> Some (RError m))" by (rule answersD [OF ans run])
  with redis_step [OF doc hmset [of k "flat fvs"] run [unfolded a]]
  obtain x v' where h: "redis_doc (''HMSET'' # k # flat fvs) (view r) x v'" "expired v' (view r')" by auto
  from h(1) have "v_hashes v' k = v_hashes (view r) k ++ map_of (rev fvs)" by (auto elim!: doc_hmset)
  moreover have "v_hashes (view r') k = v_hashes v' k \<or> v_hashes (view r') k = Map.empty"
    using h(2) unfolding expired_def by blast
  ultimately show "v_hashes (view r') k = v_hashes (view r) k ++ map_of (rev fvs) \<or> v_hashes (view r') k = Map.empty"
    by auto
next
  assume "argv = [''EXPIRE'', k', ttl] \<or> argv = [''SADD'', k', x]"
  then show "v_hashes (view r') k = v_hashes (view r) k \<or> v_hashes (view r') k = Map.empty"
  proof
    assume a: "argv = [''EXPIRE'', k', ttl]"
    from redis_step [OF doc expire run [unfolded a]] show ?thesis
      by (auto simp: expired_def elim!: doc_expire)
  next
    assume a: "argv = [''SADD'', k', x]"
    from redis_step [OF doc sadd run [unfolded a]] show ?thesis
      by (auto simp: expired_def elim!: doc_sadd)
  qed
qed

lemma onlyNodeFields_list:
  assumes "onlyNodeFields h"
  obtains kvs where "distinct (map fst kvs)" "map_of kvs = h"
proof
  define fs where "fs = filter (\<lambda>f. h f \<noteq> None) (map fst (nodeFields emptyNodeMeta))"
  show "distinct (map fst (map (\<lambda>f. (f, the (h f))) fs))"
    using distinct_nodeFields by (simp add: fs_def o_def)
  show "map_of (map (\<lambda>f. (f, the (h f))) fs) = h"
  proof
    fix f
    show "map_of (map (\<lambda>f. (f, the (h f))) fs) f = h f"
      using assms by (cases "h f") (auto simp: map_of_map_restrict restrict_map_def fs_def onlyNodeFields_def)
  qed
qed

lemma hgetall_step:
  assumes "redis_documented command view" and "onlyNodeFields (v_hashes (view r) k)"
    and "command [''HGETALL'', k] r = (reply, r1)"
  shows "expired (view r) (view r1)"
    and "reply = None \<or> (\<exists>m. reply = Some (RError m)) \<or>
    (\<exists>kvs. distinct (map fst kvs) \<and> map_of kvs = v_hashes (view r) k \<and>
       reply = Some (RArray (map RString (flat kvs))))"
proof -
  obtain kvs where "distinct (map fst kvs)" "map_of kvs = v_hashes (view r) k"
    using onlyNodeFields_list [OF assms(2)] .
  then have "redis_doc [''HGETALL'', k] (view r) (RArray (map RString (flat kvs))) (view r)" by (rule hgetall)
  note step = redis_step [OF assms(1) this assms(3)]
  show "expired (view r) (view r1)" using step by (auto simp: expired_def elim!: doc_hgetall)
  show "reply = None \<or> (\<exists>m. reply = Some (RError m)) \<or>
    (\<exists>kvs. distinct (map fst kvs) \<and> map_of kvs = v_hashes (view r) k \<and>
       reply = Some (RArray (map RString (flat kvs))))" using step by (auto elim!: doc_hgetall)
qed

lemmas hgetall_reply = hgetall_step(2)

lemma readNodeFields_hash:
  assumes "distinct (map fst kvs)" and "onlyNodeFields (map_of kvs)"
  shows "readNodeFields (map RString (flat kvs)) m = fieldsOf (map_of kvs) m"
proof (rule readNodeFields_map [OF assms(1)])
  fix f
  assume "f \<in> fst ` set kvs"
  then have "map_of kvs f \<noteq> None" by (metis map_of_eq_None_iff)
  then have "f \<in> set (map fst (nodeFields emptyNodeMeta))" using assms(2) by (simp add: onlyNodeFields_def)
  then show "NUL \<notin> set f" by (auto simp: nodeFields_def NUL_def)
qed

lemma getNode_hash:
  assumes "redis_documented (redisCommand E) view" and "answers (redisCommand E)"
    and "onlyNodeFields (v_hashes (view (redisSrv s)) (nodeKey nid))"
  shows "result (getNode E nid) s =
    (let h = v_hashes (view (redisSrv s)) (nodeKey nid); m = fieldsOf h emptyNodeMeta
     in if h \<noteq> Map.empty \<and> valid m then Some m else None)"
proof -
  obtain reply r1 where run: "redisCommand E [''HGETALL'', nodeKey nid] (redisSrv s) = (reply, r1)" by fastforce
  obtain kvs where kvs: "distinct (map fst kvs)" "map_of kvs = v_hashes (view (redisSrv s)) (nodeKey nid)"
    "reply = Some (RArray (map RString (flat kvs)))"
    using hgetall_reply [OF assms(1,3) run] answersD [OF assms(2) run] by auto
  have "map_of kvs \<noteq> Map.empty \<longleftrightarrow> kvs \<noteq> []" by (cases kvs) auto
  moreover have "flat kvs = [] \<longleftrightarrow> kvs = []" by (cases kvs) auto
  moreover have "readNodeFields (map RString (flat kvs)) emptyNodeMeta = fieldsOf (map_of kvs) emptyNodeMeta"
    using kvs(1,2) assms(3) by (intro readNodeFields_hash) simp_all
  ultimately show ?thesis by (simp add: getNode_def run kvs(3) Let_def kvs(2) [symmetric])
qed

text \<open>
  The round trip: after a registration that succeeded, a lookup of the node finds the
  description that was registered, or nothing when it has expired in between.
\<close>

lemma register_hash:
  fixes s :: "('r, 'x) redis_state_scheme" and ttl :: int
  assumes doc: "redis_documented (redisCommand E) view" and ans: "answers (redisCommand E)"
    and reg: "registrable (recorded E s m)"
  defines "s' \<equiv> exec (registerNode E m ttl) s"
  shows "v_hashes (view (redisSrv s')) (nodeKey (nodeId m)) =
      v_hashes (view (redisSrv s)) (nodeKey (nodeId m)) ++ map_of (rev (nodeFields (recorded E s m))) \<or>
      v_hashes (view (redisSrv s')) (nodeKey (nodeId m)) = Map.empty"
proof -
  define k where "k = nodeKey (nodeId m)"
  obtain y1 r1 where r1: "redisCommand E (''HMSET'' # k # flat (nodeFields (recorded E s m))) (redisSrv s) = (y1, r1)"
    by fastforce
  obtain y2 r2 where r2: "redisCommand E [''EXPIRE'', k, show_int ttl] r1 = (y2, r2)" by fastforce
  obtain y3 r3 where r3: "redisCommand E [''SADD'', ''chat:nodes'', nodeId m] r2 = (y3, r3)" by fastforce
  obtain a b where "y1 = Some a" "y2 = Some b" using answersD [OF ans r1] answersD [OF ans r2] by blast
  then have "redisSrv s' = r3"
    using reg r1 r2 r3
    by (cases "heartbeatMs m \<le> 0")
      (simp_all add: s'_def registerNode_def registrable_def c_str_id nodeFields_def k_def, simp_all add: recorded_def)
  then show ?thesis
    using hash_step(1) [OF doc r1 refl ans] hash_step(2) [OF doc r2, where k = k]
      hash_step(2) [OF doc r3, where k = k] unfolding k_def by fastforce
qed

lemma map_of_rev_nodeFields: "map_of (rev (nodeFields m)) = map_of (nodeFields m)"
proof (rule map_of_inject_set [THEN iffD2])
  show "distinct (map fst (rev (nodeFields m)))" "distinct (map fst (nodeFields m))"
    by (simp_all add: nodeFields_def)
  show "set (rev (nodeFields m)) = set (nodeFields m)" by (rule set_rev)
qed

lemma onlyNodeFields_upd: "onlyNodeFields h \<Longrightarrow> onlyNodeFields (h ++ map_of (nodeFields m))"
  unfolding onlyNodeFields_def fst_nodeFields [of emptyNodeMeta m]
  by (auto simp: map_add_Some_iff map_of_eq_None_iff dest: map_of_SomeD)

section \<open>A server that behaves as documented\<close>

record sample_redis =
  sr_strs :: "string \<rightharpoonup> string"
  sr_sets :: "string \<Rightarrow> string list"
  sr_hashes :: "string \<Rightarrow> (string \<times> string) list"

definition sampleRedis :: "string list \<Rightarrow> sample_redis \<Rightarrow> redis_reply option \<times> sample_redis" where
  "sampleRedis argv r =
     (let c = argv ! 0; k = argv ! 1 in
      if c = ''HMSET'' then
        (Some (RStatus ''OK''), r\<lparr>sr_hashes := (sr_hashes r)(k := rev (pair_up (drop 2 argv)) @ sr_hashes r k)\<rparr>)
      else if c = ''HGETALL'' then (Some (RArray (map RString (flat (AList.clearjunk (sr_hashes r k))))), r)
      else if c = ''SET'' then
        if sr_strs r k = None
        then (Some (RStatus ''OK''), r\<lparr>sr_strs := (sr_strs r)(k \<mapsto> argv ! 2)\<rparr>)
        else (Some RNil, r)
      else if c = ''GET'' then
        (Some (case sr_strs r k of None \<Rightarrow> RNil | Some x \<Rightarrow> RString x), r)
      else if c = ''DEL'' then
        (Some (RInteger 1), r\<lparr>sr_strs := (sr_strs r)(k := None), sr_sets := (sr_sets r)(k := []),
                              sr_hashes := (sr_hashes r)(k := [])\<rparr>)
      else if c = ''SADD'' then
        (Some (RInteger 1), r\<lparr>sr_sets := (sr_sets r)(k := List.insert (argv ! 2) (sr_sets r k))\<rparr>)
      else if c = ''SREM'' then
        (Some (RInteger 1), r\<lparr>sr_sets := (sr_sets r)(k := removeAll (argv ! 2) (sr_sets r k))\<rparr>)
      else if c = ''SMEMBERS'' then (Some (RArray (map RString (sr_sets r k))), r)
      else (Some (RInteger 1), r))"

definition sampleView :: "sample_redis \<Rightarrow> redis_view" where
  "sampleView r = \<lparr>v_strs = sr_strs r, v_sets = (\<lambda>k. set (sr_sets r k)),
                   v_hashes = (\<lambda>k. map_of (sr_hashes r k))\<rparr>"

definition sampleStart :: sample_redis where
  "sampleStart = \<lparr>sr_strs = Map.empty, sr_sets = (\<lambda>_. []), sr_hashes = (\<lambda>_. [])\<rparr>"

lemma expired_refl [simp]: "expired v v"
  by (simp add: expired_def)

lemma sample_compute:
  "sampleRedis [''DEL'', k] r = (Some (RInteger 1), r\<lparr>sr_strs := (sr_strs r)(k := None),
     sr_sets := (sr_sets r)(k := []), sr_hashes := (sr_hashes r)(k := [])\<rparr>)"
  "sampleRedis [''SADD'', k, x] r =
     (Some (RInteger 1), r\<lparr>sr_sets := (sr_sets r)(k := List.insert x (sr_sets r k))\<rparr>)"
  "sampleRedis [''SREM'', k, x] r =
     (Some (RInteger 1), r\<lparr>sr_sets := (sr_sets r)(k := removeAll x (sr_sets r k))\<rparr>)"
  "sampleRedis (''HMSET'' # k # fvs) r =
     (Some (RStatus ''OK''), r\<lparr>sr_hashes := (sr_hashes r)(k := rev (pair_up fvs) @ sr_hashes r k)\<rparr>)"
  "sampleRedis [''EXPIRE'', k, t] r = (Some (RInteger 1), r)"
  by (simp_all add: sampleRedis_def)

lemma sample_view_upd:
  "sampleView (r\<lparr>sr_strs := (sr_strs r)(k := None), sr_sets := (sr_sets r)(k := []),
     sr_hashes := (sr_hashes r)(k := [])\<rparr>) =
   (sampleView r)\<lparr>v_strs := (v_strs (sampleView r))(k := None), v_sets := (v_sets (sampleView r))(k := {}),
     v_hashes := (v_hashes (sampleView r))(k := Map.empty)\<rparr>"
  "sampleView (r\<lparr>sr_sets := (sr_sets r)(k := List.insert x (sr_sets r k))\<rparr>) =
   (sampleView r)\<lparr>v_sets := (v_sets (sampleView r))(k := insert x (v_sets (sampleView r) k))\<rparr>"
  "sampleView (r\<lparr>sr_sets := (sr_sets r)(k := removeAll x (sr_sets r k))\<rparr>) =
   (sampleView r)\<lparr>v_sets := (v_sets (sampleView r))(k := v_sets (sampleView r) k - {x})\<rparr>"
  "sampleView (r\<lparr>sr_hashes := (sr_hashes r)(k := rev fvs @ sr_hashes r k)\<rparr>) =
   (sampleView r)\<lparr>v_hashes := (v_hashes (sampleView r))(k := v_hashes (sampleView r) k ++ map_of (rev fvs))\<rparr>"
  by (auto simp: sampleView_def fun_eq_iff)

lemma sample_doc:
  assumes "redis_doc argv (sampleView r) y w"
  shows "\<exists>x v'. fst (sampleRedis argv r) = Some x \<and> redis_doc argv (sampleView r) x v' \<and>
    v' = sampleView (snd (sampleRedis argv r))"
  using assms
proof (cases rule: redis_doc.cases)
  case (set_nx_new k x)
  then show ?thesis
    using redis_doc.set_nx_new [of "sampleView r" k x]
    by (simp add: sampleRedis_def sampleView_def)
next
  case (set_nx_old k x)
  then show ?thesis
    using redis_doc.set_nx_old [of "sampleView r" k x]
    by (auto simp add: sampleRedis_def sampleView_def)
next
  case (get_none k)
  then show ?thesis
    using redis_doc.get_none [of "sampleView r" k] by (simp add: sampleRedis_def sampleView_def)
next
  case (get_some k x)
  then show ?thesis
    using redis_doc.get_some [of "sampleView r" k x] by (simp add: sampleRedis_def sampleView_def)
next
  case (del k n)
  then show ?thesis
    using redis_doc.del [of k "sampleView r" 1] by (simp add: sample_compute sample_view_upd)
next
  case (sadd k x n)
  then show ?thesis
    using redis_doc.sadd [of k x "sampleView r" 1] by (simp add: sample_compute sample_view_upd)
next
  case (srem k x n)
  then show ?thesis
    using redis_doc.srem [of k x "sampleView r" 1] by (simp add: sample_compute sample_view_upd)
next
  case (smembers xs k)
  then show ?thesis
    using redis_doc.smembers [of "sr_sets r k" "sampleView r" k] by (simp add: sampleRedis_def sampleView_def)
next
  case (hmset k fvs)
  then show ?thesis
    using redis_doc.hmset [of k fvs "sampleView r"]
    by (simp add: sample_compute sample_view_upd)
next
  case (hgetall kvs k)
  then show ?thesis
    using redis_doc.hgetall [of "AList.clearjunk (sr_hashes r k)" "sampleView r" k]
    by (simp add: sampleRedis_def sampleView_def map_of_clearjunk distinct_clearjunk)
next
  case (expire k ttl n)
  then show ?thesis
    using redis_doc.expire [of k ttl "sampleView r" 1] by (simp add: sampleRedis_def sampleView_def)
qed

lemma sample_documented: "redis_documented sampleRedis sampleView"
  unfolding redis_documented_def
proof (intro allI impI)
  fix argv r
  assume "\<exists>x v'. redis_doc argv (sampleView r) x v'"
  then obtain y w where "redis_doc argv (sampleView r) y w" by blast
  from sample_doc [OF this] obtain x v' where "fst (sampleRedis argv r) = Some x"
    "redis_doc argv (sampleView r) x v'" "v' = sampleView (snd (sampleRedis argv r))" by blast
  then show "case sampleRedis argv r of
      (None, r') \<Rightarrow> expired (sampleView r) (sampleView r') \<or>
        (\<exists>x v'. redis_doc argv (sampleView r) x v' \<and> expired v' (sampleView r'))
    | (Some x, r') \<Rightarrow> (\<exists>v'. redis_doc argv (sampleView r) x v' \<and> expired v' (sampleView r')) \<or>
        (\<exists>m. x = RError m \<and> expired (sampleView r) (sampleView r'))"
    by (cases "sampleRedis argv r") auto
qed

definition answered :: "redis_reply option \<times> 'r \<Rightarrow> bool" where
  "answered a \<longleftrightarrow> fst a \<noteq> None \<and> (\<forall>m. fst a \<noteq> Some (RError m))"

lemma answered_if: "answered a \<Longrightarrow> answered b \<Longrightarrow> answered (if c then a else b)"
  by simp

lemma sample_answers: "answers sampleRedis"
proof -
  have "answered (sampleRedis argv r)" for argv r
    unfolding sampleRedis_def Let_def
    by (intro answered_if) (simp_all add: answered_def split: option.split)
  then show ?thesis by (simp add: answers_def answered_def)
qed

definition sampleEnv :: "sample_redis redis_env" where
  "sampleEnv = \<lparr>redisCommand = sampleRedis, steadyNs = (\<lambda>n. int n), systemMs = (\<lambda>n. 1000)\<rparr>"

definition sampleState :: "sample_redis redis_state" where
  "sampleState = \<lparr>redisSrv = sampleStart, ticks = 0, cmdQueue = []\<rparr>"

definition sampleNode :: NodeMeta where
  "sampleNode = \<lparr>nodeId = ''10.0.0.1:6100'', instanceId = ''10.0.0.1:6100#7'', clientIp = ''10.0.0.1'',
     clientPort = 6000, interIp = ''10.0.0.1'', interPort = 6100, heartbeatMs = 7\<rparr>"

text \<open>The same server on a link that breaks on every \<open>SADD\<close>.\<close>

definition flakyRedis :: "string list \<Rightarrow> sample_redis \<Rightarrow> redis_reply option \<times> sample_redis" where
  "flakyRedis argv r = (if argv ! 0 = ''SADD'' then (None, r) else sampleRedis argv r)"

lemma flaky_documented: "redis_documented flakyRedis sampleView"
  using sample_documented unfolding redis_documented_def flakyRedis_def by simp

definition flakyEnv :: "sample_redis redis_env" where
  "flakyEnv = sampleEnv\<lparr>redisCommand := flakyRedis\<rparr>"

section \<open>Properties\<close>

lemma c_str_OK: "c_str ''OK'' = ''OK''"
  by (simp add: c_str_def NUL_def)

lemma sample_bind:
  "result (bindUserNode sampleEnv u n i) sampleState"
  by (simp add: bindUserNode_def sampleEnv_def sampleState_def sampleRedis_def sampleStart_def c_str_OK)

text \<open>
  C12. At most one node owns a user's session. Once \<open>bindUserNode\<close> has returned true for a
  user, whatever binds, unbinds of other users and lookups all nodes of the cluster send
  afterwards, in any order: the session still names that node, every further
  \<open>bindUserNode\<close> for the user fails, and every lookup that answers names that node. Null
  and error replies of the server are allowed at every step.
\<close>

theorem session_exclusive:
  fixes s :: "('r, 'x) redis_state_scheme"
  assumes "redis_documented (redisCommand E) view" and "storable n i" and "result (bindUserNode E u n i) s"
    and "list_all storable_op ops" and "list_all (\<lambda>op. \<not> unbinds u op) ops" and "storable n' i'"
    and "s' = fold (session_step (bindUserNode E) (unbindUserNode E) (getUserSession E)) ops
                (exec (bindUserNode E u n i) s)"
  shows "session_of (view (redisSrv s')) u = Some (n, i) \<and> \<not> result (bindUserNode E u n' i') s' \<and>
    (\<forall>p. result (getUserSession E u) s' = Some p \<longrightarrow> p = (n, i))"
  using redis_sessions.bound_until_unbound [OF assms(1-6), folded assms(7)] .

theorem session_exclusive_witness:
  "\<not> result (bindUserNode sampleEnv 5 ''n2'' ''n2#1'')
      (fold (session_step (bindUserNode sampleEnv) (unbindUserNode sampleEnv) (getUserSession sampleEnv))
        [Bind 5 ''n3'' ''n3#1'', Unbind 6 ''n1'', Lookup 5] (exec (bindUserNode sampleEnv 5 ''n1'' ''n1#1'') sampleState))"
proof -
  have st: "storable ''n1'' ''n1#1''" "storable ''n2'' ''n2#1''" "storable ''n3'' ''n3#1''"
    by (simp_all add: storable_def NUL_def)
  have "redis_documented (redisCommand sampleEnv) sampleView"
    by (simp add: sampleEnv_def sample_documented)
  from session_exclusive [OF this st(1) sample_bind [of 5] _ _ st(2) refl, of "[Bind 5 ''n3'' ''n3#1'', Unbind 6 ''n1'', Lookup 5]"]
  show ?thesis using st(3) by simp
qed

text \<open>
  With a server that answers, a session is read back as it was bound, and after
  \<open>unbindUserNode\<close>, by whichever node, the user has no session and can be bound again.
\<close>

theorem session_roundtrip:
  fixes s :: "('r, 'x) redis_state_scheme"
  assumes "redis_documented (redisCommand E) view" and "answers (redisCommand E)" and "storable n i"
    and "result (bindUserNode E u n i) s"
  shows "result (getUserSession E u) (exec (bindUserNode E u n i) s) = Some (n, i) \<and>
    result (getUserSession E u) (exec (unbindUserNode E u n') (exec (bindUserNode E u n i) s)) = None"
  using redis_reliable.bind_lookup [of E view n i u s] assms
    redis_reliable.unbind_lookup [of E view u n' "exec (bindUserNode E u n i) s"] by simp

theorem session_roundtrip_witness:
  "result (getUserSession sampleEnv (-3)) (exec (bindUserNode sampleEnv (-3) ''a|b:6100'' ''a:6100#1'') sampleState) =
     Some (''a|b:6100'', ''a:6100#1'')"
proof -
  have "storable ''a|b:6100'' ''a:6100#1''" by (simp add: storable_def NUL_def)
  with sample_bind [of "-3"] show ?thesis
    using session_roundtrip [of sampleEnv sampleView _ _ "-3" sampleState]
    by (simp add: sampleEnv_def sample_documented sample_answers)
qed

text \<open>
  The half-done bind. \<open>bindUserNode\<close> sets the session key first and then adds the user
  to the node's set; when the second command gets no reply it returns false, but the
  session key stays, and every later \<open>bindUserNode\<close> for that user, from any node, fails.
\<close>

theorem bind_half_done:
  fixes s :: "('r, 'x) redis_state_scheme"
  assumes doc: "redis_documented (redisCommand E) view" and st: "storable n i" "storable n' i'"
    and set: "redisCommand E [''SET'', sessionKey u, c_str (sessionValue n i), ''NX''] (redisSrv s) =
        (Some (RStatus ''OK''), r1)"
    and sadd: "fst (redisCommand E [''SADD'', nodeUsersKey n, to_string u] r1) = None"
    and s': "s' = exec (bindUserNode E u n i) s"
  shows "\<not> result (bindUserNode E u n i) s \<and> session_of (view (redisSrv s')) u = Some (n, i) \<and>
    \<not> result (bindUserNode E u n' i') s'"
proof -
  have new: "v_strs (view (redisSrv s)) (sessionKey u) = None"
    using strs_step(1) [OF doc set refl] by (cases "v_strs (view (redisSrv s)) (sessionKey u)") auto
  have r1: "v_strs (view r1) = (v_strs (view (redisSrv s)))(sessionKey u \<mapsto> c_str (sessionValue n i))"
    using strs_step(2) [OF doc set refl new] by auto
  obtain r2 where r2: "redisCommand E [''SADD'', nodeUsersKey n, to_string u] r1 = (None, r2)"
    using sadd by (metis prod.collapse)
  have "v_strs (view r2) = v_strs (view r1)" by (rule strs_step(5) [OF doc r2 refl])
  moreover have "redisSrv s' = r2" by (simp add: s' bindUserNode_def set c_str_OK r2)
  ultimately have own: "session_of (view (redisSrv s')) u = Some (n, i)"
    using session_upd [OF st(1), of "view (redisSrv s')" "view (redisSrv s)" u] r1 by simp
  have "\<not> result (bindUserNode E u n i) s" by (simp add: bindUserNode_def set c_str_OK r2)
  then show ?thesis
    using own redis_sessions.bind_taken(1) [OF doc st(2) own] by simp
qed

theorem bind_half_done_witness:
  "\<not> result (bindUserNode flakyEnv 5 ''n1'' ''n1#2'') (exec (bindUserNode flakyEnv 5 ''n1'' ''n1#1'') sampleState)"
proof -
  define r1 where "r1 = sampleStart\<lparr>sr_strs := [sessionKey 5 \<mapsto> c_str (sessionValue ''n1'' ''n1#1'')]\<rparr>"
  have set: "redisCommand flakyEnv [''SET'', sessionKey 5, c_str (sessionValue ''n1'' ''n1#1''), ''NX'']
      (redisSrv sampleState) = (Some (RStatus ''OK''), r1)"
    by (simp add: r1_def flakyEnv_def flakyRedis_def sampleRedis_def sampleStart_def sampleState_def)
  have sadd: "fst (redisCommand flakyEnv [''SADD'', nodeUsersKey ''n1'', to_string 5] r1) = None"
    by (simp add: flakyEnv_def flakyRedis_def)
  have "storable ''n1'' ''n1#1''" "storable ''n1'' ''n1#2''" by (simp_all add: storable_def NUL_def)
  moreover have "redis_documented (redisCommand flakyEnv) sampleView" by (simp add: flakyEnv_def flaky_documented)
  ultimately show ?thesis using bind_half_done [OF _ _ _ set sadd refl] by blast
qed

text \<open>
  C31. A node's description survives the control plane. The conditions are a Redis that answers
  as documented, a valid description without NUL whose heartbeat fits 64 bits, and a hash of
  the node that held, before, no fields but those of a description. Then after
  \<open>registerNode\<close>, and unless the key has expired, \<open>getNode\<close> returns exactly the registered
  description, ports included, in whatever order the server lists the fields of the hash;
  only a heartbeat that is not positive is replaced, by the system time in whole seconds.
\<close>

theorem node_roundtrip:
  fixes s :: "('r, 'x) redis_state_scheme"
  assumes doc: "redis_documented (redisCommand E) view" and ans: "answers (redisCommand E)"
    and reg: "registrable (recorded E s m)" and old: "onlyNodeFields (v_hashes (view (redisSrv s)) (nodeKey (nodeId m)))"
    and s': "s' = exec (registerNode E m ttl) s"
    and alive: "v_hashes (view (redisSrv s')) (nodeKey (nodeId m)) \<noteq> Map.empty"
  shows "result (getNode E (nodeId m)) s' =
    Some (m\<lparr>heartbeatMs := (if heartbeatMs m \<le> 0 then c_div (systemMs E (ticks s)) 1000 * 1000 else heartbeatMs m)\<rparr>)"
proof -
  define h where "h = v_hashes (view (redisSrv s)) (nodeKey (nodeId m)) ++ map_of (rev (nodeFields (recorded E s m)))"
  have h': "v_hashes (view (redisSrv s')) (nodeKey (nodeId m)) = h"
    using register_hash [OF doc ans reg, where ttl = ttl] alive s' by (auto simp: h_def)
  have "onlyNodeFields h"
    unfolding h_def map_of_rev_nodeFields using old by (rule onlyNodeFields_upd)
  moreover have "fieldsOf h emptyNodeMeta = recorded E s m"
    by (rule fieldsOf_nodeFields [OF reg]) (simp add: h_def map_of_rev_nodeFields)
  moreover have "valid (recorded E s m)" using reg by (simp add: registrable_def)
  ultimately show ?thesis
    using getNode_hash [OF doc ans, of s' "nodeId m"] alive by (simp add: h' Let_def recorded_def [symmetric])
qed

theorem node_roundtrip_witness:
  "result (getNode sampleEnv ''10.0.0.1:6100'') (exec (registerNode sampleEnv sampleNode 17) sampleState) = Some sampleNode"
proof -
  have same: "recorded sampleEnv sampleState sampleNode = sampleNode"
    by (simp add: recorded_def sampleNode_def)
  have "registrable (recorded sampleEnv sampleState sampleNode)"
    unfolding same by (simp add: registrable_def valid_def sampleNode_def NUL_def)
  moreover have "0 < heartbeatMs sampleNode" by (simp add: sampleNode_def)
  moreover have "v_hashes (sampleView (redisSrv (exec (registerNode sampleEnv sampleNode 17) sampleState)))
      (nodeKey (nodeId sampleNode)) \<noteq> Map.empty"
    by (simp add: registerNode_def sampleEnv_def sample_compute sampleState_def sampleView_def sampleNode_def)
  moreover have "nodeId sampleNode = ''10.0.0.1:6100''" by (simp add: sampleNode_def)
  ultimately show ?thesis
    using node_roundtrip [where E = sampleEnv and view = sampleView and s = sampleState and m = sampleNode and ttl = 17, OF _ _ _ _ refl]
    by (simp add: sampleEnv_def sample_documented sample_answers sampleState_def sampleView_def sampleStart_def
        onlyNodeFields_def)
qed

end
