(* ===== verification/NodeRegistry.thy ===== *)
theory NodeRegistry
  imports RedisNodes
begin

text \<open>
  The class \<open>NodeRegistry\<close> (\<open>src/server/noderegistry.cpp\<close>): a node's view of the control
  plane. It registers the node, binds and unbinds users, and answers "which live node has
  this user" from two caches with a time to live, falling back to Redis. The two caches
  are maps, because the code only looks keys up. Each operation is the C++ function with
  its clock readings and Redis commands in the same order; \<open>cacheMutex_\<close> makes each
  cache access atomic and is not represented.
\<close>

section \<open>State\<close>

record UserRouteCacheEntry =
  ur_nodeId :: string
  ur_instanceId :: string
  ur_expireAtMs :: int

record NodeMetaCacheEntry =
  nm_nodeMeta :: NodeMeta
  nm_expireAtMs :: int

record 'r registry_state = "'r redis_state" +
  selfNode :: NodeMeta
  heartbeatIntervalMs :: int
  heartbeatTimeoutMs :: int
  routeCacheTtlMs :: int
  running :: bool
  userRouteCache :: "cint \<rightharpoonup> UserRouteCacheEntry"
  nodeMetaCache :: "string \<rightharpoonup> NodeMetaCacheEntry"

lemma redis_only_registry [simp]:
  assumes "redis_only m"
  shows "selfNode (exec m s) = selfNode s" "heartbeatIntervalMs (exec m s) = heartbeatIntervalMs s"
    "heartbeatTimeoutMs (exec m s) = heartbeatTimeoutMs s" "routeCacheTtlMs (exec m s) = routeCacheTtlMs s"
    "running (exec m s) = running s" "userRouteCache (exec m s) = userRouteCache s"
    "nodeMetaCache (exec m s) = nodeMetaCache s"
  by (rule redis_onlyE [OF assms, of s], simp)+

section \<open>The caches\<close>

definition nowMs :: "('r, 'e) redis_env_scheme \<Rightarrow> (('r, 'x) registry_state_scheme, int) state" where
  "nowMs E = do { ns \<leftarrow> readSteadyNs E; State_Monad.return (c_div ns 1000000) }"

definition getCachedUserNode ::
  "('r, 'e) redis_env_scheme \<Rightarrow> cint \<Rightarrow> (('r, 'x) registry_state_scheme, (string \<times> string) option) state" where
  "getCachedUserNode E userId = do {
     cache \<leftarrow> gets userRouteCache;
     case cache userId of
       None \<Rightarrow> State_Monad.return None
     | Some entry \<Rightarrow> do {
         now \<leftarrow> nowMs E;
         if ur_expireAtMs entry < now then do {
           modify (\<lambda>s. s\<lparr>userRouteCache := (userRouteCache s)(userId := None)\<rparr>);
           State_Monad.return None
         }
         else State_Monad.return (Some (ur_nodeId entry, ur_instanceId entry))
       }
   }"

definition cacheUserNode ::
  "('r, 'e) redis_env_scheme \<Rightarrow> cint \<Rightarrow> string \<Rightarrow> string \<Rightarrow> (('r, 'x) registry_state_scheme, unit) state" where
  "cacheUserNode E userId nid inst = do {
     now \<leftarrow> nowMs E;
     modify (\<lambda>s. s\<lparr>userRouteCache := (userRouteCache s)(userId \<mapsto>
       \<lparr>ur_nodeId = nid, ur_instanceId = inst, ur_expireAtMs = now + routeCacheTtlMs s\<rparr>)\<rparr>)
   }"

definition eraseCachedUserNode :: "cint \<Rightarrow> (('r, 'x) registry_state_scheme, unit) state" where
  "eraseCachedUserNode userId = modify (\<lambda>s. s\<lparr>userRouteCache := (userRouteCache s)(userId := None)\<rparr>)"

definition getCachedNode ::
  "('r, 'e) redis_env_scheme \<Rightarrow> string \<Rightarrow> (('r, 'x) registry_state_scheme, NodeMeta option) state" where
  "getCachedNode E nid = do {
     cache \<leftarrow> gets nodeMetaCache;
     case cache nid of
       None \<Rightarrow> State_Monad.return None
     | Some entry \<Rightarrow> do {
         now \<leftarrow> nowMs E;
         if nm_expireAtMs entry < now then do {
           modify (\<lambda>s. s\<lparr>nodeMetaCache := (nodeMetaCache s)(nid := None)\<rparr>);
           State_Monad.return None
         }
         else State_Monad.return (Some (nm_nodeMeta entry))
       }
   }"

definition cacheNode ::
  "('r, 'e) redis_env_scheme \<Rightarrow> NodeMeta \<Rightarrow> (('r, 'x) registry_state_scheme, unit) state" where
  "cacheNode E nodeMeta = do {
     now \<leftarrow> nowMs E;
     modify (\<lambda>s. s\<lparr>nodeMetaCache := (nodeMetaCache s)(nodeId nodeMeta \<mapsto>
       \<lparr>nm_nodeMeta = nodeMeta, nm_expireAtMs = now + routeCacheTtlMs s\<rparr>)\<rparr>)
   }"

definition eraseCachedNode :: "string \<Rightarrow> (('r, 'x) registry_state_scheme, unit) state" where
  "eraseCachedNode nid = modify (\<lambda>s. s\<lparr>nodeMetaCache := (nodeMetaCache s)(nid := None)\<rparr>)"

section \<open>Operations\<close>

definition queryNode ::
  "('r, 'e) redis_env_scheme \<Rightarrow> string \<Rightarrow> (('r, 'x) registry_state_scheme, NodeMeta option) state" where
  "queryNode E nid = do {
     cached \<leftarrow> getCachedNode E nid;
     case cached of
       Some meta \<Rightarrow> State_Monad.return (Some meta)
     | None \<Rightarrow> do {
         found \<leftarrow> getNode E nid;
         case found of
           None \<Rightarrow> do { eraseCachedNode nid; State_Monad.return None }
         | Some meta \<Rightarrow> do { cacheNode E meta; State_Monad.return (Some meta) }
       }
   }"

text \<open>The tail of \<open>queryUserNode\<close> in both its branches: the session is stale.\<close>

definition dropStaleSession ::
  "('r, 'e) redis_env_scheme \<Rightarrow> cint \<Rightarrow> string \<Rightarrow> (('r, 'x) registry_state_scheme, string option) state" where
  "dropStaleSession E userId nid = do {
     unbindUserNode E userId nid;
     eraseCachedUserNode userId;
     State_Monad.return None
   }"

definition instanceMatches :: "NodeMeta option \<Rightarrow> string \<Rightarrow> bool" where
  "instanceMatches meta inst \<longleftrightarrow> (case meta of None \<Rightarrow> False | Some m \<Rightarrow> inst \<noteq> '''' \<and> instanceId m = inst)"

definition queryUserNode ::
  "('r, 'e) redis_env_scheme \<Rightarrow> cint \<Rightarrow> (('r, 'x) registry_state_scheme, string option) state" where
  "queryUserNode E userId = do {
     cached \<leftarrow> getCachedUserNode E userId;
     case cached of
       Some (nid, inst) \<Rightarrow> do {
         meta \<leftarrow> queryNode E nid;
         if instanceMatches meta inst then State_Monad.return (Some nid)
         else dropStaleSession E userId nid
       }
     | None \<Rightarrow> do {
         session \<leftarrow> getUserSession E userId;
         case session of
           None \<Rightarrow> State_Monad.return None
         | Some (nid, inst) \<Rightarrow> do {
             cacheUserNode E userId nid inst;
             meta \<leftarrow> queryNode E nid;
             if instanceMatches meta inst then State_Monad.return (Some nid)
             else dropStaleSession E userId nid
           }
       }
   }"

text \<open>
  The first condition of \<open>resolveUserNode\<close> is a chain of \<open>&&\<close>: the node cache is read
  only when the user cache has hit.
\<close>

definition resolveUserNode ::
  "('r, 'e) redis_env_scheme \<Rightarrow> cint \<Rightarrow> (('r, 'x) registry_state_scheme, (string \<times> NodeMeta) option) state" where
  "resolveUserNode E userId = do {
     cached \<leftarrow> getCachedUserNode E userId;
     hit \<leftarrow> (case cached of
               None \<Rightarrow> State_Monad.return None
             | Some (nid, inst) \<Rightarrow> do {
                 meta \<leftarrow> getCachedNode E nid;
                 State_Monad.return (if instanceMatches meta inst then Some (nid, the meta) else None)
               });
     case hit of
       Some route \<Rightarrow> State_Monad.return (Some route)
     | None \<Rightarrow> do {
         found \<leftarrow> queryUserNode E userId;
         case found of
           None \<Rightarrow> State_Monad.return None
         | Some nid \<Rightarrow> do {
             meta \<leftarrow> queryNode E nid;
             State_Monad.return (map_option (\<lambda>m. (nid, m)) meta)
           }
       }
   }"

definition bindUser ::
  "('r, 'e) redis_env_scheme \<Rightarrow> cint \<Rightarrow> (('r, 'x) registry_state_scheme, bool) state" where
  "bindUser E userId = do {
     self \<leftarrow> gets selfNode;
     ok \<leftarrow> bindUserNode E userId (nodeId self) (instanceId self);
     if ok then do {
       cacheUserNode E userId (nodeId self) (instanceId self);
       State_Monad.return True
     }
     else State_Monad.return False
   }"

definition unbindUser ::
  "('r, 'e) redis_env_scheme \<Rightarrow> cint \<Rightarrow> (('r, 'x) registry_state_scheme, bool) state" where
  "unbindUser E userId = do {
     self \<leftarrow> gets selfNode;
     eraseCachedUserNode userId;
     unbindUserNode E userId (nodeId self)
   }"

primrec queryNodes ::
  "('r, 'e) redis_env_scheme \<Rightarrow> string list \<Rightarrow> (('r, 'x) registry_state_scheme, NodeMeta list) state" where
  "queryNodes E [] = State_Monad.return []"
| "queryNodes E (nid # nids) = do {
     found \<leftarrow> queryNode E nid;
     case found of
       Some meta \<Rightarrow> do { metas \<leftarrow> queryNodes E nids; State_Monad.return (meta # metas) }
     | None \<Rightarrow> do { eraseCachedNode nid; queryNodes E nids }
   }"

definition listNodes ::
  "('r, 'e) redis_env_scheme \<Rightarrow> (('r, 'x) registry_state_scheme, NodeMeta list) state" where
  "listNodes E = do { nids \<leftarrow> getNodeIds E; queryNodes E nids }"

definition isSelfNode :: "('r, 'x) registry_state_scheme \<Rightarrow> string \<Rightarrow> bool" where
  "isSelfNode s nid \<longleftrightarrow> nodeId (selfNode s) = nid"

definition clampTtl :: "int \<Rightarrow> int" where
  "clampTtl interval = (if interval \<le> 0 then 1000 else if interval > 1000 then 1000 else interval)"

definition registry_init ::
  "('r, 'e) redis_env_scheme \<Rightarrow> NodeMeta \<Rightarrow> int \<Rightarrow> int \<Rightarrow> (('r, 'x) registry_state_scheme, bool) state" where
  "registry_init E self interval timeout = do {
     modify (\<lambda>s. s\<lparr>selfNode := self, heartbeatIntervalMs := interval, heartbeatTimeoutMs := timeout,
                   routeCacheTtlMs := clampTtl interval\<rparr>);
     cacheNode E self;
     ok \<leftarrow> registerNode E self (c_div timeout 1000 + 2);
     if ok then do { modify (\<lambda>s. s\<lparr>running := True\<rparr>); State_Monad.return True }
     else State_Monad.return False
   }"

definition stop :: "(('r, 'x) registry_state_scheme, unit) state" where
  "stop = modify (\<lambda>s. s\<lparr>running := False\<rparr>)"

text \<open>One turn of \<open>heartbeatLoop\<close> after its sleep.\<close>

definition heartbeatTick :: "('r, 'e) redis_env_scheme \<Rightarrow> (('r, 'x) registry_state_scheme, unit) state" where
  "heartbeatTick E = do {
     go \<leftarrow> gets running;
     do_when go (do {
       now \<leftarrow> readSystemMs E;
       modify (\<lambda>s. s\<lparr>selfNode := (selfNode s)\<lparr>heartbeatMs := now\<rparr>\<rparr>);
       self \<leftarrow> gets selfNode;
       cacheNode E self;
       timeout \<leftarrow> gets heartbeatTimeoutMs;
       registerNode E self (c_div timeout 1000 + 2);
       State_Monad.return ()
     })
   }"

definition cleanupSelf :: "('r, 'e) redis_env_scheme \<Rightarrow> (('r, 'x) registry_state_scheme, unit) state" where
  "cleanupSelf E = do {
     self \<leftarrow> gets selfNode;
     users \<leftarrow> getNodeUsers E (nodeId self);
     for_each users (\<lambda>userId. do { unbindUserNode E userId (nodeId self); State_Monad.return () });
     unregisterNode E (nodeId self);
     modify (\<lambda>s. s\<lparr>userRouteCache := Map.empty, nodeMetaCache := Map.empty\<rparr>)
   }"

section \<open>Running the operations\<close>

definition clock_ms :: "('r, 'e) redis_env_scheme \<Rightarrow> nat \<Rightarrow> int" where
  "clock_ms E t = c_div (steadyNs E t) 1000000"

lemma run_nowMs [simp]:
  "result (nowMs E) s = clock_ms E (ticks s)" "exec (nowMs E) s = s\<lparr>ticks := Suc (ticks s)\<rparr>"
  by (simp_all add: nowMs_def clock_ms_def)

lemma run_getCachedUserNode:
  "result (getCachedUserNode E u) s =
     (case userRouteCache s u of
        None \<Rightarrow> None
      | Some e \<Rightarrow> if ur_expireAtMs e < clock_ms E (ticks s) then None else Some (ur_nodeId e, ur_instanceId e))"
  by (simp add: getCachedUserNode_def split: option.split)

lemma exec_getCachedUserNode:
  "exec (getCachedUserNode E u) s =
     (case userRouteCache s u of
        None \<Rightarrow> s
      | Some e \<Rightarrow> if ur_expireAtMs e < clock_ms E (ticks s)
                  then s\<lparr>ticks := Suc (ticks s), userRouteCache := (userRouteCache s)(u := None)\<rparr>
                  else s\<lparr>ticks := Suc (ticks s)\<rparr>)"
  by (simp add: getCachedUserNode_def split: option.split)

lemma run_getCachedNode:
  "result (getCachedNode E n) s =
     (case nodeMetaCache s n of
        None \<Rightarrow> None
      | Some e \<Rightarrow> if nm_expireAtMs e < clock_ms E (ticks s) then None else Some (nm_nodeMeta e))"
  by (simp add: getCachedNode_def split: option.split)

lemma exec_getCachedNode:
  "exec (getCachedNode E n) s =
     (case nodeMetaCache s n of
        None \<Rightarrow> s
      | Some e \<Rightarrow> if nm_expireAtMs e < clock_ms E (ticks s)
                  then s\<lparr>ticks := Suc (ticks s), nodeMetaCache := (nodeMetaCache s)(n := None)\<rparr>
                  else s\<lparr>ticks := Suc (ticks s)\<rparr>)"
  by (simp add: getCachedNode_def split: option.split)

lemma exec_cacheUserNode [simp]:
  "exec (cacheUserNode E u n i) s = s\<lparr>ticks := Suc (ticks s), userRouteCache := (userRouteCache s)(u \<mapsto>
     \<lparr>ur_nodeId = n, ur_instanceId = i, ur_expireAtMs = clock_ms E (ticks s) + routeCacheTtlMs s\<rparr>)\<rparr>"
  by (simp add: cacheUserNode_def)

lemma exec_cacheNode [simp]:
  "exec (cacheNode E m) s = s\<lparr>ticks := Suc (ticks s), nodeMetaCache := (nodeMetaCache s)(nodeId m \<mapsto>
     \<lparr>nm_nodeMeta = m, nm_expireAtMs = clock_ms E (ticks s) + routeCacheTtlMs s\<rparr>)\<rparr>"
  by (simp add: cacheNode_def)

lemma exec_erase [simp]:
  "exec (eraseCachedUserNode u) s = s\<lparr>userRouteCache := (userRouteCache s)(u := None)\<rparr>"
  "exec (eraseCachedNode n) s = s\<lparr>nodeMetaCache := (nodeMetaCache s)(n := None)\<rparr>"
  by (simp_all add: eraseCachedUserNode_def eraseCachedNode_def)

section \<open>Every cache entry carries the time it was stored\<close>

text \<open>
  \<open>stamped\<close>: each entry of the two caches expires one time to live after a clock reading
  that has already happened, and the time to live is at most a second. Every operation
  keeps it.
\<close>

definition stamped :: "('r, 'e) redis_env_scheme \<Rightarrow> ('r, 'x) registry_state_scheme \<Rightarrow> bool" where
  "stamped E s \<longleftrightarrow> 0 < routeCacheTtlMs s \<and> routeCacheTtlMs s \<le> 1000 \<and>
     (\<forall>u e. userRouteCache s u = Some e \<longrightarrow> (\<exists>t < ticks s. ur_expireAtMs e = clock_ms E t + routeCacheTtlMs s)) \<and>
     (\<forall>n e. nodeMetaCache s n = Some e \<longrightarrow> (\<exists>t < ticks s. nm_expireAtMs e = clock_ms E t + routeCacheTtlMs s))"

lemma stamped_mono:
  assumes "stamped E s" and "ticks s \<le> ticks s'" and "routeCacheTtlMs s' = routeCacheTtlMs s"
    and "\<And>u e. userRouteCache s' u = Some e \<Longrightarrow> userRouteCache s u = Some e \<or>
           (\<exists>t < ticks s'. ur_expireAtMs e = clock_ms E t + routeCacheTtlMs s)"
    and "\<And>n e. nodeMetaCache s' n = Some e \<Longrightarrow> nodeMetaCache s n = Some e \<or>
           (\<exists>t < ticks s'. nm_expireAtMs e = clock_ms E t + routeCacheTtlMs s)"
  shows "stamped E s'"
  unfolding stamped_def
proof (intro conjI allI impI)
  show "0 < routeCacheTtlMs s'" "routeCacheTtlMs s' \<le> 1000" using assms(1,3) by (simp_all add: stamped_def)
next
  fix u e
  assume "userRouteCache s' u = Some e"
  from assms(4) [OF this] show "\<exists>t < ticks s'. ur_expireAtMs e = clock_ms E t + routeCacheTtlMs s'"
    using assms(1-3) unfolding stamped_def by (metis less_le_trans)
next
  fix n e
  assume "nodeMetaCache s' n = Some e"
  from assms(5) [OF this] show "\<exists>t < ticks s'. nm_expireAtMs e = clock_ms E t + routeCacheTtlMs s'"
    using assms(1-3) unfolding stamped_def by (metis less_le_trans)
qed

named_theorems stamped_ops "the operations of the registry keep the time stamps"

lemma stamped_caches [stamped_ops]:
  "preserves (stamped E) (getCachedUserNode E u)" "preserves (stamped E) (cacheUserNode E u n i)"
  "preserves (stamped E) (eraseCachedUserNode u)" "preserves (stamped E) (getCachedNode E n)"
  "preserves (stamped E) (cacheNode E m)" "preserves (stamped E) (eraseCachedNode n)"
proof -
  show "preserves (stamped E) (getCachedUserNode E u)"
    by (rule preservesI, erule stamped_mono)
      (auto simp: exec_getCachedUserNode split: option.splits if_splits)
  show "preserves (stamped E) (getCachedNode E n)"
    by (rule preservesI, erule stamped_mono)
      (auto simp: exec_getCachedNode split: option.splits if_splits)
  show "preserves (stamped E) (cacheUserNode E u n i)" "preserves (stamped E) (cacheNode E m)"
    by (rule preservesI, erule stamped_mono, auto split: if_splits)+
  show "preserves (stamped E) (eraseCachedUserNode u)" "preserves (stamped E) (eraseCachedNode n)"
    by (rule preservesI, erule stamped_mono, auto split: if_splits)+
qed

lemma stamped_redis: "redis_only m \<Longrightarrow> preserves (stamped E) m"
  by (rule preserves_redis) (auto elim!: stamped_mono)

lemmas stamped_redis_ops [stamped_ops] =
  redis_only_ops [THEN stamped_redis] redis_only_clock [THEN stamped_redis]


lemma stamped_queryNode [stamped_ops]: "preserves (stamped E) (queryNode E n)"
  unfolding queryNode_def by (intro preserves stamped_ops)

lemma stamped_dropStaleSession [stamped_ops]: "preserves (stamped E) (dropStaleSession E u n)"
  unfolding dropStaleSession_def by (intro preserves stamped_ops)

lemma stamped_queryUserNode [stamped_ops]: "preserves (stamped E) (queryUserNode E u)"
  unfolding queryUserNode_def by (intro preserves stamped_ops)

lemma stamped_resolveUserNode [stamped_ops]: "preserves (stamped E) (resolveUserNode E u)"
  unfolding resolveUserNode_def by (intro preserves stamped_ops)

lemma stamped_bindUser [stamped_ops]:
  "preserves (stamped E) (bindUser E u)" "preserves (stamped E) (unbindUser E u)"
  unfolding bindUser_def unbindUser_def by (intro preserves stamped_ops)+

lemma stamped_queryNodes [stamped_ops]: "preserves (stamped E) (queryNodes E ns)"
proof (induction ns)
  case (Cons n ns)
  show ?case unfolding queryNodes.simps by (intro preserves stamped_ops Cons.IH)
qed (simp add: preserves)

lemma stamped_listNodes [stamped_ops]: "preserves (stamped E) (listNodes E)"
  unfolding listNodes_def by (intro preserves stamped_ops)

lemma stamped_other [stamped_ops]:
  "preserves (stamped E) stop" "preserves (stamped E) (heartbeatTick E)" "preserves (stamped E) (cleanupSelf E)"
proof -
  show "preserves (stamped E) stop" unfolding stop_def
    by (intro preserves_modify) (auto elim!: stamped_mono)
  have beat: "preserves (stamped E) (modify (\<lambda>s. s\<lparr>selfNode := (selfNode s)\<lparr>heartbeatMs := now\<rparr>\<rparr>))" for now
    by (intro preserves_modify) (auto elim!: stamped_mono)
  show "preserves (stamped E) (heartbeatTick E)"
    unfolding heartbeatTick_def by (intro preserves stamped_ops beat)
  have clear: "preserves (stamped E) (modify (\<lambda>s. s\<lparr>userRouteCache := Map.empty, nodeMetaCache := Map.empty\<rparr>))"
    by (intro preserves_modify) (auto elim!: stamped_mono)
  show "preserves (stamped E) (cleanupSelf E)"
    unfolding cleanupSelf_def by (intro preserves stamped_ops clear)
qed

section \<open>Looking a user up\<close>

lemma queryNode_users: "userRouteCache (exec (queryNode E n) s) = userRouteCache s"
proof -
  have "userRouteCache (exec (getCachedNode E n) s) = userRouteCache s"
    by (simp add: exec_getCachedNode split: option.split)
  then show ?thesis by (simp add: queryNode_def split: option.split)
qed

lemma getCachedUserNode_some:
  assumes "result (getCachedUserNode E u) s = Some (n, i)"
  shows "exec (getCachedUserNode E u) s = s\<lparr>ticks := Suc (ticks s)\<rparr> \<and>
    (\<exists>e. userRouteCache s u = Some e \<and> ur_nodeId e = n \<and> ur_instanceId e = i \<and> clock_ms E (ticks s) \<le> ur_expireAtMs e)"
  using assms by (auto simp: run_getCachedUserNode exec_getCachedUserNode split: option.splits if_splits)

lemma getCachedUserNode_none:
  "result (getCachedUserNode E u) s = None \<Longrightarrow>
   userRouteCache (exec (getCachedUserNode E u) s) u = None \<and> redisSrv (exec (getCachedUserNode E u) s) = redisSrv s"
  by (auto simp: run_getCachedUserNode exec_getCachedUserNode split: option.splits if_splits)

text \<open>The part of \<open>queryUserNode\<close> after the route is known, from the cache or from Redis.\<close>

definition checkRoute ::
  "('r, 'e) redis_env_scheme \<Rightarrow> cint \<Rightarrow> string \<Rightarrow> string \<Rightarrow> (('r, 'x) registry_state_scheme, string option) state" where
  "checkRoute E u n i = do {
     meta \<leftarrow> queryNode E n;
     if instanceMatches meta i then State_Monad.return (Some n) else dropStaleSession E u n
   }"

lemma checkRoute_none:
  assumes "result (checkRoute E u n i) s = None"
  shows "userRouteCache (exec (checkRoute E u n i) s) u = None \<and>
    (redis_documented (redisCommand E) view \<longrightarrow> answers (redisCommand E) \<longrightarrow>
      session_of (view (redisSrv (exec (checkRoute E u n i) s))) u = None)"
proof -
  have "\<not> instanceMatches (result (queryNode E n) s) i"
    using assms by (auto simp: checkRoute_def split: if_splits)
  then have "exec (checkRoute E u n i) s = exec (dropStaleSession E u n) (exec (queryNode E n) s)"
    by (simp add: checkRoute_def)
  then show ?thesis
    using sessions_unbind(2) [of E view u n "exec (queryNode E n) s"] by (simp add: dropStaleSession_def)
qed

lemma queryUserNode_checkRoute:
  "queryUserNode E u = do {
     cached \<leftarrow> getCachedUserNode E u;
     case cached of
       Some (n, i) \<Rightarrow> checkRoute E u n i
     | None \<Rightarrow> do {
         session \<leftarrow> getUserSession E u;
         case session of
           None \<Rightarrow> State_Monad.return None
         | Some (n, i) \<Rightarrow> do { cacheUserNode E u n i; checkRoute E u n i }
       }
   }"
  unfolding queryUserNode_def checkRoute_def by (rule refl)

text \<open>How one lookup runs: from the cache, from Redis, or not at all.\<close>

lemma queryUserNode_cases:
  obtains (hit) n i e s1 where "userRouteCache s1 u = Some e" "ur_nodeId e = n" "ur_instanceId e = i"
      "result (queryUserNode E u) s = result (checkRoute E u n i) s1"
      "exec (queryUserNode E u) s = exec (checkRoute E u n i) s1"
  | (absent) s1 where "result (getCachedUserNode E u) s = None" "s1 = exec (getCachedUserNode E u) s"
      "result (getUserSession E u) s1 = None"
      "result (queryUserNode E u) s = None" "exec (queryUserNode E u) s = exec (getUserSession E u) s1"
proof (cases "result (getCachedUserNode E u) s")
  case (Some p)
  obtain n i where p: "p = (n, i)" by fastforce
  obtain e where "userRouteCache (exec (getCachedUserNode E u) s) u = Some e" "ur_nodeId e = n" "ur_instanceId e = i"
    using getCachedUserNode_some [of E u s n i] Some p by auto
  then show ?thesis
    by (rule hit) (simp_all add: queryUserNode_checkRoute Some p)
next
  case None
  define s1 where "s1 = exec (getCachedUserNode E u) s"
  show ?thesis
  proof (cases "result (getUserSession E u) s1")
    case N: None
    with None s1_def show ?thesis
      by (intro absent [of s1]) (simp_all add: queryUserNode_checkRoute)
  next
    case (Some p)
    obtain n i where p: "p = (n, i)" by fastforce
    show ?thesis
      by (rule hit [where n = n and i = i and ?s1.0 = "exec (cacheUserNode E u n i) (exec (getUserSession E u) s1)"])
        (use None Some p s1_def in \<open>simp_all add: queryUserNode_checkRoute\<close>, simp_all)
  qed
qed

section \<open>Properties\<close>

text \<open>
  When \<open>queryUserNode\<close> answers no, nothing of the user is left: the route cache has no
  entry and, with a Redis that answers, neither has the control plane. A stale session is
  thus removed by the first lookup that meets it, and the user can log in again.
\<close>

theorem query_none_clean:
  fixes s :: "('r, 'x) registry_state_scheme"
  assumes doc: "redis_documented (redisCommand E) view" and ans: "answers (redisCommand E)"
    and none: "result (queryUserNode E u) s = None" and s': "s' = exec (queryUserNode E u) s"
  shows "userRouteCache s' u = None \<and> session_of (view (redisSrv s')) u = None"
proof (rule queryUserNode_cases [of u E s])
  fix n i e s1
  assume run: "result (queryUserNode E u) s = result (checkRoute E u n i) s1"
      "exec (queryUserNode E u) s = exec (checkRoute E u n i) s1"
  then show ?thesis
    using checkRoute_none [of E u n i s1 view] doc ans none s' by simp
next

  fix s1
  assume a: "result (getCachedUserNode E u) s = None" "s1 = exec (getCachedUserNode E u) s"
    "result (getUserSession E u) s1 = None" "exec (queryUserNode E u) s = exec (getUserSession E u) s1"
  have "session_of (view (redisSrv s1)) u = None"
    using a(3) sessions_lookup(3) [OF doc ans, of u s1] by simp
  moreover have "userRouteCache s1 u = None" using getCachedUserNode_none [OF a(1)] a(2) by simp
  ultimately show ?thesis using sessions_lookup(1) [OF doc, of u s1] a(4) by (simp add: s')
qed

text \<open>
  The calls the rest of the server makes on its registry, and a history of them.
\<close>

datatype registry_call =
    QueryUser cint | ResolveUser cint | BindUser cint | UnbindUser cint | QueryNode string | ListNodes
  | Beat | Cleanup | Stop

primrec registry_run ::
  "('r, 'e) redis_env_scheme \<Rightarrow> registry_call \<Rightarrow> ('r, 'x) registry_state_scheme \<Rightarrow> ('r, 'x) registry_state_scheme" where
  "registry_run E (QueryUser u) s = exec (queryUserNode E u) s"
| "registry_run E (ResolveUser u) s = exec (resolveUserNode E u) s"
| "registry_run E (BindUser u) s = exec (bindUser E u) s"
| "registry_run E (UnbindUser u) s = exec (unbindUser E u) s"
| "registry_run E (QueryNode n) s = exec (queryNode E n) s"
| "registry_run E ListNodes s = exec (listNodes E) s"
| "registry_run E Beat s = exec (heartbeatTick E) s"
| "registry_run E Cleanup s = exec (cleanupSelf E) s"
| "registry_run E Stop s = exec stop s"

lemma stamped_run: "stamped E s \<Longrightarrow> stamped E (registry_run E c s)"
  by (cases c) (simp_all add: stamped_ops [THEN preservesD])

lemma stamped_init:
  assumes "userRouteCache s = Map.empty" and "nodeMetaCache s = Map.empty"
  shows "stamped E (exec (registry_init E self interval timeout) s)"
proof -
  have go: "preserves (stamped E) (modify (\<lambda>s. s\<lparr>running := True\<rparr>))"
    by (intro preserves_modify) (auto elim!: stamped_mono)
  have "preserves (stamped E) (do {
     cacheNode E self;
     ok \<leftarrow> registerNode E self (c_div timeout 1000 + 2);
     if ok then do { modify (\<lambda>s. s\<lparr>running := True\<rparr>); State_Monad.return True }
     else State_Monad.return False
   })" by (intro preserves stamped_ops go)
  moreover have "stamped E (s\<lparr>selfNode := self, heartbeatIntervalMs := interval, heartbeatTimeoutMs := timeout,
                   routeCacheTtlMs := clampTtl interval\<rparr>)"
    using assms by (simp add: stamped_def clampTtl_def)
  ultimately show ?thesis unfolding registry_init_def exec_bind [of "modify _"] exec_modify by (rule preservesD)
qed

lemma stamped_history:
  "stamped E s \<Longrightarrow> stamped E (fold (registry_run E) calls s)"
  by (rule fold_preserves) (simp_all add: stamped_run)

definition sampleRegistry :: "sample_redis registry_state" where
  "sampleRegistry = \<lparr>redisSrv = sampleStart, ticks = 0, cmdQueue = [], selfNode = emptyNodeMeta,
     heartbeatIntervalMs = 0, heartbeatTimeoutMs = 0, routeCacheTtlMs = 0, running = False,
     userRouteCache = Map.empty, nodeMetaCache = Map.empty\<rparr>"

text \<open>
  C29. The caches are never more than a second old. After initialisation and any history of
  calls, a route or a node description that a cache answers with was stored at a clock
  reading at most 1000 ms before the one of the answer, whatever heartbeat interval was
  configured.
\<close>

theorem cache_staleness:
  fixes s0 :: "('r, 'x) registry_state_scheme"
  assumes "userRouteCache s0 = Map.empty" and "nodeMetaCache s0 = Map.empty"
    and s: "s = fold (registry_run E) calls (exec (registry_init E self interval timeout) s0)"
  shows "(\<forall>u p. result (getCachedUserNode E u) s = Some p \<longrightarrow>
      (\<exists>e t. userRouteCache s u = Some e \<and> p = (ur_nodeId e, ur_instanceId e) \<and> t < ticks s \<and>
         ur_expireAtMs e = clock_ms E t + routeCacheTtlMs s \<and> clock_ms E (ticks s) \<le> clock_ms E t + 1000)) \<and>
    (\<forall>n m. result (getCachedNode E n) s = Some m \<longrightarrow>
      (\<exists>e t. nodeMetaCache s n = Some e \<and> m = nm_nodeMeta e \<and> t < ticks s \<and>
         nm_expireAtMs e = clock_ms E t + routeCacheTtlMs s \<and> clock_ms E (ticks s) \<le> clock_ms E t + 1000))"
proof -
  have st: "stamped E s" unfolding s by (intro stamped_history stamped_init assms)
  show ?thesis
  proof (intro conjI allI impI)
    fix u p
    assume "result (getCachedUserNode E u) s = Some p"
    then obtain e where e: "userRouteCache s u = Some e" "p = (ur_nodeId e, ur_instanceId e)"
      "clock_ms E (ticks s) \<le> ur_expireAtMs e"
      by (auto simp: run_getCachedUserNode split: option.splits if_splits)
    then obtain t where "t < ticks s" "ur_expireAtMs e = clock_ms E t + routeCacheTtlMs s"
      using st unfolding stamped_def by blast
    with e show "\<exists>e t. userRouteCache s u = Some e \<and> p = (ur_nodeId e, ur_instanceId e) \<and> t < ticks s \<and>
         ur_expireAtMs e = clock_ms E t + routeCacheTtlMs s \<and> clock_ms E (ticks s) \<le> clock_ms E t + 1000"
      using st by (intro exI [of _ e] exI [of _ t]) (simp add: stamped_def)
  next
    fix n m
    assume "result (getCachedNode E n) s = Some m"
    then obtain e where e: "nodeMetaCache s n = Some e" "m = nm_nodeMeta e"
      "clock_ms E (ticks s) \<le> nm_expireAtMs e"
      by (auto simp: run_getCachedNode split: option.splits if_splits)
    then obtain t where "t < ticks s" "nm_expireAtMs e = clock_ms E t + routeCacheTtlMs s"
      using st unfolding stamped_def by blast
    with e show "\<exists>e t. nodeMetaCache s n = Some e \<and> m = nm_nodeMeta e \<and> t < ticks s \<and>
         nm_expireAtMs e = clock_ms E t + routeCacheTtlMs s \<and> clock_ms E (ticks s) \<le> clock_ms E t + 1000"
      using st by (intro exI [of _ e] exI [of _ t]) (simp add: stamped_def)
  qed
qed

theorem cache_staleness_witness:
  "(\<exists>e t. nodeMetaCache (exec (registry_init sampleEnv sampleNode 5000 15000) sampleRegistry) ''10.0.0.1:6100'' = Some e \<and>
     nm_expireAtMs e = clock_ms sampleEnv t + 1000)"
proof -
  define s where "s = exec (registry_init sampleEnv sampleNode 5000 15000) sampleRegistry"
  have "result (getCachedNode sampleEnv ''10.0.0.1:6100'') s = Some sampleNode"
    by (simp add: s_def registry_init_def run_getCachedNode sampleNode_def sampleRegistry_def clampTtl_def
        clock_ms_def sampleEnv_def c_div_def registerNode_def sample_compute)
  moreover have "routeCacheTtlMs s = 1000"
    by (simp add: s_def registry_init_def clampTtl_def)
  moreover have empty: "userRouteCache sampleRegistry = Map.empty" "nodeMetaCache sampleRegistry = Map.empty"
    by (simp_all add: sampleRegistry_def)
  have "s = fold (registry_run sampleEnv) [] (exec (registry_init sampleEnv sampleNode 5000 15000) sampleRegistry)"
    by (simp add: s_def)
  note cache_staleness [OF empty this]
  ultimately show ?thesis unfolding s_def [symmetric] by metis
qed

lemma sample_env_ok: "redis_documented (redisCommand sampleEnv) sampleView" "answers (redisCommand sampleEnv)"
  by (simp_all add: sampleEnv_def sample_documented sample_answers)

text \<open>User 5 is online on \<open>sampleNode\<close>; user 6 has a session of a node that is gone.\<close>

definition sampleBusy :: "sample_redis registry_state" where
  "sampleBusy = sampleRegistry
     \<lparr>redisSrv := sampleStart\<lparr>sr_strs := [sessionKey 6 \<mapsto> sessionValue ''n9'' ''n9#1'']\<rparr>, selfNode := sampleNode,
      routeCacheTtlMs := 1000,
      userRouteCache := [5 \<mapsto> \<lparr>ur_nodeId = nodeId sampleNode, ur_instanceId = instanceId sampleNode, ur_expireAtMs = 1000\<rparr>],
      nodeMetaCache := [nodeId sampleNode \<mapsto> \<lparr>nm_nodeMeta = sampleNode, nm_expireAtMs = 1000\<rparr>]\<rparr>"

lemma sample_query_5: "result (queryUserNode sampleEnv 5) sampleBusy = Some (nodeId sampleNode)"
  by (simp add: queryUserNode_def queryNode_def run_getCachedUserNode exec_getCachedUserNode run_getCachedNode
      sampleBusy_def sampleRegistry_def clock_ms_def sampleEnv_def c_div_def instanceMatches_def)
    (simp add: sampleNode_def)

lemma sample_session_6:
  "result (getUserSession sampleEnv 6) sampleBusy = Some (''n9'', ''n9#1'')"
proof -
  have "c_str (sessionValue ''n9'' ''n9#1'') = sessionValue ''n9'' ''n9#1''"
    by (rule c_str_id) (simp add: sessionValue_def NUL_def)
  then show ?thesis
    by (simp add: getUserSession_def sampleBusy_def sampleEnv_def sampleRedis_def splitSession_sessionValue)
qed

lemma sample_query_6: "result (queryUserNode sampleEnv 6) sampleBusy = None"
proof -
  have miss: "run_state (getCachedUserNode sampleEnv 6) sampleBusy = (None, sampleBusy)"
    by (simp add: run_state_pair [of "getCachedUserNode _ _"] run_getCachedUserNode exec_getCachedUserNode sampleBusy_def sampleRegistry_def)
  have "result (queryNode sampleEnv ''n9'') (exec (cacheUserNode sampleEnv 6 ''n9'' ''n9#1'')
      (exec (getUserSession sampleEnv 6) sampleBusy)) = None"
    by (simp add: queryNode_def run_getCachedNode exec_getCachedNode getNode_def getUserSession_def sampleBusy_def
        sampleEnv_def sampleRedis_def sampleStart_def sampleRegistry_def sampleNode_def)
  then show ?thesis
    using miss by (simp add: queryUserNode_def result_def [of "getCachedUserNode sampleEnv 6"]
        exec_def [of "getCachedUserNode sampleEnv 6"] sample_session_6 instanceMatches_def dropStaleSession_def)
qed


theorem query_none_clean_witness:
  "session_of (sampleView (redisSrv (exec (queryUserNode sampleEnv 6) sampleBusy))) 6 = None"
proof -
  from query_none_clean [OF sample_env_ok sample_query_6 refl] show ?thesis by blast
qed

text \<open>
  A node finds its own users at once. When \<open>bindUser\<close> has succeeded and the node's own
  description is in the node cache (\<open>init\<close> and every heartbeat put it there), the next
  \<open>resolveUserNode\<close> for the user is answered from the two caches with this node, without a
  Redis command, as long as the entries have not expired.
\<close>

theorem bind_then_resolve:
  fixes s :: "('r, 'x) registry_state_scheme"
  assumes ok: "result (bindUser E u) s" and s': "s' = exec (bindUser E u) s"
    and self: "nodeMetaCache s (nodeId (selfNode s)) = Some e" "instanceId (nm_nodeMeta e) = instanceId (selfNode s)"
      "instanceId (selfNode s) \<noteq> ''''"
    and clock: "clock_ms E (ticks s') \<le> clock_ms E (ticks s' - 1) + routeCacheTtlMs s"
      "clock_ms E (Suc (ticks s')) \<le> nm_expireAtMs e"
  shows "result (resolveUserNode E u) s' = Some (nodeId (selfNode s), nm_nodeMeta e) \<and>
    redisSrv (exec (resolveUserNode E u) s') = redisSrv s'"
proof -
  define s1 where "s1 = exec (bindUserNode E u (nodeId (selfNode s)) (instanceId (selfNode s))) s"
  have bound: "result (bindUserNode E u (nodeId (selfNode s)) (instanceId (selfNode s))) s"
    using ok by (auto simp: bindUser_def split: if_splits)
  then have s'_eq: "s' = exec (cacheUserNode E u (nodeId (selfNode s)) (instanceId (selfNode s))) s1"
    by (simp add: s' bindUser_def s1_def)
  have ttl: "routeCacheTtlMs s1 = routeCacheTtlMs s" "nodeMetaCache s1 = nodeMetaCache s" by (simp_all add: s1_def)
  have route: "userRouteCache s' u = Some \<lparr>ur_nodeId = nodeId (selfNode s), ur_instanceId = instanceId (selfNode s),
      ur_expireAtMs = clock_ms E (ticks s' - 1) + routeCacheTtlMs s\<rparr>"
    and node: "nodeMetaCache s' (nodeId (selfNode s)) = Some e"
    using self(1) by (simp_all add: s'_eq ttl)
  have "result (getCachedUserNode E u) s' = Some (nodeId (selfNode s), instanceId (selfNode s))"
    and "exec (getCachedUserNode E u) s' = s'\<lparr>ticks := Suc (ticks s')\<rparr>"
    using clock(1) by (simp_all add: run_getCachedUserNode exec_getCachedUserNode route)
  moreover have "result (getCachedNode E (nodeId (selfNode s))) (s'\<lparr>ticks := Suc (ticks s')\<rparr>) = Some (nm_nodeMeta e)"
    and "redisSrv (exec (getCachedNode E (nodeId (selfNode s))) (s'\<lparr>ticks := Suc (ticks s')\<rparr>)) = redisSrv s'"
    using clock(2) by (simp_all add: run_getCachedNode exec_getCachedNode node)
  ultimately show ?thesis using self(2,3) by (simp add: resolveUserNode_def instanceMatches_def)
qed

lemma sample_rebind:
  "result (bindUser sampleEnv 7) sampleBusy \<and> ticks (exec (bindUser sampleEnv 7) sampleBusy) = 1"
  by (simp add: bindUser_def bindUserNode_def sampleBusy_def sampleEnv_def sampleRedis_def sampleStart_def
      sampleRegistry_def c_str_OK)

theorem bind_then_resolve_witness:
  "result (resolveUserNode sampleEnv 7) (exec (bindUser sampleEnv 7) sampleBusy) = Some (nodeId sampleNode, sampleNode)"
proof -
  have s: "selfNode sampleBusy = sampleNode" "routeCacheTtlMs sampleBusy = 1000"
    "nodeMetaCache sampleBusy (nodeId sampleNode) = Some \<lparr>nm_nodeMeta = sampleNode, nm_expireAtMs = 1000\<rparr>"
    by (simp_all add: sampleBusy_def)
  have "instanceId sampleNode \<noteq> ''''" by (simp add: sampleNode_def)
  then show ?thesis
    using bind_then_resolve [of sampleEnv 7 sampleBusy _ "\<lparr>nm_nodeMeta = sampleNode, nm_expireAtMs = 1000\<rparr>"] sample_rebind
    by (simp add: s clock_ms_def sampleEnv_def c_div_def)
qed

text \<open>What the shutdown leaves behind.\<close>

lemma getNodeUsers_exact:
  fixes s :: "('r, 'x) redis_state_scheme"
  assumes doc: "redis_documented (redisCommand E) view" and ans: "answers (redisCommand E)"
    and fin: "finite (v_sets (view (redisSrv s)) (nodeUsersKey n))"
  shows "set (result (getNodeUsers E n) s) = (\<lambda>x. atoi (c_str x)) ` v_sets (view (redisSrv s)) (nodeUsersKey n)"
proof -
  obtain reply r1 where run: "redisCommand E [''SMEMBERS'', nodeUsersKey n] (redisSrv s) = (reply, r1)" by fastforce
  obtain xs where "set xs = v_sets (view (redisSrv s)) (nodeUsersKey n)" using finite_list [OF fin] by blast
  from redis_step [OF doc smembers [OF this] run] answersD [OF ans run]
  obtain ys where ys: "set ys = v_sets (view (redisSrv s)) (nodeUsersKey n)" "reply = Some (RArray (map RString ys))"
    by (auto elim!: doc_smembers)
  have "List.map_filter reply_str (map RString ys) = map c_str ys"
    by (induction ys) (simp_all add: List.map_filter_simps)
  then show ?thesis using ys(1) by (simp add: getNodeUsers_def run ys(2) image_image)
qed

lemma unbind_all:
  fixes s :: "('r, 'x) registry_state_scheme" and n :: string
  assumes doc: "redis_documented (redisCommand E) view" and ans: "answers (redisCommand E)"
  shows "session_of (view (redisSrv (fold (\<lambda>u. exec (unbindUserNode E u n)) us s))) =
     (\<lambda>u. if u \<in> set us then None else session_of (view (redisSrv s)) u)"
proof (induction us arbitrary: s)
  case (Cons u us)
  then show ?case using sessions_unbind(2) [OF doc ans, of u n s] by (auto simp: fun_eq_iff)
qed simp

lemma unregister_sessions:
  fixes s :: "('r, 'x) redis_state_scheme"
  assumes doc: "redis_documented (redisCommand E) view"
    and gone: "session_of (view (redisSrv s)) u = None"
  shows "session_of (view (redisSrv (exec (unregisterNode E n) s))) u = None"
proof -
  have del: "session_of (view (snd (redisCommand E [''DEL'', k] r))) u = None"
    if "session_of (view r) u = None" for k r
    using that strs_step(4) [OF doc prod.collapse [symmetric] refl, of k r]
    by (cases "sessionKey u = k") (auto simp: session_of_def)
  have srem: "session_of (view (snd (redisCommand E [''SREM'', k, x] r))) u = None"
    if "session_of (view r) u = None" for k x r
    using that strs_step(6) [OF doc prod.collapse [symmetric] refl, of k x r]
    by (auto simp: session_of_def split: option.splits)
  show ?thesis using gone by (simp add: unregisterNode_def del srem)
qed

lemma smembers_sets:
  fixes s :: "('r, 'x) redis_state_scheme"
  assumes doc: "redis_documented (redisCommand E) view" and fin: "finite (v_sets (view (redisSrv s)) (nodeUsersKey n))"
  shows "v_sets (view (redisSrv (exec (getNodeUsers E n) s))) = v_sets (view (redisSrv s))"
proof -
  obtain reply r1 where run: "redisCommand E [''SMEMBERS'', nodeUsersKey n] (redisSrv s) = (reply, r1)" by fastforce
  obtain xs where "set xs = v_sets (view (redisSrv s)) (nodeUsersKey n)" using finite_list [OF fin] by blast
  from redis_step [OF doc smembers [OF this] run] show ?thesis
    by (auto simp: getNodeUsers_def run expired_def elim!: doc_smembers)
qed

lemma cleanup_gone:
  fixes s :: "('r, 'x) registry_state_scheme"
  assumes doc: "redis_documented (redisCommand E) view" and ans: "answers (redisCommand E)"
    and fin: "finite (v_sets (view (redisSrv s)) (nodeUsersKey (nodeId (selfNode s))))"
    and mem: "to_string u \<in> v_sets (view (redisSrv s)) (nodeUsersKey (nodeId (selfNode s)))"
    and s': "s' = exec (cleanupSelf E) s"
  shows "session_of (view (redisSrv s')) u = None \<and> userRouteCache s' = Map.empty \<and> nodeMetaCache s' = Map.empty"
proof -
  define n where "n = nodeId (selfNode s)"
  have "atoi (c_str (to_string u)) \<in> set (result (getNodeUsers E n) s)"
    unfolding getNodeUsers_exact [OF doc ans fin [folded n_def]] using mem by (auto simp: n_def)
  then have "u \<in> set (result (getNodeUsers E n) s)" by (simp add: c_str_id)
  then have "session_of (view (redisSrv (fold (\<lambda>u. exec (unbindUserNode E u n)) (result (getNodeUsers E n) s)
      (exec (getNodeUsers E n) s)))) u = None"
    by (simp add: unbind_all [OF doc ans])
  from unregister_sessions [OF doc this, of n] show ?thesis
    by (simp add: s' cleanupSelf_def n_def [symmetric])
qed

text \<open>
  A node that shuts down leaves no user behind: after \<open>cleanupSelf\<close>, with a Redis that
  answers, no user that was in the node's user set has a session, and both caches are empty.
\<close>

theorem cleanup_releases:
  fixes s :: "('r, 'x) registry_state_scheme"
  assumes doc: "redis_documented (redisCommand E) view" and ans: "answers (redisCommand E)"
    and fin: "finite (v_sets (view (redisSrv s)) (nodeUsersKey (nodeId (selfNode s))))"
    and mem: "to_string u \<in> v_sets (view (redisSrv s)) (nodeUsersKey (nodeId (selfNode s)))"
    and s': "s' = exec (cleanupSelf E) s"
  shows "session_of (view (redisSrv s')) u = None \<and> userRouteCache s' = Map.empty \<and> nodeMetaCache s' = Map.empty"
  using cleanup_gone [OF doc ans fin mem s'] .

theorem cleanup_releases_witness:
  "session_of (sampleView (redisSrv (exec (cleanupSelf sampleEnv) (exec (bindUser sampleEnv 7) sampleBusy)))) 7 = None"
proof -
  define s where "s = exec (bindUser sampleEnv 7) sampleBusy"
  have "v_sets (sampleView (redisSrv s)) (nodeUsersKey (nodeId (selfNode s))) = {to_string 7}"
    by (simp add: s_def bindUser_def bindUserNode_def sampleBusy_def sampleEnv_def sampleRedis_def sampleStart_def
      sampleRegistry_def c_str_OK sampleView_def)
  then show ?thesis
    using cleanup_releases [OF sample_env_ok, of s 7] by (simp add: s_def)
qed

section \<open>Frame\<close>

text \<open>
  The registry leaves the rest of the server alone: every operation but \<open>init\<close> keeps the
  whole extension of the state by the other components, and this node's identity.
\<close>

definition beyond_registry :: "('r, 'x) registry_state_scheme \<Rightarrow> 'x \<times> NodeMeta \<times> string list" where
  "beyond_registry s = (registry_state.more s, selfNode s, cmdQueue s)"

named_theorems registry_keeps "operations that keep what is beyond the registry"

lemma beyond_redis_only:
  fixes m :: "(('r, 'x) registry_state_scheme, 'a) state"
  assumes "redis_only m"
  shows "keeps beyond_registry m"
proof (rule keepsI)
  fix s :: "('r, 'x) registry_state_scheme"
  obtain srv t where "exec m s = s\<lparr>redisSrv := srv, ticks := t\<rparr>" by (rule redis_onlyE [OF assms])
  then show "beyond_registry (exec m s) = beyond_registry s" by (simp add: beyond_registry_def)
qed

lemmas beyond_redis_ops [registry_keeps] =
  redis_only_ops [THEN beyond_redis_only] redis_only_clock [THEN beyond_redis_only]

lemma beyond_caches [registry_keeps]:
  "keeps beyond_registry (getCachedUserNode E u)" "keeps beyond_registry (cacheUserNode E u n i)"
  "keeps beyond_registry (eraseCachedUserNode u)" "keeps beyond_registry (getCachedNode E n)"
  "keeps beyond_registry (cacheNode E m)" "keeps beyond_registry (eraseCachedNode n)"
  by (rule keepsI, simp add: exec_getCachedUserNode exec_getCachedNode beyond_registry_def split: option.split)+

lemma beyond_queryNode [registry_keeps]: "keeps beyond_registry (queryNode E n)"
  unfolding queryNode_def by (intro keeps registry_keeps)

lemma beyond_dropStaleSession [registry_keeps]: "keeps beyond_registry (dropStaleSession E u n)"
  unfolding dropStaleSession_def by (intro keeps registry_keeps)

lemma beyond_queryUserNode [registry_keeps]: "keeps beyond_registry (queryUserNode E u)"
  unfolding queryUserNode_def by (intro keeps registry_keeps)

lemma beyond_resolveUserNode [registry_keeps]: "keeps beyond_registry (resolveUserNode E u)"
  unfolding resolveUserNode_def by (intro keeps registry_keeps)

lemma beyond_bindUser [registry_keeps]:
  "keeps beyond_registry (bindUser E u)" "keeps beyond_registry (unbindUser E u)"
  unfolding bindUser_def unbindUser_def by (intro keeps registry_keeps)+

lemma beyond_queryNodes [registry_keeps]: "keeps beyond_registry (queryNodes E ns)"
proof (induction ns)
  case (Cons n ns)
  show ?case unfolding queryNodes.simps by (intro keeps registry_keeps Cons.IH)
qed (simp add: keeps)

lemma beyond_listNodes [registry_keeps]: "keeps beyond_registry (listNodes E)"
  unfolding listNodes_def by (intro keeps registry_keeps)

lemma beyond_cleanupSelf [registry_keeps]: "keeps beyond_registry (cleanupSelf E)" "keeps beyond_registry stop"
proof -
  have clear: "keeps beyond_registry (modify (\<lambda>s. s\<lparr>userRouteCache := Map.empty, nodeMetaCache := Map.empty\<rparr>))"
    by (rule keeps_modify) (simp add: beyond_registry_def)
  show "keeps beyond_registry (cleanupSelf E)"
    unfolding cleanupSelf_def by (intro keeps registry_keeps clear)
  show "keeps beyond_registry stop"
    unfolding stop_def by (rule keeps_modify) (simp add: beyond_registry_def)
qed

end
