(* ===== verification/ClusterRouter.thy ===== *)
theory ClusterRouter
  imports ShardChannel ClusterWire Config Json NodeRegistry
begin

text \<open>
  The class \<open>ClusterRouter\<close> (\<open>src/server/clusterrouter.cpp\<close>): the data plane. It keeps a
  table of channels, one per remote node and shard, creates them on demand, replaces those
  whose node has moved, and hands messages to them. The channels are shared objects, so they
  live in a store and are referred to by their index. The functions are called from threads
  that are not the I/O loops of the router, so \<open>runInLoop\<close> and \<open>queueInLoop\<close> both append to
  the queue of the loop; what the loop then does is \<open>runFunctor\<close>. How several threads
  interleave on one channel is the subject of \<open>ChannelThreads\<close>; here each function runs alone.
\<close>

section \<open>Environment and state\<close>

record 'r router_env = "'r redis_env" +
  stringHash :: "string \<Rightarrow> nat"
  jdump :: "json \<Rightarrow> string option"
  jparse :: "string \<Rightarrow> json option"

datatype loop_functor =
    ConnectChannel nat | DrainChannel nat | TeardownChannel nat "conn option"

text \<open>
  \<open>outbox\<close> records the calls of \<open>TcpConnection::send\<close> in order, \<open>dialled\<close> the channels on
  whose client \<open>connect\<close> was called, \<open>closedConns\<close> those of \<open>forceClose\<close>.
\<close>

record 'r router_state = "'r registry_state" +
  channels :: "ShardChannel list"
  connMap :: "(string \<times> nat) list"
  warmedNodeInstances :: "string \<rightharpoonup> string"
  routerConfig :: router_config
  ioLoops :: "loop_id list"
  baseLoop :: loop_id
  loopQueue :: "(loop_id \<times> loop_functor) list"
  connUp :: "conn \<Rightarrow> bool"
  outbox :: "(conn \<times> string) list"
  dialled :: "nat list"
  closedConns :: "conn list"

definition setChannel :: "nat \<Rightarrow> ShardChannel \<Rightarrow> ('r, 'x) router_state_scheme \<Rightarrow> ('r, 'x) router_state_scheme" where
  "setChannel i ch s = s\<lparr>channels := (channels s)[i := ch]\<rparr>"

definition queueInLoop :: "loop_id \<Rightarrow> loop_functor \<Rightarrow> (('r, 'x) router_state_scheme, unit) state" where
  "queueInLoop loop f = modify (\<lambda>s. s\<lparr>loopQueue := loopQueue s @ [(loop, f)]\<rparr>)"

definition connSend :: "conn \<Rightarrow> string \<Rightarrow> (('r, 'x) router_state_scheme, unit) state" where
  "connSend c message = modify (\<lambda>s. s\<lparr>outbox := outbox s @ [(c, message)]\<rparr>)"

section \<open>Names\<close>

definition sameEndpoint :: "NodeMeta \<Rightarrow> NodeMeta \<Rightarrow> bool" where
  "sameEndpoint lhs rhs \<longleftrightarrow> interIp lhs = interIp rhs \<and> interPort lhs = interPort rhs"

text \<open>
  \<open>static_cast<size_t>(userId >= 0 ? userId : -userId) % shardCount_\<close>. Negating \<open>INT_MIN\<close>
  overflows; on the two's complement machines the server runs on it stays \<open>INT_MIN\<close>.
\<close>

definition pickShard :: "nat \<Rightarrow> cint \<Rightarrow> nat" where
  "pickShard shardCount userId =
     (if shardCount = 0 then 0
      else unat (scast (if 0 \<le> sint userId then userId else - userId) :: 64 word) mod shardCount)"

definition makeChannelKey :: "string \<Rightarrow> nat \<Rightarrow> string" where
  "makeChannelKey nid shardIndex = nid @ ''#'' @ show_nat shardIndex"

section \<open>Channels\<close>

definition scheduleConnect :: "nat \<Rightarrow> (('r, 'x) router_state_scheme, unit) state" where
  "scheduleConnect i = do {
     ch \<leftarrow> gets (\<lambda>s. channels s ! i);
     queueInLoop (ioLoop ch) (ConnectChannel i)
   }"

definition drainPendingInLoop :: "nat \<Rightarrow> (('r, 'x) router_state_scheme, unit) state" where
  "drainPendingInLoop i = modify (\<lambda>s.
     let (sends, ch) = drainPending (connUp s) (channels s ! i)
     in (setChannel i ch s)\<lparr>outbox := outbox s @ sends\<rparr>)"

definition enqueueOrSend :: "nat \<Rightarrow> string \<Rightarrow> (('r, 'x) router_state_scheme, bool) state" where
  "enqueueOrSend i message = do {
     r \<leftarrow> State (\<lambda>s. let (r, ch) = enqueueLocked (connUp s) message (channels s ! i) in (r, setChannel i ch s));
     ch \<leftarrow> gets (\<lambda>s. channels s ! i);
     case r of
       Refused \<Rightarrow> State_Monad.return False
     | SendOn c \<Rightarrow> do { connSend c message; State_Monad.return True }
     | QueuedConnect \<Rightarrow> do { scheduleConnect i; State_Monad.return True }
     | QueuedDrain \<Rightarrow> do { queueInLoop (ioLoop ch) (DrainChannel i); State_Monad.return True }
     | QueuedOnly \<Rightarrow> State_Monad.return True
   }"

definition stopChannel :: "nat \<Rightarrow> (('r, 'x) router_state_scheme, unit) state" where
  "stopChannel i = do {
     ch \<leftarrow> gets (\<lambda>s. channels s ! i);
     modify (setChannel i (stopLocked ch));
     queueInLoop (ioLoop ch) (TeardownChannel i (connection ch))
   }"

text \<open>
  The second half of \<open>getOrCreateChannel\<close>: a new channel on one of the I/O loops, entered in
  the table unless another thread has entered one meanwhile.
\<close>

definition createChannel ::
  "('r, 'e) router_env_scheme \<Rightarrow> string \<Rightarrow> NodeMeta \<Rightarrow> (('r, 'x) router_state_scheme, nat) state" where
  "createChannel E channelKey meta = do {
     i \<leftarrow> gets (\<lambda>s. length (channels s));
     modify (\<lambda>s.
       let loop = (if ioLoops s = [] then baseLoop s
                   else ioLoops s ! (stringHash E channelKey mod length (ioLoops s)))
       in s\<lparr>channels := channels s @ [newShardChannel channelKey meta loop
                (rc_connectingQueueLimit (routerConfig s)) (rc_highWaterMark (routerConfig s))]\<rparr>);
     table \<leftarrow> gets connMap;
     case map_of table channelKey of
       Some j \<Rightarrow> do { stopChannel i; State_Monad.return j }
     | None \<Rightarrow> do {
         modify (\<lambda>s. s\<lparr>connMap := (channelKey, i) # connMap s\<rparr>);
         State_Monad.return i
       }
   }"

definition getOrCreateChannel ::
  "('r, 'e) router_env_scheme \<Rightarrow> NodeMeta \<Rightarrow> nat \<Rightarrow> (('r, 'x) router_state_scheme, nat) state" where
  "getOrCreateChannel E meta shardIndex = do {
     let channelKey = makeChannelKey (nodeId meta) shardIndex;
     table \<leftarrow> gets connMap;
     chs \<leftarrow> gets channels;
     case map_of table channelKey of
       None \<Rightarrow> createChannel E channelKey meta
     | Some i \<Rightarrow>
         if sameEndpoint (ch_nodeMeta (chs ! i)) meta then State_Monad.return i
         else do {
           modify (\<lambda>s. s\<lparr>connMap := filter (\<lambda>p. fst p \<noteq> channelKey) (connMap s)\<rparr>);
           stopChannel i;
           createChannel E channelKey meta
         }
   }"

definition sendInternalMessage ::
  "('r, 'e) router_env_scheme \<Rightarrow> NodeMeta \<Rightarrow> nat \<Rightarrow> string \<Rightarrow> (('r, 'x) router_state_scheme, bool) state" where
  "sendInternalMessage E meta shardIndex message = do {
     i \<leftarrow> getOrCreateChannel E meta shardIndex;
     enqueueOrSend i message
   }"

section \<open>The interface\<close>

definition sendOneChat ::
  "('r, 'e) router_env_scheme \<Rightarrow> NodeMeta \<Rightarrow> string \<Rightarrow> cint \<Rightarrow> string \<Rightarrow> string \<Rightarrow>
   (('r, 'x) router_state_scheme, bool) state" where
  "sendOneChat E meta fromNode toUser payload traceId = do {
     n \<leftarrow> gets (\<lambda>s. rc_shardCount (routerConfig s));
     if \<not> valid meta then State_Monad.return False
     else sendInternalMessage E meta (pickShard n toUser) (oneChatFrame toUser payload)
   }"

text \<open>The JSON object keeps its members sorted by name. \<open>None\<close>: \<open>dump\<close> has thrown.\<close>

definition groupChatJson :: "string \<Rightarrow> string \<Rightarrow> cint list \<Rightarrow> string \<Rightarrow> string \<Rightarrow> json" where
  "groupChatJson fromNode toNode toUsers payload traceId =
     JObj [(''fromNode'', JStr fromNode), (''msgId'', JI (msg_code NODE_ROUTE_GROUP_CHAT_MSG)),
           (''payload'', JStr payload), (''toNode'', JStr toNode), (''toUsers'', JInts toUsers),
           (''traceId'', JStr traceId)]"

definition sendGroupChat ::
  "('r, 'e) router_env_scheme \<Rightarrow> NodeMeta \<Rightarrow> string \<Rightarrow> cint list \<Rightarrow> string \<Rightarrow> string \<Rightarrow>
   (('r, 'x) router_state_scheme, bool option) state" where
  "sendGroupChat E meta fromNode toUsers payload traceId = do {
     n \<leftarrow> gets (\<lambda>s. rc_shardCount (routerConfig s));
     if \<not> valid meta then State_Monad.return (Some False)
     else
       let shardIndex = (case toUsers of [] \<Rightarrow> 0 | u # _ \<Rightarrow> pickShard n u) in
       case jdump E (groupChatJson fromNode (nodeId meta) toUsers payload traceId) of
         None \<Rightarrow> State_Monad.return None
       | Some text \<Rightarrow> do {
           ok \<leftarrow> sendInternalMessage E meta shardIndex (text @ [NUL]);
           State_Monad.return (Some ok)
         }
   }"

definition prewarmShard ::
  "('r, 'e) router_env_scheme \<Rightarrow> NodeMeta \<Rightarrow> nat \<Rightarrow> (('r, 'x) router_state_scheme, unit) state" where
  "prewarmShard E meta shardIndex = do {
     i \<leftarrow> getOrCreateChannel E meta shardIndex;
     s \<leftarrow> gets (\<lambda>s. s);
     let ch = channels s ! i;
     do_when (\<not> closing ch \<and> \<not> isConnected (connUp s) ch \<and> \<not> connecting ch) (do {
       modify (setChannel i (ch\<lparr>connecting := True\<rparr>));
       scheduleConnect i
     })
   }"

definition prewarmNode ::
  "('r, 'e) router_env_scheme \<Rightarrow> NodeMeta \<Rightarrow> (('r, 'x) router_state_scheme, unit) state" where
  "prewarmNode E meta = do {
     warmed \<leftarrow> gets warmedNodeInstances;
     n \<leftarrow> gets (\<lambda>s. rc_shardCount (routerConfig s));
     do_when (valid meta \<and> warmed (nodeId meta) \<noteq> Some (instanceId meta)) (do {
       modify (\<lambda>s. s\<lparr>warmedNodeInstances := (warmedNodeInstances s)(nodeId meta \<mapsto> instanceId meta)\<rparr>);
       for_each [0..<n] (prewarmShard E meta)
     })
   }"

definition closeAll :: "(('r, 'x) router_state_scheme, unit) state" where
  "closeAll = do {
     table \<leftarrow> gets connMap;
     modify (\<lambda>s. s\<lparr>connMap := []\<rparr>);
     for_each (map snd table) stopChannel
   }"

text \<open>\<open>ClusterRouter::ClusterRouter\<close>: the settings and the loops of its own thread pool.\<close>

definition router_init ::
  "environment \<Rightarrow> loop_id \<Rightarrow> loop_id list \<Rightarrow> (('r, 'x) router_state_scheme, unit) state" where
  "router_init env base pool = modify (\<lambda>s. s\<lparr>channels := [], connMap := [], warmedNodeInstances := Map.empty,
     routerConfig := routerConfigOf env, ioLoops := (if pool = [] then [base] else pool), baseLoop := base\<rparr>)"

section \<open>The callbacks and the functors\<close>

definition handleConnection ::
  "nat \<Rightarrow> conn \<Rightarrow> (('r, 'x) router_state_scheme, unit) state" where
  "handleConnection i c = do {
     s \<leftarrow> gets (\<lambda>s. s);
     if connUp s c then do {
       modify (setChannel i (channelUp c (channels s ! i)));
       drainPendingInLoop i
     }
     else modify (setChannel i (channelDown (channels s ! i)))
   }"

definition handleWriteComplete :: "nat \<Rightarrow> (('r, 'x) router_state_scheme, unit) state" where
  "handleWriteComplete i = do {
     modify (\<lambda>s. setChannel i (writeCompleteLocked (channels s ! i)) s);
     drainPendingInLoop i
   }"

definition handleHighWaterMark :: "nat \<Rightarrow> (('r, 'x) router_state_scheme, unit) state" where
  "handleHighWaterMark i = modify (\<lambda>s. setChannel i (highWaterLocked (channels s ! i)) s)"

fun runFunctor :: "loop_functor \<Rightarrow> (('r, 'x) router_state_scheme, unit) state" where
  "runFunctor (ConnectChannel i) = modify (\<lambda>s.
     let (dial, ch) = connectTask (connUp s) (channels s ! i)
     in (setChannel i ch s)\<lparr>dialled := dialled s @ (if dial then [i] else [])\<rparr>)"
| "runFunctor (DrainChannel i) = drainPendingInLoop i"
| "runFunctor (TeardownChannel i co) = modify (\<lambda>s.
     (setChannel i ((channels s ! i)\<lparr>client := False\<rparr>) s)
       \<lparr>closedConns := closedConns s @ (case co of None \<Rightarrow> [] | Some c \<Rightarrow> [c]),
        connUp := (case co of None \<Rightarrow> connUp s | Some c \<Rightarrow> (connUp s)(c := False))\<rparr>)"

section \<open>Effects\<close>

lemma setChannel_simps [simp]:
  "channels (setChannel i ch s) = (channels s)[i := ch]" "connMap (setChannel i ch s) = connMap s"
  "outbox (setChannel i ch s) = outbox s" "connUp (setChannel i ch s) = connUp s"
  "routerConfig (setChannel i ch s) = routerConfig s" "ioLoops (setChannel i ch s) = ioLoops s"
  "baseLoop (setChannel i ch s) = baseLoop s" "loopQueue (setChannel i ch s) = loopQueue s"
  "warmedNodeInstances (setChannel i ch s) = warmedNodeInstances s"
  by (simp_all add: setChannel_def)

lemma exec_queueInLoop [simp]: "exec (queueInLoop loop f) s = s\<lparr>loopQueue := loopQueue s @ [(loop, f)]\<rparr>"
  by (simp add: queueInLoop_def)

lemma exec_connSend [simp]: "exec (connSend c m) s = s\<lparr>outbox := outbox s @ [(c, m)]\<rparr>"
  by (simp add: connSend_def)

lemma exec_stopChannel [simp]:
  "exec (stopChannel i) s = (setChannel i (stopLocked (channels s ! i)) s)
     \<lparr>loopQueue := loopQueue s @ [(ioLoop (channels s ! i), TeardownChannel i (connection (channels s ! i)))]\<rparr>"
  by (simp add: stopChannel_def)

lemma exec_scheduleConnect [simp]:
  "exec (scheduleConnect i) s = s\<lparr>loopQueue := loopQueue s @ [(ioLoop (channels s ! i), ConnectChannel i)]\<rparr>"
  by (simp add: scheduleConnect_def)

section \<open>The invariant of the channel table\<close>

definition channel_ok :: "ShardChannel \<Rightarrow> bool" where
  "channel_ok ch \<longleftrightarrow> length (pending ch) \<le> pendingLimit ch \<and> (closing ch \<longrightarrow> pending ch = [])"

definition router_inv :: "('r, 'x) router_state_scheme \<Rightarrow> bool" where
  "router_inv s \<longleftrightarrow>
     distinct (map fst (connMap s)) \<and>
     (\<forall>(k, i) \<in> set (connMap s). i < length (channels s) \<and> channelId (channels s ! i) = k \<and>
        \<not> closing (channels s ! i)) \<and>
     list_all channel_ok (channels s)"

lemma router_invD:
  assumes "router_inv s" and "map_of (connMap s) k = Some i"
  shows "i < length (channels s)" "channelId (channels s ! i) = k" "\<not> closing (channels s ! i)" "channel_ok (channels s ! i)"
  using assms by (auto simp: router_inv_def list_all_length dest!: map_of_SomeD)

text \<open>A step on one channel that keeps its name, its bound and whether it is open.\<close>

lemma inv_setChannel:
  assumes "router_inv s" and "channelId ch = channelId (channels s ! i)"
    and "closing ch = closing (channels s ! i)" and "channel_ok ch"
  shows "router_inv (setChannel i ch s)"
  unfolding router_inv_def
proof (intro conjI ballI, goal_cases)
  case (2 p)
  obtain k j where p: "p = (k, j)" by fastforce
  with 2 assms(1) have "j < length (channels s)" "channelId (channels s ! j) = k" "\<not> closing (channels s ! j)"
    by (auto simp: router_inv_def)
  with p assms(2,3) show ?case by (auto simp: nth_update)
qed (use assms in \<open>auto simp: router_inv_def nth_update list_all_length\<close>)

lemma inv_frame:
  assumes "router_inv s" and "channels s' = channels s" and "connMap s' = connMap s"
  shows "router_inv s'"
  using assms by (simp add: router_inv_def)

lemma router_inv_upd [simp]:
  "router_inv (s\<lparr>outbox := a\<rparr>) = router_inv s" "router_inv (s\<lparr>loopQueue := b\<rparr>) = router_inv s"
  "router_inv (s\<lparr>dialled := c\<rparr>) = router_inv s" "router_inv (s\<lparr>closedConns := d, connUp := e\<rparr>) = router_inv s"
  "router_inv (s\<lparr>warmedNodeInstances := f\<rparr>) = router_inv s"
  by (simp_all add: router_inv_def)

lemma enqueueLocked_ok:
  assumes "channel_ok ch"
  shows "channel_ok (snd (enqueueLocked up m ch))" "channelId (snd (enqueueLocked up m ch)) = channelId ch"
    "closing (snd (enqueueLocked up m ch)) = closing ch" "connection (snd (enqueueLocked up m ch)) = connection ch"
    "ch_nodeMeta (snd (enqueueLocked up m ch)) = ch_nodeMeta ch" "pendingLimit (snd (enqueueLocked up m ch)) = pendingLimit ch"
  using assms by (auto simp: enqueueLocked_def channel_ok_def Let_def)

lemma drainPending_kept:
  "channelId (snd (drainPending up ch)) = channelId ch \<and> closing (snd (drainPending up ch)) = closing ch \<and>
   pendingLimit (snd (drainPending up ch)) = pendingLimit ch \<and>
   length (pending (snd (drainPending up ch))) \<le> length (pending ch)"
proof (cases "\<not> closing ch \<and> \<not> isOverloaded ch \<and> isConnected up ch")
  case True
  then obtain c where "connection ch = Some c" "up c" by (auto simp: isConnected_def split: option.splits)
  with True show ?thesis by (simp add: drainPending_all)
next
  case False
  then have "drainPending up ch = ([], ch)" by (intro drainPending_blocked) auto
  then show ?thesis by simp
qed

lemma drainPending_ok: "channel_ok ch \<Longrightarrow> channel_ok (snd (drainPending up ch))"
  using drainPending_kept [of up ch] unfolding channel_ok_def by (metis le_trans length_0_conv le_zero_eq)

lemma inv_enqueueOrSend:
  assumes inv: "router_inv s" and i: "i < length (channels s)"
  shows "router_inv (exec (enqueueOrSend i m) s)"
proof -
  have ok: "channel_ok (channels s ! i)" using inv i by (simp add: router_inv_def list_all_length)
  define s1 where "s1 = setChannel i (snd (enqueueLocked (connUp s) m (channels s ! i))) s"
  have s1: "router_inv s1" unfolding s1_def by (rule inv_setChannel [OF inv]) (simp_all add: enqueueLocked_ok [OF ok])
  have "channels (exec (enqueueOrSend i m) s) = channels s1 \<and> connMap (exec (enqueueOrSend i m) s) = connMap s1"
    by (cases "fst (enqueueLocked (connUp s) m (channels s ! i))")
      (simp_all add: enqueueOrSend_def s1_def result_def [of "State _"] exec_def [of "State _"] split_beta)
  then show ?thesis using s1 inv_frame by blast
qed

lemma inv_stopUnlisted:
  assumes "router_inv s" and "i \<notin> snd ` set (connMap s)"
  shows "router_inv (exec (stopChannel i) s)"
proof -
  have stop: "channel_ok (stopLocked ch)" "channelId (stopLocked ch) = channelId ch" for ch
    by (simp_all add: channel_ok_def stopLocked_def)
  have other: "(channels s)[i := ch] ! j = channels s ! j" if "(k, j) \<in> set (connMap s)" for k j ch
    using assms(2) that by (auto simp: image_iff intro!: nth_list_update_neq)
  show ?thesis
    using assms(1) stop other unfolding router_inv_def
    by (auto simp: list_all_length nth_update)
qed

section \<open>Finding a channel\<close>

text \<open>What is fixed while channels are looked up, created and replaced.\<close>

definition same_traffic :: "('r, 'x) router_state_scheme \<Rightarrow> ('r, 'x) router_state_scheme \<Rightarrow> bool" where
  "same_traffic s s' \<longleftrightarrow> outbox s' = outbox s \<and> connUp s' = connUp s \<and> routerConfig s' = routerConfig s \<and>
     ioLoops s' = ioLoops s \<and> baseLoop s' = baseLoop s"

lemma same_traffic_refl [simp]: "same_traffic s s"
  by (simp add: same_traffic_def)

lemma same_traffic_trans: "same_traffic s t \<Longrightarrow> same_traffic t u \<Longrightarrow> same_traffic s u"
  by (simp add: same_traffic_def)

definition freshChannel :: "('r, 'e) router_env_scheme \<Rightarrow> string \<Rightarrow> NodeMeta \<Rightarrow> ('r, 'x) router_state_scheme \<Rightarrow> ShardChannel" where
  "freshChannel E key meta s = newShardChannel key meta
     (if ioLoops s = [] then baseLoop s else ioLoops s ! (stringHash E key mod length (ioLoops s)))
     (rc_connectingQueueLimit (routerConfig s)) (rc_highWaterMark (routerConfig s))"

lemma createChannel_new:
  assumes "map_of (connMap s) key = None"
  shows "result (createChannel E key meta) s = length (channels s)"
    and "exec (createChannel E key meta) s = s\<lparr>channels := channels s @ [freshChannel E key meta s],
           connMap := (key, length (channels s)) # connMap s\<rparr>"
  using assms by (simp_all add: createChannel_def freshChannel_def Let_def)

lemma freshChannel_simps [simp]:
  "channelId (freshChannel E key meta s) = key" "ch_nodeMeta (freshChannel E key meta s) = meta"
  "pending (freshChannel E key meta s) = []" "connection (freshChannel E key meta s) = None"
  "closing (freshChannel E key meta s) = False" "connecting (freshChannel E key meta s) = False"
  "isOverloaded (freshChannel E key meta s) = False" "client (freshChannel E key meta s) = False"
  "pendingLimit (freshChannel E key meta s) = rc_connectingQueueLimit (routerConfig s)"
  by (simp_all add: freshChannel_def newShardChannel_def)

lemma inv_createChannel:
  assumes "router_inv s" and new: "map_of (connMap s) key = None"
  shows "router_inv (exec (createChannel E key meta) s)"
proof -
  have "channel_ok (freshChannel E key meta s)" by (simp add: channel_ok_def)
  moreover have "key \<notin> fst ` set (connMap s)" using new by (simp add: map_of_eq_None_iff)
  ultimately show ?thesis
    using assms(1) unfolding router_inv_def createChannel_new(2) [OF new]
    by (auto simp: nth_append)
qed

text \<open>Dropping a channel from the table and stopping it.\<close>

lemma inv_dropChannel:
  assumes inv: "router_inv s" and key: "map_of (connMap s) key = Some i"
  defines "t \<equiv> exec (stopChannel i) (s\<lparr>connMap := filter (\<lambda>p. fst p \<noteq> key) (connMap s)\<rparr>)"
  shows "router_inv t" and "map_of (connMap t) key = None"
proof -
  let ?s = "s\<lparr>connMap := filter (\<lambda>p. fst p \<noteq> key) (connMap s)\<rparr>"
  have "router_inv ?s" using inv by (auto simp: router_inv_def distinct_map_filter)
  moreover have "channelId (channels s ! i) = a" if "(a, i) \<in> set (connMap s)" for a
    using inv that by (auto simp: router_inv_def)
  then have "a = key" if "(a, i) \<in> set (connMap s)" for a
    using that map_of_SomeD [OF key] by metis
  then have "i \<notin> snd ` set (connMap ?s)" by auto
  ultimately show "router_inv t" unfolding t_def by (rule inv_stopUnlisted)
  show "map_of (connMap t) key = None" by (auto simp: t_def map_of_eq_None_iff)
qed

lemma getOrCreateChannel_cases:
  fixes s :: "('r, 'x) router_state_scheme" and E :: "('r, 'e) router_env_scheme" and meta :: NodeMeta and k :: nat
  assumes "router_inv s"
  defines "key \<equiv> makeChannelKey (nodeId meta) k"
  obtains (found) i where "map_of (connMap s) key = Some i" "sameEndpoint (ch_nodeMeta (channels s ! i)) meta"
      "result (getOrCreateChannel E meta k) s = i" "exec (getOrCreateChannel E meta k) s = s"
  | (created) t where "router_inv t" "map_of (connMap t) key = None" "same_traffic s t"
      "result (getOrCreateChannel E meta k) s = length (channels t)"
      "exec (getOrCreateChannel E meta k) s = exec (createChannel E key meta) t"
proof (cases "map_of (connMap s) key")
  case None
  then show ?thesis
    by (intro created [of s])
      (simp_all add: assms(1) getOrCreateChannel_def key_def [symmetric] Let_def createChannel_new [OF None])
next
  case (Some i)
  show ?thesis
  proof (cases "sameEndpoint (ch_nodeMeta (channels s ! i)) meta")
    case True
    with Some show ?thesis
      by (intro found) (simp_all add: getOrCreateChannel_def key_def [symmetric] Let_def)
  next
    case False
    define t where "t = exec (stopChannel i) (s\<lparr>connMap := filter (\<lambda>p. fst p \<noteq> key) (connMap s)\<rparr>)"
    note t = inv_dropChannel [OF assms(1) Some, folded t_def]
    show ?thesis
    proof (rule created [OF t])
      show "same_traffic s t" by (simp add: t_def same_traffic_def)
      show "exec (getOrCreateChannel E meta k) s = exec (createChannel E key meta) t"
        using Some False
        by (simp add: getOrCreateChannel_def key_def [symmetric] Let_def t_def del: exec_stopChannel)
      have "result (getOrCreateChannel E meta k) s = result (createChannel E key meta) t"
        using Some False
        by (simp add: getOrCreateChannel_def key_def [symmetric] Let_def t_def del: exec_stopChannel)
      then show "result (getOrCreateChannel E meta k) s = length (channels t)"
        by (simp add: createChannel_new(1) [OF t(2)])

    qed
  qed
qed

lemma getOrCreateChannel_post:
  fixes s :: "('r, 'x) router_state_scheme" and E :: "('r, 'e) router_env_scheme" and meta :: NodeMeta and k :: nat
  assumes "router_inv s"
  defines "s' \<equiv> exec (getOrCreateChannel E meta k) s" and "i \<equiv> result (getOrCreateChannel E meta k) s"
  shows "router_inv s'" "map_of (connMap s') (makeChannelKey (nodeId meta) k) = Some i"
    "sameEndpoint (ch_nodeMeta (channels s' ! i)) meta" "same_traffic s s'"
proof -
  have "router_inv s' \<and> map_of (connMap s') (makeChannelKey (nodeId meta) k) = Some i \<and>
    sameEndpoint (ch_nodeMeta (channels s' ! i)) meta \<and> same_traffic s s'"
  proof (rule getOrCreateChannel_cases [OF assms(1), of meta k E])
    fix j
    assume "map_of (connMap s) (makeChannelKey (nodeId meta) k) = Some j"
      "sameEndpoint (ch_nodeMeta (channels s ! j)) meta"
      "result (getOrCreateChannel E meta k) s = j" "exec (getOrCreateChannel E meta k) s = s"
    then show ?thesis using assms(1) by (simp add: s'_def i_def)
  next
    fix t
    assume t: "router_inv t" "map_of (connMap t) (makeChannelKey (nodeId meta) k) = None" "same_traffic s t"
      "result (getOrCreateChannel E meta k) s = length (channels t)"
      "exec (getOrCreateChannel E meta k) s = exec (createChannel E (makeChannelKey (nodeId meta) k) meta) t"
    have "same_traffic t s'" by (simp add: s'_def t(5) createChannel_new(2) [OF t(2)] same_traffic_def)
    then show ?thesis
      using t inv_createChannel [OF t(1,2), of E meta] same_traffic_trans [OF t(3)]
      by (simp add: s'_def i_def createChannel_new(2) [OF t(2)] sameEndpoint_def)
  qed
  then show "router_inv s'" "map_of (connMap s') (makeChannelKey (nodeId meta) k) = Some i"
    "sameEndpoint (ch_nodeMeta (channels s' ! i)) meta" "same_traffic s s'" by auto
qed

section \<open>Every operation keeps the channel table\<close>

lemma inv_modify_frame:
  "(\<And>s. channels (f s) = channels s \<and> connMap (f s) = connMap s) \<Longrightarrow> preserves router_inv (modify f)"
  by (rule preserves_modify) (auto intro: inv_frame)

lemma inv_sendInternalMessage:
  fixes E :: "('r, 'e) router_env_scheme"
  shows "preserves router_inv (sendInternalMessage E meta k m :: (('r, 'x) router_state_scheme, _) state)"
proof (rule preservesI)
  fix s :: "('r, 'x) router_state_scheme"
  assume inv: "router_inv s"
  note post = getOrCreateChannel_post [OF inv, of E meta k]
  show "router_inv (exec (sendInternalMessage E meta k m) s)"
    unfolding sendInternalMessage_def exec_bind
    by (rule inv_enqueueOrSend [OF post(1) router_invD(1) [OF post(1,2)]])
qed

lemma inv_sendOneChat: "preserves router_inv (sendOneChat E meta fromNode u p t)"
  unfolding sendOneChat_def by (intro preserves inv_sendInternalMessage)

lemma inv_sendGroupChat: "preserves router_inv (sendGroupChat E meta fromNode us p t)"
  unfolding sendGroupChat_def Let_def by (intro preserves inv_sendInternalMessage)

lemma inv_prewarmShard:
  fixes E :: "('r, 'e) router_env_scheme"
  shows "preserves router_inv (prewarmShard E meta k :: (('r, 'x) router_state_scheme, _) state)"
proof (rule preservesI)
  fix s :: "('r, 'x) router_state_scheme"
  assume inv: "router_inv s"
  define s1 where "s1 = exec (getOrCreateChannel E meta k) s"
  define i where "i = result (getOrCreateChannel E meta k) s"
  note post = getOrCreateChannel_post [OF inv, of E meta k, folded s1_def i_def]
  note ch = router_invD [OF post(1,2)]
  have "router_inv (setChannel i ((channels s1 ! i)\<lparr>connecting := True\<rparr>) s1)"
    by (rule inv_setChannel [OF post(1)]) (use ch(4) in \<open>simp_all add: channel_ok_def\<close>)
  then show "router_inv (exec (prewarmShard E meta k) s)"
    using post(1) by (auto simp: prewarmShard_def Let_def s1_def [symmetric] i_def [symmetric] intro: inv_frame)
qed

lemma inv_prewarmNode: "preserves router_inv (prewarmNode E meta)"
  unfolding prewarmNode_def by (intro preserves inv_prewarmShard inv_modify_frame) auto

lemma inv_stopAll:
  "router_inv s \<Longrightarrow> (\<And>i. i \<in> set is \<Longrightarrow> i \<notin> snd ` set (connMap s)) \<Longrightarrow>
   router_inv (fold (\<lambda>i. exec (stopChannel i)) is s)"
proof (induction "is" arbitrary: s)
  case (Cons i "is")
  then have "router_inv (exec (stopChannel i) s)" by (intro inv_stopUnlisted) auto
  then show ?case using Cons by (simp del: exec_stopChannel) (simp add: Cons.IH)
qed simp

lemma inv_closeAll: "preserves router_inv closeAll"
proof (rule preservesI)
  fix s :: "('r, 'x) router_state_scheme"
  assume "router_inv s"
  then have "router_inv (s\<lparr>connMap := []\<rparr>)" by (simp add: router_inv_def)
  then show "router_inv (exec closeAll s)"
    unfolding closeAll_def by (simp add: inv_stopAll del: exec_stopChannel)
qed

lemma inv_channelBlock:
  assumes "\<And>ch. channelId (f ch) = channelId ch \<and> closing (f ch) = closing ch \<and> (channel_ok ch \<longrightarrow> channel_ok (f ch))"
  shows "router_inv s \<Longrightarrow> router_inv (setChannel i (f (channels s ! i)) s)"
proof -
  assume inv: "router_inv s"
  show ?thesis
  proof (cases "i < length (channels s)")
    case True
    then have "channel_ok (channels s ! i)" using inv by (simp add: router_inv_def list_all_length)
    with assms show ?thesis by (intro inv_setChannel [OF inv]) auto
  next
    case False
    then have "(channels s)[i := f (channels s ! i)] = channels s" by (simp add: list_update_beyond)
    then show ?thesis using inv by (intro inv_frame [OF inv]) simp_all
  qed
qed

lemma inv_drainPendingInLoop: "preserves router_inv (drainPendingInLoop i)"
proof (rule preservesI)
  fix s :: "('r, 'x) router_state_scheme"
  assume "router_inv s"
  then have "router_inv (setChannel i (snd (drainPending (connUp s) (channels s ! i))) s)"
    by (rule inv_channelBlock [rotated]) (simp add: drainPending_kept drainPending_ok)
  then show "router_inv (exec (drainPendingInLoop i) s)"
    by (auto simp: drainPendingInLoop_def split_beta Let_def intro: inv_frame)
qed

lemma inv_callbacks:
  "preserves router_inv (handleConnection i c)" "preserves router_inv (handleWriteComplete i)"
  "preserves router_inv (handleHighWaterMark i)" "preserves router_inv (runFunctor f)"
proof -
  have block: "router_inv s \<Longrightarrow> router_inv (setChannel i (f (channels s ! i)) s)"
    if "f \<in> {channelUp c, channelDown, writeCompleteLocked, highWaterLocked}" for f and s :: "('r, 'x) router_state_scheme"
    by (rule inv_channelBlock)
      (use that in \<open>auto simp: channelUp_def channelDown_def writeCompleteLocked_def highWaterLocked_def channel_ok_def\<close>)
  show "preserves router_inv (handleWriteComplete i)" unfolding handleWriteComplete_def
    by (intro preserves inv_drainPendingInLoop preserves_modify block) auto
  show "preserves router_inv (handleHighWaterMark i)" unfolding handleHighWaterMark_def
    by (intro preserves_modify block) auto
  show "preserves router_inv (handleConnection i c)"
  proof (rule preservesI)
    fix s :: "('r, 'x) router_state_scheme"
    assume "router_inv s"
    then show "router_inv (exec (handleConnection i c) s)"
      by (simp add: handleConnection_def block preservesD [OF inv_drainPendingInLoop])
  qed
  show "preserves router_inv (runFunctor f)"
  proof (cases f)
    case (ConnectChannel j)
    have "router_inv (setChannel j (snd (connectTask (connUp s) (channels s ! j))) s)"
      if "router_inv s" for s :: "('r, 'x) router_state_scheme"
      using that by (rule inv_channelBlock [rotated])
        (simp add: connectTask_def ensureClientInLoop_def Let_def channel_ok_def)
    then show ?thesis unfolding ConnectChannel runFunctor.simps
      by (intro preserves_modify) (simp add: split_beta Let_def)
  next
    case (TeardownChannel j co)
    have "router_inv (setChannel j ((channels s ! j)\<lparr>client := False\<rparr>) s)"
      if "router_inv s" for s :: "('r, 'x) router_state_scheme"
      using that by (rule inv_channelBlock [rotated]) (simp add: channel_ok_def)
    then show ?thesis unfolding TeardownChannel runFunctor.simps
      by (intro preserves_modify) simp
  qed (simp_all add: preserves inv_drainPendingInLoop)
qed

section \<open>What a send does\<close>

lemma enqueueOrSend_run:
  fixes s :: "('r, 'x) router_state_scheme" and m :: string
  assumes "i < length (channels s)"
  defines "r \<equiv> fst (enqueueLocked (connUp s) m (channels s ! i))"
    and "ch \<equiv> snd (enqueueLocked (connUp s) m (channels s ! i))"
  shows "result (enqueueOrSend i m) s = (r \<noteq> Refused)"
    and "channels (exec (enqueueOrSend i m) s) = (channels s)[i := ch]"
    and "connMap (exec (enqueueOrSend i m) s) = connMap s"
    and "connUp (exec (enqueueOrSend i m) s) = connUp s"
    and "routerConfig (exec (enqueueOrSend i m) s) = routerConfig s"
    and "outbox (exec (enqueueOrSend i m) s) = outbox s @ (case r of SendOn c \<Rightarrow> [(c, m)] | _ \<Rightarrow> [])"
  using assms(1) unfolding r_def ch_def
  by (cases "fst (enqueueLocked (connUp s) m (channels s ! i))";
      simp add: enqueueOrSend_def result_def [of "State _"] exec_def [of "State _"] split_beta)+

lemma sendOneChat_unfold:
  assumes "valid meta"
  shows "result (sendOneChat E meta fromNode u p t) s =
      result (sendInternalMessage E meta (pickShard (rc_shardCount (routerConfig s)) u) (oneChatFrame u p)) s"
    and "exec (sendOneChat E meta fromNode u p t) s =
      exec (sendInternalMessage E meta (pickShard (rc_shardCount (routerConfig s)) u) (oneChatFrame u p)) s"
  using assms by (simp_all add: sendOneChat_def)

text \<open>A channel that is not connected yet keeps what it is given.\<close>

lemma enqueue_waiting:
  assumes "\<not> closing ch" and "\<not> isConnected up ch" and "length (pending ch) < pendingLimit ch"
  shows "fst (enqueueLocked up m ch) \<noteq> Refused \<and> (\<forall>c. fst (enqueueLocked up m ch) \<noteq> SendOn c) \<and>
    snd (enqueueLocked up m ch) = ch\<lparr>pending := pending ch @ [m], connecting := True\<rparr>"
  using assms by (auto simp: enqueueLocked_def Let_def isConnected_def split: option.split)

definition waiting :: "('r, 'x) router_state_scheme \<Rightarrow> NodeMeta \<Rightarrow> nat \<Rightarrow> nat \<Rightarrow> bool" where
  "waiting s meta k i \<longleftrightarrow>
     map_of (connMap s) (makeChannelKey (nodeId meta) k) = Some i \<and> i < length (channels s) \<and>
     sameEndpoint (ch_nodeMeta (channels s ! i)) meta \<and> \<not> closing (channels s ! i) \<and>
     \<not> isConnected (connUp s) (channels s ! i)"

lemma sendOneChat_waiting:
  fixes s :: "('r, 'x) router_state_scheme" and E :: "('r, 'e) router_env_scheme" and u :: cint
    and p :: string and fromNode :: string and t :: string
  assumes "valid meta" and w: "waiting s meta (pickShard (rc_shardCount (routerConfig s)) u) i"
    and room: "length (pending (channels s ! i)) < pendingLimit (channels s ! i)"
  defines "s' \<equiv> exec (sendOneChat E meta fromNode u p t) s"
  shows "result (sendOneChat E meta fromNode u p t) s"
    and "channels s' = (channels s)[i := (channels s ! i)\<lparr>pending := pending (channels s ! i) @ [oneChatFrame u p], connecting := True\<rparr>]"
    and "outbox s' = outbox s" and "connMap s' = connMap s" and "connUp s' = connUp s" and "routerConfig s' = routerConfig s"
proof -
  define k where "k = pickShard (rc_shardCount (routerConfig s)) u"
  have found: "result (getOrCreateChannel E meta k) s = i" "exec (getOrCreateChannel E meta k) s = s"
    using w by (simp_all add: waiting_def k_def [symmetric] getOrCreateChannel_def Let_def)
  have i: "i < length (channels s)" using w by (simp add: waiting_def)
  have q: "fst (enqueueLocked (connUp s) m (channels s ! i)) \<noteq> Refused" 
    "\<And>c. fst (enqueueLocked (connUp s) m (channels s ! i)) \<noteq> SendOn c"
    "snd (enqueueLocked (connUp s) m (channels s ! i)) =
       (channels s ! i)\<lparr>pending := pending (channels s ! i) @ [m], connecting := True\<rparr>" for m
    using enqueue_waiting [of "channels s ! i" "connUp s" m] w room by (simp_all add: waiting_def)
  note run = enqueueOrSend_run [OF i, of "oneChatFrame u p"]
  show "result (sendOneChat E meta fromNode u p t) s"
    and "channels s' = (channels s)[i := (channels s ! i)\<lparr>pending := pending (channels s ! i) @ [oneChatFrame u p], connecting := True\<rparr>]"
    and "connMap s' = connMap s" and "connUp s' = connUp s" and "routerConfig s' = routerConfig s"
    using sendOneChat_unfold [OF assms(1), of E fromNode u p t s] q found run
    by (simp_all add: s'_def k_def [symmetric] sendInternalMessage_def)
  have "outbox s' = outbox s @ (case fst (enqueueLocked (connUp s) (oneChatFrame u p) (channels s ! i)) of SendOn c \<Rightarrow> [(c, oneChatFrame u p)] | _ \<Rightarrow> [])"
    using sendOneChat_unfold [OF assms(1), of E fromNode u p t s] found run
    by (simp add: s'_def k_def [symmetric] sendInternalMessage_def)
  then show "outbox s' = outbox s" using q(2) [of "oneChatFrame u p"] by (auto split: enqueue_result.splits)
qed

text \<open>Sending a list of messages of one shard, then the connection comes up.\<close>

primrec sendAll ::
  "('r, 'e) router_env_scheme \<Rightarrow> NodeMeta \<Rightarrow> (cint \<times> string) list \<Rightarrow> (('r, 'x) router_state_scheme, bool) state" where
  "sendAll E meta [] = State_Monad.return True"
| "sendAll E meta (m # ms) = do {
     ok \<leftarrow> sendOneChat E meta '''' (fst m) (snd m) '''';
     oks \<leftarrow> sendAll E meta ms;
     State_Monad.return (ok \<and> oks)
   }"

lemma sendAll_waiting:
  fixes s :: "('r, 'x) router_state_scheme" and E :: "('r, 'e) router_env_scheme"
  assumes "valid meta" and "waiting s meta k i"
    and "\<forall>m \<in> set ms. pickShard (rc_shardCount (routerConfig s)) (fst m) = k"
    and "length (pending (channels s ! i)) + length ms \<le> pendingLimit (channels s ! i)"
  shows "result (sendAll E meta ms) s \<and>
    waiting (exec (sendAll E meta ms) s) meta k i \<and>
    pending (channels (exec (sendAll E meta ms) s) ! i) =
      pending (channels s ! i) @ map (\<lambda>(u, p). oneChatFrame u p) ms \<and>
    outbox (exec (sendAll E meta ms) s) = outbox s"
  using assms(2-)
proof (induction ms arbitrary: s)
  case Nil
  then show ?case by simp
next
  case (Cons m ms)
  define s1 where "s1 = exec (sendOneChat E meta '''' (fst m) (snd m) '''') s"
  have i: "i < length (channels s)" using Cons.prems(1) by (simp add: waiting_def)
  note send = sendOneChat_waiting [OF assms(1), of s "fst m" i E "''''" "snd m" "''''", folded s1_def]
  have pre: "waiting s meta (pickShard (rc_shardCount (routerConfig s)) (fst m)) i"
    "length (pending (channels s ! i)) < pendingLimit (channels s ! i)"
    using Cons.prems by simp_all
  note send = send [OF pre]
  have "waiting s1 meta k i"
    using Cons.prems(1) i by (simp add: waiting_def send isConnected_def)
  moreover have "\<forall>m \<in> set ms. pickShard (rc_shardCount (routerConfig s1)) (fst m) = k"
    using Cons.prems(2) by (simp add: send)
  moreover have "length (pending (channels s1 ! i)) + length ms \<le> pendingLimit (channels s1 ! i)"
    using Cons.prems(3) i by (simp add: send)
  ultimately show ?case using Cons.IH [of s1] send(1) i
    by (simp add: s1_def [symmetric] send split_beta)
qed

section \<open>Properties\<close>

lemma sint_minus:
  fixes u :: cint
  assumes "sint u \<noteq> - (2 ^ 31)"
  shows "sint (- u) = - sint u"
proof -
  have "- (2 ^ 31) \<le> - sint u" "- sint u < 2 ^ 31" using sint_range32 [of u] assms by simp_all
  then have "signed_take_bit 31 (- sint u) = - sint u"
    by (intro signed_take_bit_int_eq_self) simp_all
  then show ?thesis by (simp add: sint_word_ariths)
qed

lemma concat_single: "concat [x] = x"
  by simp

lemma pick_shard_value: "pickShard 4 5 = 1" "pickShard 4 (-5) = 1"
  by (simp_all add: pickShard_def)

lemma unat_scast_nonneg:
  fixes w :: cint
  assumes "0 \<le> sint w"
  shows "unat (scast w :: 64 word) = nat (sint w)"
proof -
  have "sint w < 2 ^ 64" using sint_range32(2) [of w] by simp
  then have "uint (scast w :: 64 word) = sint w"
    using assms by (simp only: scast_eq uint_word_of_int) simp
  then show ?thesis by (simp add: unat_eq_nat_uint)
qed

text \<open>
  Every receiver id has a shard: the index is below the shard count for every \<open>int\<close>,
  \<open>INT_MIN\<close> included, and for all others it is the absolute value modulo the count; so the
  messages for one receiver always take the same channel of a node.
\<close>

theorem pick_shard:
  assumes "0 < n"
  shows "pickShard n u < n \<and> (sint u \<noteq> - (2 ^ 31) \<longrightarrow> pickShard n u = nat \<bar>sint u\<bar> mod n)"
proof (intro conjI impI)
  show "pickShard n u < n" using assms by (simp add: pickShard_def)
next
  assume u: "sint u \<noteq> - (2 ^ 31)"
  show "pickShard n u = nat \<bar>sint u\<bar> mod n"
  proof (cases "0 \<le> sint u")
    case True
    then show ?thesis using assms by (simp add: pickShard_def unat_scast_nonneg)
  next
    case False
    then have "0 \<le> sint (- u)" using u by (simp add: sint_minus)
    from unat_scast_nonneg [OF this] False u assms show ?thesis
      by (simp add: pickShard_def sint_minus)
  qed
qed

theorem pick_shard_witness: "pickShard 4 (-7) = 3 \<and> pickShard 4 (word_of_int (- (2 ^ 31))) < 4"
  using pick_shard [of 4 "-7"] pick_shard [of 4 "word_of_int (- (2 ^ 31))"] by simp

text \<open>
  The message is on its way: it is the last one written to the live connection of the
  channel for this node and shard, or the last one in that channel's queue. The channel leads
  to the address of the node.
\<close>

definition carried ::
  "NodeMeta \<Rightarrow> nat \<Rightarrow> string \<Rightarrow> ('r, 'x) router_state_scheme \<Rightarrow> ('r, 'x) router_state_scheme \<Rightarrow> bool" where
  "carried meta k m s s' \<longleftrightarrow>
     (\<exists>i. map_of (connMap s') (makeChannelKey (nodeId meta) k) = Some i \<and>
        sameEndpoint (ch_nodeMeta (channels s' ! i)) meta \<and>
        ((\<exists>c. connection (channels s' ! i) = Some c \<and> connUp s' c \<and> outbox s' = outbox s @ [(c, m)]) \<or>
         outbox s' = outbox s \<and> pending (channels s' ! i) \<noteq> [] \<and> last (pending (channels s' ! i)) = m))"

text \<open>The queue of the channel for this node and shard is full.\<close>

definition queue_full :: "NodeMeta \<Rightarrow> nat \<Rightarrow> ('r, 'x) router_state_scheme \<Rightarrow> bool" where
  "queue_full meta k s \<longleftrightarrow>
     (\<exists>i. map_of (connMap s) (makeChannelKey (nodeId meta) k) = Some i \<and>
        sameEndpoint (ch_nodeMeta (channels s ! i)) meta \<and>
        length (pending (channels s ! i)) = pendingLimit (channels s ! i))"

lemma carried_frame:
  assumes "outbox t = outbox s"
  shows "carried meta k m t = carried meta k m s"
  by (rule ext) (simp add: carried_def assms)

lemma sendInternal_effect:
  fixes s :: "('r, 'x) router_state_scheme"
  assumes inv: "router_inv s" and s': "s' = exec (sendInternalMessage E meta k m) s"
  shows "if result (sendInternalMessage E meta k m) s then carried meta k m s s'
    else outbox s' = outbox s \<and> queue_full meta k s'"
proof -
  define i where "i = result (getOrCreateChannel E meta k) s"
  define s1 where "s1 = exec (getOrCreateChannel E meta k) s"
  note post = getOrCreateChannel_post [OF inv, of E meta k, folded i_def s1_def]
  note ch = router_invD [OF post(1,2)]
  have same: "outbox s1 = outbox s" using post(4) by (simp add: same_traffic_def)
  note run = enqueueOrSend_run [OF ch(1), of m]
  have res: "result (sendInternalMessage E meta k m) s = result (enqueueOrSend i m) s1"
    and s'_eq: "s' = exec (enqueueOrSend i m) s1"
    by (simp_all add: s' sendInternalMessage_def i_def s1_def)
  obtain r c' where enq: "enqueueLocked (connUp s1) m (channels s1 ! i) = (r, c')" by fastforce
  have meta': "ch_nodeMeta c' = ch_nodeMeta (channels s1 ! i)" using enqueueLocked_ok(5) [OF ch(4), of "connUp s1" m] enq by simp
  have chan: "channels s' ! i = c'" "connMap s' = connMap s1" "connUp s' = connUp s1"
    "outbox s' = outbox s @ (case r of SendOn c \<Rightarrow> [(c, m)] | _ \<Rightarrow> [])" "result (enqueueOrSend i m) s1 = (r \<noteq> Refused)"
    using run ch(1) by (simp_all add: s'_eq enq same)
  have "if r \<noteq> Refused then
      (\<exists>c. connection c' = Some c \<and> connUp s1 c \<and> outbox s' = outbox s @ [(c, m)]) \<or>
      outbox s' = outbox s \<and> pending c' \<noteq> [] \<and> last (pending c') = m
    else outbox s' = outbox s \<and> length (pending c') = pendingLimit c'"
  proof (cases r)
    case Refused
    with enq ch(3,4) have "c' = channels s1 ! i" "pendingLimit c' \<le> length (pending c')"
      by (auto simp: enqueueLocked_def Let_def split: if_splits)
    with ch(4) Refused chan(4) show ?thesis by (simp add: channel_ok_def)
  next
    case (SendOn c)
    with enq have "c' = channels s1 ! i" "connection c' = Some c" "connUp s1 c"
      by (auto simp: enqueueLocked_def Let_def isConnected_def split: if_splits option.splits)
    with SendOn chan(4) show ?thesis by simp
  qed (use enq chan(4) in \<open>auto simp: enqueueLocked_def Let_def split: if_splits\<close>)
  then show ?thesis
    using post(2,3) chan(1-3,5) meta' by (auto simp: res carried_def queue_full_def)
qed

lemma sendOneChat_effect:
  fixes s :: "('r, 'x) router_state_scheme"
  assumes inv: "router_inv s" and v: "valid meta"
    and s': "s' = exec (sendOneChat E meta fromNode u p t) s"
  defines "k \<equiv> pickShard (rc_shardCount (routerConfig s)) u"
  shows "if result (sendOneChat E meta fromNode u p t) s then carried meta k (oneChatFrame u p) s s'
    else outbox s' = outbox s \<and> queue_full meta k s'"
  unfolding s' k_def sendOneChat_unfold [OF v] by (rule sendInternal_effect [OF inv refl])

text \<open>
  C10. What \<open>sendOneChat\<close> promises, for a valid node and a channel table in order: the table
  then has a channel for that node and the user's shard that leads to the address given, also
  when the node has moved since the channel was made. When the answer is true, the binary frame
  for this user with this payload is the last one written to the live connection of that
  channel and the only one, or nothing is written and it is the last one in that channel's
  queue; when the answer is false, nothing is written and that queue is full.
\<close>

theorem sendOneChat_outcome:
  fixes s :: "('r, 'x) router_state_scheme"
  assumes inv: "router_inv s" and v: "valid meta"
    and s': "s' = exec (sendOneChat E meta fromNode u p t) s"
  shows "if result (sendOneChat E meta fromNode u p t) s
    then carried meta (pickShard (rc_shardCount (routerConfig s)) u) (oneChatFrame u p) s s'
    else outbox s' = outbox s \<and> queue_full meta (pickShard (rc_shardCount (routerConfig s)) u) s'"
  by (rule sendOneChat_effect [OF assms])

definition sampleRouter :: "sample_redis router_state" where
  "sampleRouter =
     \<lparr>redisSrv = sampleStart, ticks = 0, cmdQueue = [], selfNode = sampleNode, heartbeatIntervalMs = 3000, heartbeatTimeoutMs = 10000, routeCacheTtlMs = 1000, running = True,
      userRouteCache = Map.empty, nodeMetaCache = Map.empty,
      channels = [], connMap = [], warmedNodeInstances = Map.empty, routerConfig = routerConfigOf Map.empty, ioLoops = [7, 8],
      baseLoop = 0, loopQueue = [], connUp = (\<lambda>_. False), outbox = [], dialled = [], closedConns = []\<rparr>"

definition sampleRouterEnv :: "sample_redis router_env" where
  "sampleRouterEnv = \<lparr>redisCommand = sampleRedis, steadyNs = (\<lambda>n. int n), systemMs = (\<lambda>n. 1000), stringHash = length, jdump = (\<lambda>_. Some ''{}''), jparse = (\<lambda>_. Some (JObj []))\<rparr>"

lemma sampleRouter_inv: "router_inv sampleRouter"
  by (simp add: sampleRouter_def router_inv_def)

theorem sendOneChat_outcome_witness:
  "\<exists>s' k. s' = exec (sendOneChat sampleRouterEnv sampleNode '''' 5 ''hi'' '''') sampleRouter \<and>
     (carried sampleNode k (oneChatFrame 5 ''hi'') sampleRouter s' \<or> queue_full sampleNode k s')"
proof -
  have "valid sampleNode" by (simp add: valid_def sampleNode_def)
  from sendOneChat_outcome [OF sampleRouter_inv this refl, of sampleRouterEnv "''''" 5 "''hi''" "''''"]
  show ?thesis by (auto split: if_splits)
qed

text \<open>The calls and events of a router, and a history of them.\<close>

datatype router_call =
    SendOne NodeMeta cint string | SendGroup NodeMeta "cint list" string | Prewarm NodeMeta | CloseAll
  | ConnectionEvent nat conn bool | WriteComplete nat | HighWaterMark nat | RunFunctor loop_functor

fun router_run :: "('r, 'e) router_env_scheme \<Rightarrow> router_call \<Rightarrow> ('r, 'x) router_state_scheme \<Rightarrow> ('r, 'x) router_state_scheme" where
  "router_run E (SendOne meta u p) s = exec (sendOneChat E meta '''' u p '''') s"
| "router_run E (SendGroup meta us p) s = exec (sendGroupChat E meta '''' us p '''') s"
| "router_run E (Prewarm meta) s = exec (prewarmNode E meta) s"
| "router_run E CloseAll s = exec closeAll s"
| "router_run E (ConnectionEvent i c b) s = exec (handleConnection i c) (s\<lparr>connUp := (connUp s)(c := b)\<rparr>)"
| "router_run E (WriteComplete i) s = exec (handleWriteComplete i) s"
| "router_run E (HighWaterMark i) s = exec (handleHighWaterMark i) s"
| "router_run E (RunFunctor f) s = exec (runFunctor f) s"

lemma router_inv_connUp [simp]: "router_inv (s\<lparr>connUp := u\<rparr>) = router_inv s"
  by (simp add: router_inv_def)

lemma router_inv_run: "router_inv s \<Longrightarrow> router_inv (router_run E c s)"
  by (cases c)
    (simp_all add: preservesD [OF inv_sendOneChat] preservesD [OF inv_sendGroupChat] preservesD [OF inv_prewarmNode]
      preservesD [OF inv_closeAll] preservesD [OF inv_callbacks(1)] preservesD [OF inv_callbacks(2)]
      preservesD [OF inv_callbacks(3)] preservesD [OF inv_callbacks(4)])

text \<open>
  C28. The channel table after any history of sends, warm-ups, shutdowns, connection events,
  back-pressure and loop functors: every entry leads to an open channel of that name, no
  name occurs twice, no queue is longer than its limit, and a stopped channel is empty.
\<close>

theorem router_table:
  assumes s: "s = fold (router_run E) calls (exec (router_init env base pool) s0)"
  shows "distinct (map fst (connMap s)) \<and>
    (\<forall>(k, i) \<in> set (connMap s). i < length (channels s) \<and> channelId (channels s ! i) = k \<and> \<not> closing (channels s ! i)) \<and>
    (\<forall>ch \<in> set (channels s). length (pending ch) \<le> pendingLimit ch \<and> (closing ch \<longrightarrow> pending ch = []))"
proof -
  have "router_inv (exec (router_init env base pool) s0)" by (simp add: router_init_def router_inv_def)
  then have "router_inv s" unfolding s by (rule fold_preserves [rotated]) (rule router_inv_run)
  then show ?thesis by (simp add: router_inv_def list_all_iff channel_ok_def)
qed

theorem router_table_witness:
  "list_all (\<lambda>ch. length (pending ch) \<le> pendingLimit ch)
     (channels (fold (router_run sampleRouterEnv) [SendOne sampleNode 5 ''a'', Prewarm sampleNode, CloseAll]
       (exec (router_init Map.empty 0 [7, 8]) sampleRouter)))"
  unfolding list_all_iff
  using router_table [OF refl, of sampleRouterEnv "[SendOne sampleNode 5 ''a'', Prewarm sampleNode, CloseAll]"
    Map.empty 0 "[7, 8]" sampleRouter] by blast

text \<open>
  Messages for receivers of one shard, given to \<open>sendOneChat\<close> while the channel is still
  connecting and has room, are all accepted; when the connection comes up, what is written to
  it is exactly their frames, in order.
\<close>

lemma link_stream:
  fixes s :: "('r, 'x) router_state_scheme" and E :: "('r, 'e) router_env_scheme"
  assumes v: "valid meta" and w: "waiting s meta k i" and empty: "pending (channels s ! i) = []"
    and shard: "\<forall>m \<in> set ms. pickShard (rc_shardCount (routerConfig s)) (fst m) = k"
    and room: "length ms \<le> pendingLimit (channels s ! i)"
    and fresh: "c \<notin> fst ` set (outbox s)"
    and s': "s' = router_run E (ConnectionEvent i c True) (exec (sendAll E meta ms) s)"
  shows "result (sendAll E meta ms) s"
    and "concat (map snd (filter (\<lambda>p. fst p = c) (outbox s'))) = stream_of encodeEvent (map (\<lambda>(u, p). OneChatFrame u p) ms)"
proof -
  define t where "t = exec (sendAll E meta ms) s"
  have t: "result (sendAll E meta ms) s" "waiting t meta k i"
    "pending (channels t ! i) = map (\<lambda>(u, p). oneChatFrame u p) ms" "outbox t = outbox s"
    using sendAll_waiting [OF v w shard, of E] empty room by (simp_all add: t_def)
  have i: "i < length (channels t)" and open_: "\<not> closing (channels t ! i)" using t(2) by (simp_all add: waiting_def)
  have "drainPending ((connUp t)(c := True)) (channelUp c (channels t ! i)) =
      (map (Pair c) (pending (channels t ! i)), (channelUp c (channels t ! i))\<lparr>pending := []\<rparr>)"
    using open_ by (subst drainPending_all [of _ c]) (simp_all add: channelUp_def)
  then have "outbox s' = outbox s @ map (\<lambda>(u, p). (c, oneChatFrame u p)) ms"
    using i t(3,4) by (simp add: s' t_def [symmetric] handleConnection_def drainPendingInLoop_def Let_def split_beta)
  moreover have "filter (\<lambda>p. fst p = c) (outbox s) = []" using fresh by (auto simp: filter_empty_conv)
  ultimately show "concat (map snd (filter (\<lambda>p. fst p = c) (outbox s'))) = stream_of encodeEvent (map (\<lambda>(u, p). OneChatFrame u p) ms)"
    by (simp add: stream_of_def o_def split_beta filter_map)
  show "result (sendAll E meta ms) s" by (rule t(1))
qed

text \<open>A channel that is still connecting.\<close>

definition sampleLink :: "sample_redis router_state" where
  "sampleLink = sampleRouter\<lparr>channels := [newShardChannel (makeChannelKey (nodeId sampleNode) 1) sampleNode 7 4 9],
     connMap := [(makeChannelKey (nodeId sampleNode) 1, 0)]\<rparr>"

lemma sampleLink_facts:
  "valid sampleNode" "waiting sampleLink sampleNode 1 0" "pending (channels sampleLink ! 0) = []"
  "\<forall>m \<in> set [(5, ''a''), (-5, ''bc'')]. pickShard (rc_shardCount (routerConfig sampleLink)) (fst m) = 1"
  "length [(5, ''a''), (-5, ''bc'')] \<le> pendingLimit (channels sampleLink ! 0)" "3 \<notin> fst ` set (outbox sampleLink)"
proof -
  have n: "rc_shardCount (routerConfig sampleLink) = 4"
    by (simp add: sampleLink_def sampleRouter_def routerConfigOf_def Let_def positiveOr_def getEnvIntOrDefault_def)
  show "waiting sampleLink sampleNode 1 0"
    by (simp add: waiting_def sampleLink_def newShardChannel_def sameEndpoint_def isConnected_def)
  show "valid sampleNode" by (simp add: valid_def sampleNode_def)
  show "\<forall>m \<in> set [(5, ''a''), (-5, ''bc'')]. pickShard (rc_shardCount (routerConfig sampleLink)) (fst m) = 1"
    by (simp add: n pick_shard_value)
  show "pending (channels sampleLink ! 0) = []" "length [(5, ''a''), (-5, ''bc'')] \<le> pendingLimit (channels sampleLink ! 0)"
    "3 \<notin> fst ` set (outbox sampleLink)"
    by (simp_all add: sampleLink_def newShardChannel_def sampleRouter_def)
qed


section \<open>Frame\<close>

text \<open>The router touches neither the registry nor the components above it.\<close>

definition beyond_router ::
  "('r, 'x) router_state_scheme \<Rightarrow> 'x \<times> 'r \<times> nat \<times> string list \<times> NodeMeta \<times> bool \<times>
     (cint \<rightharpoonup> UserRouteCacheEntry) \<times> (string \<rightharpoonup> NodeMetaCacheEntry) \<times> router_config \<times> (conn \<Rightarrow> bool)" where
  "beyond_router s = (router_state.more s, redisSrv s, ticks s, cmdQueue s, selfNode s, running s,
     userRouteCache s, nodeMetaCache s, routerConfig s, connUp s)"

named_theorems router_keeps "operations that keep what is beyond the router"

lemma beyond_setChannel [simp]: "beyond_router (setChannel i ch s) = beyond_router s"
  by (simp add: beyond_router_def setChannel_def)

lemma beyond_basic [router_keeps]:
  "keeps beyond_router (queueInLoop l f)" "keeps beyond_router (connSend c m)" "keeps beyond_router (stopChannel i)"
  "keeps beyond_router (scheduleConnect i)"
  by (rule keepsI, simp add: beyond_router_def setChannel_def)+

lemma beyond_enqueueOrSend [router_keeps]: "keeps beyond_router (enqueueOrSend i m)"
proof (rule keepsI)
  fix s :: "('r, 'x) router_state_scheme"
  show "beyond_router (exec (enqueueOrSend i m) s) = beyond_router s"
    by (cases "fst (enqueueLocked (connUp s) m (channels s ! i))")
      (simp_all add: enqueueOrSend_def result_def [of "State _"] exec_def [of "State _"] split_beta
        beyond_router_def setChannel_def)
qed

lemma beyond_createChannel [router_keeps]: "keeps beyond_router (createChannel E key meta)"
  unfolding createChannel_def
  by (intro keeps router_keeps keeps_modify) (simp_all add: beyond_router_def Let_def)

lemma beyond_getOrCreateChannel [router_keeps]: "keeps beyond_router (getOrCreateChannel E meta k)"
  unfolding getOrCreateChannel_def Let_def
  by (intro keeps router_keeps keeps_modify) (simp_all add: beyond_router_def)

lemma beyond_sends [router_keeps]:
  "keeps beyond_router (sendInternalMessage E meta k m)" "keeps beyond_router (sendOneChat E meta fromNode u p t)"
  "keeps beyond_router (sendGroupChat E meta fromNode us p t)"
proof -
  show int: "keeps beyond_router (sendInternalMessage E meta k m)" for k m
    unfolding sendInternalMessage_def by (intro keeps router_keeps)
  show "keeps beyond_router (sendOneChat E meta fromNode u p t)"
    unfolding sendOneChat_def by (intro keeps router_keeps int)
  show "keeps beyond_router (sendGroupChat E meta fromNode us p t)"
    unfolding sendGroupChat_def Let_def by (intro keeps router_keeps int)
qed

lemma beyond_prewarm [router_keeps]:
  "keeps beyond_router (prewarmShard E meta k)" "keeps beyond_router (prewarmNode E meta)"
proof -
  show shard: "keeps beyond_router (prewarmShard E meta k)" for k
    unfolding prewarmShard_def Let_def by (intro keeps router_keeps keeps_modify) simp
  show "keeps beyond_router (prewarmNode E meta)"
    unfolding prewarmNode_def by (intro keeps router_keeps keeps_modify shard) (simp add: beyond_router_def)
qed

lemma beyond_closeAll [router_keeps]: "keeps beyond_router closeAll"
  unfolding closeAll_def by (intro keeps router_keeps keeps_modify) (simp add: beyond_router_def)

text \<open>Looking a channel up and warming a node up send nothing.\<close>

lemma outbox_getOrCreate: "keeps outbox (getOrCreateChannel E meta k)"
proof -
  have create: "keeps outbox (createChannel E key m)" for key m
    unfolding createChannel_def by (intro keeps keeps_modify) (simp_all add: Let_def keeps_def)
  show ?thesis
    unfolding getOrCreateChannel_def Let_def
    by (intro keeps keeps_modify create) (simp_all add: keeps_def)
qed

lemma outbox_prewarm: "keeps outbox (prewarmNode E meta)"
proof -
  have shard: "keeps outbox (prewarmShard E m k)" for m k
    unfolding prewarmShard_def Let_def by (intro keeps keeps_modify outbox_getOrCreate) (simp_all add: keeps_def)
  show ?thesis unfolding prewarmNode_def by (intro keeps keeps_modify shard) simp
qed

end
