(* ===== verification/Models.thy ===== *)
theory Models
  imports ClusterRouter
begin

text \<open>
  The data models (\<open>src/server/model\<close>) and the MySQL wrapper they use
  (\<open>src/server/db/db.cpp\<close>). The MySQL server is a parameter: what \<open>mysql_query\<close> and
  \<open>mysql_use_result\<close> return for a statement, and the server state after it. Every
  statement goes through a 1024-byte \<open>snprintf\<close> buffer, and strings are put into it
  unescaped; both are written out, because the fate of offline messages depends on them.
\<close>

section \<open>Environment and state\<close>

text \<open>
  \<open>Failed\<close>: \<open>mysql_query\<close> is not zero. \<open>Done\<close>: no result set, with the id
  \<open>mysql_insert_id\<close> returns. A row is the list of its columns as C strings.
\<close>

datatype mysql_reply = Failed | Done int | Rows "string list list"

record ('r, 'd) db_env = "'r router_env" +
  mysqlQuery :: "string \<Rightarrow> 'd \<Rightarrow> mysql_reply \<times> 'd"

text \<open>\<open>sqlLog\<close> records the statements sent, in order.\<close>

record ('r, 'd) db_state = "'r router_state" +
  database :: 'd
  sqlLog :: "string list"

definition mysqlCmd ::
  "('r, 'd, 'e) db_env_scheme \<Rightarrow> string \<Rightarrow> (('r, 'd, 'x) db_state_scheme, mysql_reply) state" where
  "mysqlCmd E sql = State (\<lambda>s. let (reply, d) = mysqlQuery E (c_str sql) (database s)
                               in (reply, s\<lparr>database := d, sqlLog := sqlLog s @ [c_str sql]\<rparr>))"

section \<open>The class MySQL\<close>

definition mysql_update ::
  "('r, 'd, 'e) db_env_scheme \<Rightarrow> string \<Rightarrow> (('r, 'd, 'x) db_state_scheme, bool) state" where
  "mysql_update E sql = do {
     reply \<leftarrow> mysqlCmd E sql;
     State_Monad.return (reply \<noteq> Failed)
   }"

definition mysql_query ::
  "('r, 'd, 'e) db_env_scheme \<Rightarrow> string \<Rightarrow> (('r, 'd, 'x) db_state_scheme, string list list option) state" where
  "mysql_query E sql = do {
     reply \<leftarrow> mysqlCmd E sql;
     State_Monad.return (case reply of Rows rows \<Rightarrow> Some rows | _ \<Rightarrow> None)
   }"

text \<open>\<open>update\<close> followed, on success, by \<open>mysql_insert_id\<close> on the same connection.\<close>

definition mysql_insert ::
  "('r, 'd, 'e) db_env_scheme \<Rightarrow> string \<Rightarrow> (('r, 'd, 'x) db_state_scheme, cint option) state" where
  "mysql_insert E sql = do {
     reply \<leftarrow> mysqlCmd E sql;
     State_Monad.return (case reply of Failed \<Rightarrow> None | Done i \<Rightarrow> Some (word_of_int i) | Rows _ \<Rightarrow> Some 0)
   }"

text \<open>The parameters \<open>MySQL::connect\<close> passes to \<open>mysql_real_connect\<close>, and its first statement.\<close>

record mysql_target =
  mt_server :: string
  mt_user :: string
  mt_password :: string
  mt_dbname :: string
  mt_port :: cint
  mt_charsetSql :: string

definition mysqlTargetOf :: "environment \<Rightarrow> mysql_target" where
  "mysqlTargetOf env =
     \<lparr>mt_server = getEnvOrDefault env ''CHAT_DB_HOST'' ''127.0.0.1'',
      mt_user = getEnvOrDefault env ''CHAT_DB_USER'' ''cppuser'',
      mt_password = getEnvOrDefault env ''CHAT_DB_PASSWORD'' ''default_pwd'',
      mt_dbname = getEnvOrDefault env ''CHAT_DB_NAME'' ''chat'',
      mt_port = getEnvIntOrDefault env ''CHAT_DB_PORT'' 3306,
      mt_charsetSql = ''set names '' @ getEnvOrDefault env ''CHAT_DB_CHARSET'' ''gbk''\<rparr>"

section \<open>Statements\<close>

definition sqlBuffer :: nat where
  "sqlBuffer = 1024"

definition quoted :: "string \<Rightarrow> string" where
  "quoted s = CHR 0x27 # c_str s @ [CHR 0x27]"

definition insertUserSql :: "User \<Rightarrow> string" where
  "insertUserSql u = snprintf sqlBuffer (''insert into user(name, password, state) values('' @
     quoted (user_name u) @ '', '' @ quoted (user_password u) @ '', '' @ quoted (user_state u) @ '')'')"

definition queryUserSql :: "cint \<Rightarrow> string" where
  "queryUserSql i = snprintf sqlBuffer (''select * from user where id = '' @ to_string i)"

definition updateStateSql :: "User \<Rightarrow> string" where
  "updateStateSql u = snprintf sqlBuffer (''update user set state = '' @ quoted (user_state u) @
     '' where id = '' @ quoted (to_string (user_id u)))"

definition resetStateSql :: string where
  "resetStateSql = ''update user set state = '' @ quoted ''offline'' @ '' where state = '' @ quoted ''online''"

definition insertFriendSql :: "cint \<Rightarrow> cint \<Rightarrow> string" where
  "insertFriendSql u f = snprintf sqlBuffer (''insert into friend values('' @ to_string u @ '', '' @ to_string f @ '')'')"

definition queryFriendsSql :: "cint \<Rightarrow> string" where
  "queryFriendsSql u = snprintf sqlBuffer
     (''select u.id, u.name, u.state from friend f join user u on f.friendid = u.id where f.userid = '' @ to_string u)"

definition createGroupSql :: "Group \<Rightarrow> string" where
  "createGroupSql g = snprintf sqlBuffer (''insert into allgroup(groupname, groupdesc) values('' @
     quoted (group_name g) @ '', '' @ quoted (group_desc g) @ '')'')"

definition addGroupSql :: "cint \<Rightarrow> cint \<Rightarrow> string \<Rightarrow> string" where
  "addGroupSql userid groupid role = snprintf sqlBuffer
     (''insert into groupuser values('' @ to_string groupid @ '', '' @ to_string userid @ '', '' @ quoted role @ '')'')"

definition queryGroupsSql :: "cint \<Rightarrow> string" where
  "queryGroupsSql u = snprintf sqlBuffer
     (''select a.id, a.groupname, a.groupdesc from allgroup a join groupuser g on a.id = g.groupid where g.userid = '' @ to_string u)"

definition queryMembersSql :: "cint \<Rightarrow> string" where
  "queryMembersSql g = snprintf sqlBuffer
     (''select u.id, u.name, u.state, g.grouprole from user u join groupuser g on g.userid = u.id where g.groupid = '' @ to_string g)"

definition queryGroupUsersSql :: "cint \<Rightarrow> cint \<Rightarrow> string" where
  "queryGroupUsersSql userid groupid = snprintf sqlBuffer
     (''select userid from groupuser where groupid = '' @ to_string groupid @ '' and userid != '' @ to_string userid)"

definition insertOfflineSql :: "cint \<Rightarrow> string \<Rightarrow> string" where
  "insertOfflineSql u msg = snprintf sqlBuffer
     (''insert into offlinemessage values('' @ to_string u @ '', '' @ quoted msg @ '')'')"

definition removeOfflineSql :: "cint \<Rightarrow> string" where
  "removeOfflineSql u = snprintf sqlBuffer (''delete from offlinemessage where userid = '' @ to_string u)"

definition queryOfflineSql :: "cint \<Rightarrow> string" where
  "queryOfflineSql u = snprintf sqlBuffer (''select message from offlinemessage where userid = '' @ to_string u)"

section \<open>The models\<close>

definition UserModel_insert ::
  "('r, 'd, 'e) db_env_scheme \<Rightarrow> User \<Rightarrow> (('r, 'd, 'x) db_state_scheme, User option) state" where
  "UserModel_insert E u = do {
     newId \<leftarrow> mysql_insert E (insertUserSql u);
     State_Monad.return (map_option (\<lambda>i. u\<lparr>user_id := i\<rparr>) newId)
   }"

definition UserModel_query ::
  "('r, 'd, 'e) db_env_scheme \<Rightarrow> cint \<Rightarrow> (('r, 'd, 'x) db_state_scheme, User) state" where
  "UserModel_query E i = do {
     res \<leftarrow> mysql_query E (queryUserSql i);
     State_Monad.return
       (case res of
          Some (row # _) \<Rightarrow> makeUser (atoi (row ! 0)) (c_str (row ! 1)) (c_str (row ! 2)) (c_str (row ! 3))
        | _ \<Rightarrow> defaultUser)
   }"

definition UserModel_updateState ::
  "('r, 'd, 'e) db_env_scheme \<Rightarrow> User \<Rightarrow> (('r, 'd, 'x) db_state_scheme, bool) state" where
  "UserModel_updateState E u = mysql_update E (updateStateSql u)"

definition UserModel_resetState ::
  "('r, 'd, 'e) db_env_scheme \<Rightarrow> (('r, 'd, 'x) db_state_scheme, unit) state" where
  "UserModel_resetState E = do { mysql_update E resetStateSql; State_Monad.return () }"

definition FriendModel_insert ::
  "('r, 'd, 'e) db_env_scheme \<Rightarrow> cint \<Rightarrow> cint \<Rightarrow> (('r, 'd, 'x) db_state_scheme, unit) state" where
  "FriendModel_insert E userId friendId = do {
     mysql_update E (insertFriendSql userId friendId);
     State_Monad.return ()
   }"

text \<open>A \<open>User\<close> built by the default constructor with three members set.\<close>

definition userOfRow :: "string list \<Rightarrow> User" where
  "userOfRow row = defaultUser\<lparr>user_id := atoi (row ! 0), user_name := c_str (row ! 1), user_state := c_str (row ! 2)\<rparr>"

definition FriendModel_query ::
  "('r, 'd, 'e) db_env_scheme \<Rightarrow> cint \<Rightarrow> (('r, 'd, 'x) db_state_scheme, User list) state" where
  "FriendModel_query E userId = do {
     res \<leftarrow> mysql_query E (queryFriendsSql userId);
     State_Monad.return (case res of None \<Rightarrow> [] | Some rows \<Rightarrow> map userOfRow rows)
   }"

definition GroupModel_createGroup ::
  "('r, 'd, 'e) db_env_scheme \<Rightarrow> Group \<Rightarrow> (('r, 'd, 'x) db_state_scheme, Group option) state" where
  "GroupModel_createGroup E g = do {
     newId \<leftarrow> mysql_insert E (createGroupSql g);
     State_Monad.return (map_option (\<lambda>i. g\<lparr>group_id := i\<rparr>) newId)
   }"

definition GroupModel_addGroup ::
  "('r, 'd, 'e) db_env_scheme \<Rightarrow> cint \<Rightarrow> cint \<Rightarrow> string \<Rightarrow> (('r, 'd, 'x) db_state_scheme, unit) state" where
  "GroupModel_addGroup E userid groupid role = do {
     mysql_update E (addGroupSql userid groupid role);
     State_Monad.return ()
   }"

definition groupOfRow :: "string list \<Rightarrow> Group" where
  "groupOfRow row = makeGroup (atoi (row ! 0)) (c_str (row ! 1)) (c_str (row ! 2))"

definition memberOfRow :: "string list \<Rightarrow> GroupUser" where
  "memberOfRow row = User.extend (userOfRow row) \<lparr>user_role = c_str (row ! 3)\<rparr>"

primrec fillGroups ::
  "('r, 'd, 'e) db_env_scheme \<Rightarrow> Group list \<Rightarrow> (('r, 'd, 'x) db_state_scheme, Group list) state" where
  "fillGroups E [] = State_Monad.return []"
| "fillGroups E (g # gs) = do {
     res \<leftarrow> mysql_query E (queryMembersSql (group_id g));
     let g' = (case res of None \<Rightarrow> g | Some rows \<Rightarrow> g\<lparr>group_users := group_users g @ map memberOfRow rows\<rparr>);
     gs' \<leftarrow> fillGroups E gs;
     State_Monad.return (g' # gs')
   }"

definition GroupModel_queryGroups ::
  "('r, 'd, 'e) db_env_scheme \<Rightarrow> cint \<Rightarrow> (('r, 'd, 'x) db_state_scheme, Group list) state" where
  "GroupModel_queryGroups E userid = do {
     res \<leftarrow> mysql_query E (queryGroupsSql userid);
     fillGroups E (case res of None \<Rightarrow> [] | Some rows \<Rightarrow> map groupOfRow rows)
   }"

definition GroupModel_queryGroupUsers ::
  "('r, 'd, 'e) db_env_scheme \<Rightarrow> cint \<Rightarrow> cint \<Rightarrow> (('r, 'd, 'x) db_state_scheme, cint list) state" where
  "GroupModel_queryGroupUsers E userid groupid = do {
     res \<leftarrow> mysql_query E (queryGroupUsersSql userid groupid);
     State_Monad.return (case res of None \<Rightarrow> [] | Some rows \<Rightarrow> map (\<lambda>row. atoi (row ! 0)) rows)
   }"

definition OfflineMsgModel_insert ::
  "('r, 'd, 'e) db_env_scheme \<Rightarrow> cint \<Rightarrow> string \<Rightarrow> (('r, 'd, 'x) db_state_scheme, unit) state" where
  "OfflineMsgModel_insert E userid msg = do {
     mysql_update E (insertOfflineSql userid msg);
     State_Monad.return ()
   }"

definition OfflineMsgModel_remove ::
  "('r, 'd, 'e) db_env_scheme \<Rightarrow> cint \<Rightarrow> (('r, 'd, 'x) db_state_scheme, unit) state" where
  "OfflineMsgModel_remove E userid = do {
     mysql_update E (removeOfflineSql userid);
     State_Monad.return ()
   }"

definition OfflineMsgModel_query ::
  "('r, 'd, 'e) db_env_scheme \<Rightarrow> cint \<Rightarrow> (('r, 'd, 'x) db_state_scheme, string list) state" where
  "OfflineMsgModel_query E userid = do {
     res \<leftarrow> mysql_query E (queryOfflineSql userid);
     State_Monad.return (case res of None \<Rightarrow> [] | Some rows \<Rightarrow> map (\<lambda>row. c_str (row ! 0)) rows)
   }"

section \<open>Effects\<close>

definition db_after :: "('r, 'd, 'e) db_env_scheme \<Rightarrow> string \<Rightarrow> ('r, 'd, 'x) db_state_scheme \<Rightarrow> ('r, 'd, 'x) db_state_scheme" where
  "db_after E sql s = s\<lparr>database := snd (mysqlQuery E (c_str sql) (database s)), sqlLog := sqlLog s @ [c_str sql]\<rparr>"

lemma exec_mysqlCmd [simp]: "exec (mysqlCmd E sql) s = db_after E sql s"
  by (simp add: mysqlCmd_def exec_def db_after_def split_beta)

lemma result_mysqlCmd [simp]: "result (mysqlCmd E sql) s = fst (mysqlQuery E (c_str sql) (database s))"
  by (simp add: mysqlCmd_def result_def split_beta)

lemma exec_mysql [simp]:
  "exec (mysql_update E sql) s = db_after E sql s" "exec (mysql_query E sql) s = db_after E sql s"
  "exec (mysql_insert E sql) s = db_after E sql s"
  by (simp_all add: mysql_update_def mysql_query_def mysql_insert_def)

lemma exec_models [simp]:
  "exec (UserModel_insert E u) s = db_after E (insertUserSql u) s"
  "exec (UserModel_query E i) s = db_after E (queryUserSql i) s"
  "exec (UserModel_updateState E u) s = db_after E (updateStateSql u) s"
  "exec (UserModel_resetState E) s = db_after E resetStateSql s"
  "exec (FriendModel_insert E i j) s = db_after E (insertFriendSql i j) s"
  "exec (FriendModel_query E i) s = db_after E (queryFriendsSql i) s"
  "exec (GroupModel_createGroup E g) s = db_after E (createGroupSql g) s"
  "exec (GroupModel_addGroup E i j r) s = db_after E (addGroupSql i j r) s"
  "exec (GroupModel_queryGroupUsers E i j) s = db_after E (queryGroupUsersSql i j) s"
  "exec (OfflineMsgModel_insert E i m) s = db_after E (insertOfflineSql i m) s"
  "exec (OfflineMsgModel_remove E i) s = db_after E (removeOfflineSql i) s"
  "exec (OfflineMsgModel_query E i) s = db_after E (queryOfflineSql i) s"
  by (simp_all add: UserModel_insert_def UserModel_query_def UserModel_updateState_def UserModel_resetState_def
      FriendModel_insert_def FriendModel_query_def GroupModel_createGroup_def GroupModel_addGroup_def
      GroupModel_queryGroupUsers_def OfflineMsgModel_insert_def OfflineMsgModel_remove_def OfflineMsgModel_query_def)

lemma db_after_simps [simp]:
  "db_state.more (db_after E sql s) = db_state.more s" "redisSrv (db_after E sql s) = redisSrv s"
  "ticks (db_after E sql s) = ticks s" "cmdQueue (db_after E sql s) = cmdQueue s"
  "selfNode (db_after E sql s) = selfNode s" "running (db_after E sql s) = running s"
  "userRouteCache (db_after E sql s) = userRouteCache s" "nodeMetaCache (db_after E sql s) = nodeMetaCache s"
  "channels (db_after E sql s) = channels s" "connMap (db_after E sql s) = connMap s"
  "outbox (db_after E sql s) = outbox s" "connUp (db_after E sql s) = connUp s"
  "routerConfig (db_after E sql s) = routerConfig s" "loopQueue (db_after E sql s) = loopQueue s"
  "sqlLog (db_after E sql s) = sqlLog s @ [c_str sql]"
  by (simp_all add: db_after_def)

lemma fillGroups_frame:
  "db_state.more (exec (fillGroups E gs) s) = db_state.more s \<and> redisSrv (exec (fillGroups E gs) s) = redisSrv s \<and>
   outbox (exec (fillGroups E gs) s) = outbox s \<and> userRouteCache (exec (fillGroups E gs) s) = userRouteCache s \<and>
   ticks (exec (fillGroups E gs) s) = ticks s \<and> selfNode (exec (fillGroups E gs) s) = selfNode s \<and>
   sqlLog (exec (fillGroups E gs) s) = sqlLog s @ map (\<lambda>g. c_str (queryMembersSql (group_id g))) gs"
  by (induction gs arbitrary: s) (simp_all add: Let_def)

end
