(* ===== verification/LocalDelivery.thy ===== *)
theory LocalDelivery
  imports Models "HOL-Library.AList"
begin

text \<open>
  The local half of the class \<open>ChatService\<close> (\<open>src/server/chatservice.cpp\<close>): the table of
  connected users, split into 64 buckets, and the dispatchers that collect the messages for
  the connections of one event loop. The state of the service is defined here; the message
  handlers follow in \<open>ChatService\<close>, the interleaving of threads on one dispatcher in
  \<open>DispatchThreads\<close>.
\<close>

section \<open>Environment and state\<close>

text \<open>
  \<open>connLoop\<close> is the event loop that owns a connection. \<open>nodeOrder\<close> is the order in which
  an \<open>unordered_map\<close> from node ids to users is iterated.
\<close>

record ('r, 'd) service_env = "('r, 'd) db_env" +
  connLoop :: "conn \<Rightarrow> loop_id"
  nodeOrder :: "(string \<times> cint list) list \<Rightarrow> (string \<times> cint list) list"

datatype metric =
    LocalDelivery | RemoteRoute | RemoteRouteFail | OfflineFallback | StaleSession
  | OneChatSource | OneChatResolve | OneChatResolveNs | OneChatRemoteSend | OneChatRemoteSendNs
  | OneChatRemoteHandle | OneChatRemoteHandleNs
  | LocalLookup | LocalLookupNs | LocalLookupMiss
  | DispatchEnqueue | DispatchEnqueueNs | DispatchQueued | DispatchInline | DispatchDrainMsg
  | DispatchSendNs | DispatchQueueWaitNs | DispatchQueueWaitMaxNs | DispatchPeakQueueDepth

record LocalDeliveryTask =
  ld_conn :: conn
  ld_msg :: string
  ld_enqueueNs :: int

record LocalLoopDispatcher =
  dp_loop :: loop_id
  dp_pending :: "LocalDeliveryTask list"
  flushScheduled :: bool
  dp_pendingLimit :: nat

text \<open>
  \<open>hasRegistry\<close> and \<open>hasRouter\<close> say that the two pointers are set, \<open>currentLoop\<close> is the
  loop whose thread runs, \<open>flushQueue\<close> the loops on which a flush functor was queued.
  \<open>routed\<close> is a ghost: the messages the router has accepted, with node and receivers.
\<close>

record ('r, 'd) service_state = "('r, 'd) db_state" +
  connBuckets :: "(cint \<times> conn) list list"
  localDispatchers :: "loop_id \<rightharpoonup> LocalLoopDispatcher"
  localDeliveryQueueLimit :: nat
  serviceNode :: NodeMeta
  hasRegistry :: bool
  hasRouter :: bool
  metrics :: "metric \<Rightarrow> 64 word"
  currentLoop :: loop_id
  flushQueue :: "loop_id list"
  routed :: "(string \<times> cint list \<times> string) list"

text \<open>
  The constructor of \<open>ChatService\<close>, without the connection to Redis. \<open>env\<close> is the process
  environment after \<open>loadEnvFile\<close>.
\<close>

definition connBucketCount :: nat where
  "connBucketCount = 64"

definition service_init :: "environment \<Rightarrow> (('r, 'd, 'x) service_state_scheme, unit) state" where
  "service_init env = modify (\<lambda>s. s\<lparr>connBuckets := replicate connBucketCount [], localDispatchers := Map.empty,
     localDeliveryQueueLimit := localQueueLimitOf env, serviceNode := emptyNodeMeta, hasRegistry := False,
     hasRouter := False, metrics := (\<lambda>_. 0), flushQueue := [], routed := []\<rparr>)"

section \<open>Counters\<close>

definition add_metric :: "metric \<Rightarrow> int \<Rightarrow> (('r, 'd, 'x) service_state_scheme, unit) state" where
  "add_metric k v = modify (\<lambda>s. s\<lparr>metrics := (metrics s)(k := metrics s k + word_of_int v)\<rparr>)"

definition increment :: "metric \<Rightarrow> (('r, 'd, 'x) service_state_scheme, unit) state" where
  "increment k = add_metric k 1"

definition raisePeak :: "metric \<Rightarrow> 64 word \<Rightarrow> (metric \<Rightarrow> 64 word) \<Rightarrow> metric \<Rightarrow> 64 word" where
  "raisePeak k value m = (if sint (m k) < sint value then m(k := value) else m)"

definition updatePeak :: "metric \<Rightarrow> int \<Rightarrow> (('r, 'd, 'x) service_state_scheme, unit) state" where
  "updatePeak k v = modify (\<lambda>s. s\<lparr>metrics := raisePeak k (word_of_int v) (metrics s)\<rparr>)"

section \<open>The connection table\<close>

definition pickConnBucket :: "cint \<Rightarrow> nat" where
  "pickConnBucket userId =
     (if connBucketCount = 0 then 0
      else unat (scast (if 0 \<le> sint userId then userId else - userId) :: 64 word) mod connBucketCount)"

definition addLocalConnection :: "cint \<Rightarrow> conn \<Rightarrow> (('r, 'd, 'x) service_state_scheme, unit) state" where
  "addLocalConnection userId c = modify (\<lambda>s.
     let i = pickConnBucket userId
     in s\<lparr>connBuckets := (connBuckets s)[i := AList.update userId c (connBuckets s ! i)]\<rparr>)"

definition removeLocalConnection :: "cint \<Rightarrow> (('r, 'd, 'x) service_state_scheme, unit) state" where
  "removeLocalConnection userId = modify (\<lambda>s.
     let i = pickConnBucket userId
     in s\<lparr>connBuckets := (connBuckets s)[i := AList.delete userId (connBuckets s ! i)]\<rparr>)"

text \<open>
  The two nested loops of \<open>removeLocalConnectionByConn\<close>. The list of a bucket stands for
  the unspecified order in which its \<open>unordered_map\<close> is iterated.
\<close>

fun eraseByConn :: "conn \<Rightarrow> (cint \<times> conn) list \<Rightarrow> (cint \<times> (cint \<times> conn) list) option" where
  "eraseByConn c [] = None"
| "eraseByConn c ((u, c') # rest) =
     (if c' = c then Some (u, rest)
      else map_option (\<lambda>(v, rest'). (v, (u, c') # rest')) (eraseByConn c rest))"

fun eraseByConnLoop :: "conn \<Rightarrow> (cint \<times> conn) list list \<Rightarrow> cint \<times> (cint \<times> conn) list list" where
  "eraseByConnLoop c [] = (-1, [])"
| "eraseByConnLoop c (bucket # rest) =
     (case eraseByConn c bucket of
        Some (u, bucket') \<Rightarrow> (u, bucket' # rest)
      | None \<Rightarrow> let (u, rest') = eraseByConnLoop c rest in (u, bucket # rest'))"

definition removeLocalConnectionByConn :: "conn \<Rightarrow> (('r, 'd, 'x) service_state_scheme, cint) state" where
  "removeLocalConnectionByConn c = State (\<lambda>s.
     let (u, buckets) = eraseByConnLoop c (connBuckets s) in (u, s\<lparr>connBuckets := buckets\<rparr>))"

definition getLocalConnection :: "cint \<Rightarrow> (('r, 'd, 'x) service_state_scheme, conn option) state" where
  "getLocalConnection userId = gets (\<lambda>s. map_of (connBuckets s ! pickConnBucket userId) userId)"

section \<open>The dispatchers\<close>

text \<open>The blocks under \<open>pendingMutex\<close>; \<open>pushTask\<close> also tells whether a flush must be scheduled.\<close>

definition dispatcherFull :: "LocalLoopDispatcher \<Rightarrow> bool" where
  "dispatcherFull d \<longleftrightarrow> dp_pendingLimit d \<le> length (dp_pending d)"

definition pushTask :: "LocalDeliveryTask \<Rightarrow> LocalLoopDispatcher \<Rightarrow> bool \<times> LocalLoopDispatcher" where
  "pushTask task d = (\<not> flushScheduled d, d\<lparr>dp_pending := dp_pending d @ [task], flushScheduled := True\<rparr>)"

definition takeBatch :: "LocalLoopDispatcher \<Rightarrow> LocalDeliveryTask list \<times> LocalLoopDispatcher" where
  "takeBatch d =
     (if dp_pending d = [] then ([], d\<lparr>flushScheduled := False\<rparr>)
      else (dp_pending d, d\<lparr>dp_pending := []\<rparr>))"

definition getOrCreateLocalDispatcher ::
  "loop_id \<Rightarrow> (('r, 'd, 'x) service_state_scheme, LocalLoopDispatcher) state" where
  "getOrCreateLocalDispatcher loop = State (\<lambda>s.
     case localDispatchers s loop of
       Some d \<Rightarrow> (d, s)
     | None \<Rightarrow>
         let d = \<lparr>dp_loop = loop, dp_pending = [], flushScheduled = False,
                  dp_pendingLimit = localDeliveryQueueLimit s\<rparr>
         in (d, s\<lparr>localDispatchers := (localDispatchers s)(loop \<mapsto> d)\<rparr>))"

definition deliverTask ::
  "('r, 'd, 'e) service_env_scheme \<Rightarrow> LocalDeliveryTask \<Rightarrow> (('r, 'd, 'x) service_state_scheme, unit) state" where
  "deliverTask E task = do {
     drainStartNs \<leftarrow> readSteadyNs E;
     let queueWaitNs = drainStartNs - ld_enqueueNs task;
     add_metric DispatchQueueWaitNs queueWaitNs;
     updatePeak DispatchQueueWaitMaxNs queueWaitNs;
     connSend (ld_conn task) (ld_msg task);
     now \<leftarrow> readSteadyNs E;
     add_metric DispatchSendNs (now - drainStartNs);
     increment DispatchDrainMsg
   }"

text \<open>One turn of the outer loop of \<open>drainLocalDeliveriesInLoop\<close>: false ends it.\<close>

definition drainTurn ::
  "('r, 'd, 'e) service_env_scheme \<Rightarrow> loop_id \<Rightarrow> (('r, 'd, 'x) service_state_scheme, bool) state" where
  "drainTurn E loop = do {
     tasks \<leftarrow> State (\<lambda>s. let (tasks, d) = takeBatch (the (localDispatchers s loop))
                         in (tasks, s\<lparr>localDispatchers := (localDispatchers s)(loop \<mapsto> d)\<rparr>));
     for_each tasks (deliverTask E);
     State_Monad.return (tasks \<noteq> [])
   }"

text \<open>
  The loop, when no other thread uses the dispatcher meanwhile: sending adds no task, so
  after a turn that has found some the next one finds none (\<open>drainTurn_again\<close>).
\<close>

definition drainLocalDeliveriesInLoop ::
  "('r, 'd, 'e) service_env_scheme \<Rightarrow> loop_id \<Rightarrow> (('r, 'd, 'x) service_state_scheme, unit) state" where
  "drainLocalDeliveriesInLoop E loop = do {
     more \<leftarrow> drainTurn E loop;
     do_when more (do { drainTurn E loop; State_Monad.return () })
   }"

definition enqueueLocalDelivery ::
  "('r, 'd, 'e) service_env_scheme \<Rightarrow> conn \<Rightarrow> string \<Rightarrow> (('r, 'd, 'x) service_state_scheme, bool) state" where
  "enqueueLocalDelivery E c msg = do {
     enqueueStartNs \<leftarrow> readSteadyNs E;
     let loop = connLoop E c;
     dispatcher \<leftarrow> getOrCreateLocalDispatcher loop;
     if dispatcherFull dispatcher then State_Monad.return False
     else do {
       now \<leftarrow> readSteadyNs E;
       let (shouldSchedule, dispatcher') = pushTask \<lparr>ld_conn = c, ld_msg = msg, ld_enqueueNs = now\<rparr> dispatcher;
       modify (\<lambda>s. s\<lparr>localDispatchers := (localDispatchers s)(loop \<mapsto> dispatcher')\<rparr>);
       updatePeak DispatchPeakQueueDepth (int (length (dp_pending dispatcher')));
       now \<leftarrow> readSteadyNs E;
       add_metric DispatchEnqueueNs (now - enqueueStartNs);
       increment DispatchEnqueue;
       current \<leftarrow> gets currentLoop;
       do_when shouldSchedule
         (if current = loop then do {
            increment DispatchInline;
            drainLocalDeliveriesInLoop E loop
          }
          else do {
            increment DispatchQueued;
            modify (\<lambda>s. s\<lparr>flushQueue := flushQueue s @ [loop]\<rparr>)
          });
       State_Monad.return True
     }
   }"

definition deliverToLocalUser ::
  "('r, 'd, 'e) service_env_scheme \<Rightarrow> cint \<Rightarrow> string \<Rightarrow> (('r, 'd, 'x) service_state_scheme, bool) state" where
  "deliverToLocalUser E userId msg = do {
     lookupStartNs \<leftarrow> readSteadyNs E;
     found \<leftarrow> getLocalConnection userId;
     now \<leftarrow> readSteadyNs E;
     add_metric LocalLookupNs (now - lookupStartNs);
     increment LocalLookup;
     case found of
       None \<Rightarrow> do { increment LocalLookupMiss; State_Monad.return False }
     | Some c \<Rightarrow> enqueueLocalDelivery E c msg
   }"

section \<open>Effects\<close>


lemma exec_metrics [simp]:
  "exec (add_metric k v) s = s\<lparr>metrics := (metrics s)(k := metrics s k + word_of_int v)\<rparr>"
  "exec (increment k) s = s\<lparr>metrics := (metrics s)(k := metrics s k + 1)\<rparr>"
  "exec (updatePeak k v) s = s\<lparr>metrics := raisePeak k (word_of_int v) (metrics s)\<rparr>"
  by (simp_all add: add_metric_def increment_def updatePeak_def)

text \<open>
  What a delivery does apart from reading the clock and counting: \<open>quiet\<close> blanks both out.
\<close>

definition quiet :: "('r, 'd, 'x) service_state_scheme \<Rightarrow> ('r, 'd, 'x) service_state_scheme" where
  "quiet s = s\<lparr>ticks := 0, metrics := (\<lambda>_. 0)\<rparr>"

lemma quiet_upd [simp]:
  "quiet (s\<lparr>ticks := n\<rparr>) = quiet s" "quiet (s\<lparr>metrics := m\<rparr>) = quiet s"
  "quiet (s\<lparr>outbox := b\<rparr>) = (quiet s)\<lparr>outbox := b\<rparr>"
  "quiet (s\<lparr>localDispatchers := d\<rparr>) = (quiet s)\<lparr>localDispatchers := d\<rparr>"
  "quiet (s\<lparr>flushQueue := q\<rparr>) = (quiet s)\<lparr>flushQueue := q\<rparr>"
  "quiet (s\<lparr>routed := r\<rparr>) = (quiet s)\<lparr>routed := r\<rparr>"
  by (simp_all add: quiet_def)

lemma quiet_obs:
  assumes "quiet s = quiet t"
  shows "outbox s = outbox t" "localDispatchers s = localDispatchers t" "flushQueue s = flushQueue t"
    "connBuckets s = connBuckets t" "sqlLog s = sqlLog t" "database s = database t" "routed s = routed t"
    "currentLoop s = currentLoop t" "localDeliveryQueueLimit s = localDeliveryQueueLimit t"
    "redisSrv s = redisSrv t" "channels s = channels t" "connMap s = connMap t" "connUp s = connUp t"
    "serviceNode s = serviceNode t" "hasRegistry s = hasRegistry t" "hasRouter s = hasRouter t"
    "userRouteCache s = userRouteCache t" "nodeMetaCache s = nodeMetaCache t" "selfNode s = selfNode t"
    "routerConfig s = routerConfig t" "service_state.more s = service_state.more t"
  using arg_cong [OF assms, of outbox] arg_cong [OF assms, of localDispatchers] arg_cong [OF assms, of flushQueue]
    arg_cong [OF assms, of connBuckets] arg_cong [OF assms, of sqlLog] arg_cong [OF assms, of database]
    arg_cong [OF assms, of routed] arg_cong [OF assms, of currentLoop] arg_cong [OF assms, of localDeliveryQueueLimit]
    arg_cong [OF assms, of redisSrv] arg_cong [OF assms, of channels] arg_cong [OF assms, of connMap]
    arg_cong [OF assms, of connUp] arg_cong [OF assms, of serviceNode] arg_cong [OF assms, of hasRegistry]
    arg_cong [OF assms, of hasRouter] arg_cong [OF assms, of userRouteCache] arg_cong [OF assms, of nodeMetaCache]
    arg_cong [OF assms, of selfNode] arg_cong [OF assms, of routerConfig] arg_cong [OF assms, of service_state.more]
  by (simp_all add: quiet_def)

definition task_send :: "LocalDeliveryTask \<Rightarrow> conn \<times> string" where
  "task_send t = (ld_conn t, ld_msg t)"

lemma quiet_deliverTask: "quiet (exec (deliverTask E t) s) = quiet (s\<lparr>outbox := outbox s @ [task_send t]\<rparr>)"
  by (simp add: deliverTask_def Let_def task_send_def connSend_def)

lemma quiet_deliverTasks:
  "quiet (fold (\<lambda>t. exec (deliverTask E t)) ts s) = quiet (s\<lparr>outbox := outbox s @ map task_send ts\<rparr>)"
proof (induction ts arbitrary: s)
  case (Cons t ts)
  have "outbox (exec (deliverTask E t) s) = outbox s @ [task_send t]" using quiet_obs(1) [OF quiet_deliverTask] by simp
  then show ?case by (simp add: Cons.IH quiet_deliverTask)
qed (simp add: quiet_def)

lemma drainTurn_run:
  assumes "localDispatchers s loop = Some d"
  shows "result (drainTurn E loop) s = (dp_pending d \<noteq> [])"
    and "quiet (exec (drainTurn E loop) s) = quiet (s\<lparr>outbox := outbox s @ map task_send (dp_pending d),
           localDispatchers := (localDispatchers s)(loop \<mapsto> snd (takeBatch d))\<rparr>)"
proof -
  have batch: "fst (takeBatch d) = dp_pending d" by (simp add: takeBatch_def)
  show "result (drainTurn E loop) s = (dp_pending d \<noteq> [])"
    using assms batch by (simp add: drainTurn_def result_def [of "State _"] exec_def [of "State _"] split_beta)
  have "exec (drainTurn E loop) s = fold (\<lambda>t. exec (deliverTask E t)) (dp_pending d)
      (s\<lparr>localDispatchers := (localDispatchers s)(loop \<mapsto> snd (takeBatch d))\<rparr>)"
    using assms batch by (simp add: drainTurn_def result_def [of "State _"] exec_def [of "State _"] split_beta)
  then show "quiet (exec (drainTurn E loop) s) = quiet (s\<lparr>outbox := outbox s @ map task_send (dp_pending d),
      localDispatchers := (localDispatchers s)(loop \<mapsto> snd (takeBatch d))\<rparr>)"
    by (simp add: quiet_deliverTasks)
qed

lemma drainTurn_again:
  assumes "localDispatchers s loop = Some d"
  shows "\<not> result (drainTurn E loop) (exec (drainTurn E loop) s)"
proof -
  have "localDispatchers (exec (drainTurn E loop) s) loop = Some (snd (takeBatch d))"
    using quiet_obs(2) [OF drainTurn_run(2) [OF assms, of E]] by simp
  from drainTurn_run(1) [OF this, of E] show ?thesis by (simp add: takeBatch_def)
qed

lemma drain_run:
  assumes d: "localDispatchers s loop = Some d"
  shows "quiet (exec (drainLocalDeliveriesInLoop E loop) s) =
    quiet (s\<lparr>outbox := outbox s @ map task_send (dp_pending d),
      localDispatchers := (localDispatchers s)(loop \<mapsto> d\<lparr>dp_pending := [], flushScheduled := False\<rparr>)\<rparr>)"
proof (cases "dp_pending d = []")
  case True
  then have same: "d\<lparr>dp_pending := [], flushScheduled := False\<rparr> = d\<lparr>flushScheduled := False\<rparr>" by (cases d) simp
  show ?thesis unfolding same
    using drainTurn_run [OF d, of E] True by (simp add: drainLocalDeliveriesInLoop_def takeBatch_def)
next
  case False
  let ?t = "exec (drainTurn E loop) s"
  note one = drainTurn_run(2) [OF d, of E]
  have "localDispatchers ?t loop = Some (d\<lparr>dp_pending := []\<rparr>)"
    using quiet_obs(2) [OF one] False by (simp add: takeBatch_def)
  from drainTurn_run(2) [OF this, of E] False show ?thesis
    using drainTurn_run(1) [OF d, of E] one quiet_obs(1,2) [OF one]
    by (simp add: drainLocalDeliveriesInLoop_def takeBatch_def)
qed

text \<open>The dispatcher that \<open>enqueueLocalDelivery\<close> works on.\<close>

definition dispatcherFor :: "loop_id \<Rightarrow> ('r, 'd, 'x) service_state_scheme \<Rightarrow> LocalLoopDispatcher" where
  "dispatcherFor loop s = (case localDispatchers s loop of
     Some d \<Rightarrow> d
   | None \<Rightarrow> \<lparr>dp_loop = loop, dp_pending = [], flushScheduled = False, dp_pendingLimit = localDeliveryQueueLimit s\<rparr>)"

lemma run_getOrCreate [simp]:
  "result (getOrCreateLocalDispatcher loop) s = dispatcherFor loop s"
  "exec (getOrCreateLocalDispatcher loop) s = s\<lparr>localDispatchers := (localDispatchers s)(loop \<mapsto> dispatcherFor loop s)\<rparr>"
  by (auto simp: getOrCreateLocalDispatcher_def dispatcherFor_def result_def exec_def Let_def fun_upd_idem split: option.split)

lemma dispatcherFor_upd [simp]:
  "dispatcherFor loop (s\<lparr>ticks := n\<rparr>) = dispatcherFor loop s" "dispatcherFor loop (s\<lparr>metrics := m\<rparr>) = dispatcherFor loop s"
  by (simp_all add: dispatcherFor_def cong: option.case_cong)

lemma enqueue_full:
  assumes "dispatcherFull (dispatcherFor (connLoop E c) s)"
  shows "\<not> result (enqueueLocalDelivery E c msg) s"
    and "quiet (exec (enqueueLocalDelivery E c msg) s) =
      quiet (s\<lparr>localDispatchers := (localDispatchers s)(connLoop E c \<mapsto> dispatcherFor (connLoop E c) s)\<rparr>)"
  using assms by (simp_all add: enqueueLocalDelivery_def Let_def)

lemma enqueue_room:
  fixes c :: conn and msg :: string
  assumes room: "\<not> dispatcherFull (dispatcherFor (connLoop E c) s)"
  defines "l \<equiv> connLoop E c"
  defines "d \<equiv> snd (pushTask \<lparr>ld_conn = c, ld_msg = msg, ld_enqueueNs = steadyNs E (Suc (ticks s))\<rparr> (dispatcherFor l s))"
  shows "result (enqueueLocalDelivery E c msg) s"
    and "quiet (exec (enqueueLocalDelivery E c msg) s) = quiet
       (if flushScheduled (dispatcherFor l s) then s\<lparr>localDispatchers := (localDispatchers s)(l \<mapsto> d)\<rparr>
        else if currentLoop s = l then
          s\<lparr>outbox := outbox s @ map task_send (dp_pending d),
            localDispatchers := (localDispatchers s)(l \<mapsto> d\<lparr>dp_pending := [], flushScheduled := False\<rparr>)\<rparr>
        else s\<lparr>localDispatchers := (localDispatchers s)(l \<mapsto> d), flushQueue := flushQueue s @ [l]\<rparr>)"
  using room
  by (auto simp: enqueueLocalDelivery_def Let_def split_beta pushTask_def d_def l_def drain_run fun_upd_same simp del: fun_upd_apply)

end
