(* ===== verification/OfflineStore.thy ===== *)
theory OfflineStore
  imports Models
begin

text \<open>
  What the service relies on when it falls back to offline messages
  (\<open>src/server/model/offlinemessagemodel.cpp\<close>): a message put in for a user is among the
  messages later taken out for that user. The interface is the locale \<open>message_store\<close>; the
  three operations of \<open>OfflineMsgModel\<close> are its interpretation, for messages that survive the
  1024-byte statement buffer and the SQL string literal. The last section says what happens
  to the others.
\<close>

section \<open>The interface\<close>

text \<open>
  \<open>stored s u\<close> is a multiset, because the query has no \<open>ORDER BY\<close>.
\<close>

locale message_store =
  fixes put :: "cint \<Rightarrow> string \<Rightarrow> ('s, unit) state"
    and fetch :: "cint \<Rightarrow> ('s, string list) state"
    and clear :: "cint \<Rightarrow> ('s, unit) state"
    and stored :: "'s \<Rightarrow> cint \<Rightarrow> string multiset"
    and known :: "'s \<Rightarrow> cint set"
    and fits :: "cint \<Rightarrow> string \<Rightarrow> bool"
    and good :: "'s \<Rightarrow> bool"
  assumes good_ops: "good s \<Longrightarrow> good (exec (put u m) s)" "good s \<Longrightarrow> good (exec (fetch u) s)"
      "good s \<Longrightarrow> good (exec (clear u) s)"
    and put_stored: "good s \<Longrightarrow> fits u m \<Longrightarrow>
          stored (exec (put u m) s) = (if u \<in> known s then (stored s)(u := add_mset m (stored s u)) else stored s)"
    and put_known: "good s \<Longrightarrow> fits u m \<Longrightarrow> known (exec (put u m) s) = known s"
    and fetch_stored: "good s \<Longrightarrow> mset (result (fetch u) s) = stored s u"
    and fetch_same: "good s \<Longrightarrow> stored (exec (fetch u) s) = stored s"
    and clear_stored: "good s \<Longrightarrow> stored (exec (clear u) s) = (stored s)(u := {#})"
begin

definition put_all :: "(cint \<times> string) list \<Rightarrow> ('s, unit) state" where
  "put_all ms = for_each ms (\<lambda>(u, m). put u m)"

lemma put_all_stored:
  "good s \<Longrightarrow> \<forall>(u, m) \<in> set ms. fits u m \<Longrightarrow>
   good (exec (put_all ms) s) \<and>
   stored (exec (put_all ms) s) u =
     stored s u + (if u \<in> known s then mset (map snd (filter (\<lambda>p. fst p = u) ms)) else {#})"
proof (induction ms arbitrary: s)
  case Nil
  then show ?case by (simp add: put_all_def)
next
  case (Cons p ms)
  obtain v m where p: "p = (v, m)" by fastforce
  have "good (exec (put v m) s)" using Cons.prems(1) by (rule good_ops)
  moreover have "stored (exec (put v m) s) =
      (if v \<in> known s then (stored s)(v := add_mset m (stored s v)) else stored s)"
    using Cons.prems p by (intro put_stored) auto
  moreover have "known (exec (put v m) s) = known s" using Cons.prems p by (intro put_known) auto
  ultimately show ?case using Cons.IH [of "exec (put v m) s"] Cons.prems(2) p
    by (auto simp: put_all_def)
qed

text \<open>What \<open>login\<close> does: fetch, then clear. Nothing is left and nothing is missing.\<close>

lemma put_fetch_clear:
  assumes "good s" and "\<forall>(u, m) \<in> set ms. fits u m"
  defines "t \<equiv> exec (put_all ms) s"
  shows "mset (result (fetch u) t) =
      stored s u + (if u \<in> known s then mset (map snd (filter (\<lambda>p. fst p = u) ms)) else {#}) \<and>
    result (fetch u) (exec (clear u) (exec (fetch u) t)) = []"
proof -
  have t: "good t"
    "stored t u = stored s u + (if u \<in> known s then mset (map snd (filter (\<lambda>p. fst p = u) ms)) else {#})"
    using put_all_stored [OF assms(1,2), of u] by (simp_all add: t_def)
  have "mset (result (fetch u) (exec (clear u) (exec (fetch u) t))) = {#}"
    using t(1) by (simp add: fetch_stored clear_stored good_ops)
  then show ?thesis using fetch_stored [OF t(1), of u] t(2) by simp
qed

end

section \<open>The documented behaviour of MySQL on these statements\<close>

text \<open>A text that means itself inside a single-quoted SQL literal.\<close>

definition plain_text :: "string \<Rightarrow> bool" where
  "plain_text m \<longleftrightarrow> NUL \<notin> set m \<and> CHR 0x27 \<notin> set m \<and> CHR 0x5C \<notin> set m"

definition insertOfflineText :: "cint \<Rightarrow> string \<Rightarrow> string" where
  "insertOfflineText u m = ''insert into offlinemessage values('' @ to_string u @ '', '' @ quoted m @ '')''"

text \<open>
  The bytes that mean the same in the character set of the connection, which
  \<open>MySQL::connect\<close> sets to \<open>gbk\<close>, and in the one of the table, \<open>utf8mb4\<close>.
\<close>

definition ascii_text :: "string \<Rightarrow> bool" where
  "ascii_text m \<longleftrightarrow> list_all (\<lambda>c. of_char c < (128 :: nat)) m"

text \<open>
  \<open>view\<close> reads the table \<open>offlinemessage\<close>, \<open>users\<close> the ids of the table \<open>user\<close>: the first
  refers to the second with a foreign key (\<open>docs/schema.sql\<close>), so an insert for an id that is
  not there fails and stores nothing. The column has room for 1024 characters.
\<close>

definition offline_documented ::
  "(string \<Rightarrow> 'd \<Rightarrow> mysql_reply \<times> 'd) \<Rightarrow> ('d \<Rightarrow> cint \<Rightarrow> string multiset) \<Rightarrow> ('d \<Rightarrow> cint set) \<Rightarrow> bool" where
  "offline_documented q view users \<longleftrightarrow>
     (\<forall>u m d. plain_text m \<longrightarrow> ascii_text m \<longrightarrow> length m \<le> 1024 \<longrightarrow> u \<in> users d \<longrightarrow>
        (\<exists>i d'. q (insertOfflineText u m) d = (Done i, d') \<and>
           view d' = (view d)(u := add_mset m (view d u)) \<and> users d' = users d)) \<and>
     (\<forall>u m d. plain_text m \<longrightarrow> ascii_text m \<longrightarrow> length m \<le> 1024 \<longrightarrow> u \<notin> users d \<longrightarrow>
        (\<exists>d'. q (insertOfflineText u m) d = (Failed, d') \<and> view d' = view d \<and> users d' = users d)) \<and>
     (\<forall>u d. \<exists>rows d'. q (queryOfflineSql u) d = (Rows rows, d') \<and> view d' = view d \<and> users d' = users d \<and>
        mset (map (\<lambda>row. c_str (row ! 0)) rows) = view d u) \<and>
     (\<forall>u d. \<exists>i d'. q (removeOfflineSql u) d = (Done i, d') \<and> view d' = (view d)(u := {#}) \<and> users d' = users d)"

definition fits :: "cint \<Rightarrow> string \<Rightarrow> bool" where
  "fits u m \<longleftrightarrow> plain_text m \<and> ascii_text m \<and> length (insertOfflineText u m) < sqlBuffer"

lemma quoted_no_nul: "NUL \<notin> set (quoted m)"
  using c_str_no_nul [of m] by (simp add: quoted_def) (simp add: NUL_def)

lemma insertOfflineText_no_nul: "NUL \<notin> set (insertOfflineText u m)"
  using quoted_no_nul [of m] to_string_no_nul [of u] by (simp add: insertOfflineText_def) (simp add: NUL_def)

lemma insertOfflineSql_text: "insertOfflineSql u m = snprintf sqlBuffer (insertOfflineText u m)"
  by (simp add: insertOfflineSql_def insertOfflineText_def)

lemma c_str_take: "NUL \<notin> set s \<Longrightarrow> c_str (take n s) = take n s"
  by (rule c_str_id) (auto dest: in_set_takeD)

lemma c_str_offline_sql [simp]:
  "c_str (insertOfflineSql u m) = insertOfflineSql u m" "c_str (queryOfflineSql u) = queryOfflineSql u"
  "c_str (removeOfflineSql u) = removeOfflineSql u"
proof -
  show "c_str (insertOfflineSql u m) = insertOfflineSql u m"
    by (simp add: insertOfflineSql_text snprintf_def c_str_take insertOfflineText_no_nul)
  have "NUL \<notin> set (''select message from offlinemessage where userid = '' @ to_string u)"
    "NUL \<notin> set (''delete from offlinemessage where userid = '' @ to_string u)"
    using to_string_no_nul [of u] by (simp_all add: NUL_def)
  then show "c_str (queryOfflineSql u) = queryOfflineSql u" "c_str (removeOfflineSql u) = removeOfflineSql u"
    unfolding queryOfflineSql_def removeOfflineSql_def snprintf_def by (blast intro: c_str_take)+
qed

lemma offline_docD:
  assumes "offline_documented q view users"
  shows "plain_text m \<Longrightarrow> ascii_text m \<Longrightarrow> length m \<le> 1024 \<Longrightarrow>
      \<exists>r d'. q (insertOfflineText u m) d = (r, d') \<and> users d' = users d \<and>
        view d' = (if u \<in> users d then (view d)(u := add_mset m (view d u)) else view d)"
    and "\<exists>rows d'. q (queryOfflineSql u) d = (Rows rows, d') \<and> view d' = view d \<and>
        mset (map (\<lambda>row. c_str (row ! 0)) rows) = view d u"
    and "\<exists>i d'. q (removeOfflineSql u) d = (Done i, d') \<and> view d' = (view d)(u := {#})"
proof -
  note doc = assms [unfolded offline_documented_def]
  show "\<exists>r d'. q (insertOfflineText u m) d = (r, d') \<and> users d' = users d \<and>
      view d' = (if u \<in> users d then (view d)(u := add_mset m (view d u)) else view d)"
    if "plain_text m" "ascii_text m" "length m \<le> 1024"
  proof (cases "u \<in> users d")
    case True
    with doc [THEN conjunct1, rule_format, OF that] show ?thesis by fastforce
  next
    case False
    with doc [THEN conjunct2, THEN conjunct1, rule_format, OF that] show ?thesis by fastforce
  qed
  show "\<exists>rows d'. q (queryOfflineSql u) d = (Rows rows, d') \<and> view d' = view d \<and>
        mset (map (\<lambda>row. c_str (row ! 0)) rows) = view d u"
    using doc [THEN conjunct2, THEN conjunct2, THEN conjunct1, rule_format, of u d] by blast
  show "\<exists>i d'. q (removeOfflineSql u) d = (Done i, d') \<and> view d' = (view d)(u := {#})"
    using doc [THEN conjunct2, THEN conjunct2, THEN conjunct2, rule_format, of u d] by blast
qed

lemma fits_statement:
  assumes "fits u m"
  shows "insertOfflineSql u m = insertOfflineText u m" "plain_text m" "ascii_text m" "length m \<le> 1024"
  using assms by (auto simp: fits_def insertOfflineSql_text snprintf_id sqlBuffer_def insertOfflineText_def
    quoted_def plain_text_def c_str_id)

lemma insert_documented:
  fixes s :: "('r, 'd, 'x) db_state_scheme"
  assumes doc: "offline_documented (mysqlQuery E) view users" and fit: "fits u m"
  shows "view (database (exec (OfflineMsgModel_insert E u m) s)) =
      (if u \<in> users (database s) then (view (database s))(u := add_mset m (view (database s) u))
       else view (database s))"
    and "users (database (exec (OfflineMsgModel_insert E u m) s)) = users (database s)"
proof -
  obtain r d' where "mysqlQuery E (insertOfflineText u m) (database s) = (r, d')" "users d' = users (database s)"
    "view d' = (if u \<in> users (database s) then (view (database s))(u := add_mset m (view (database s) u))
       else view (database s))"
    using offline_docD(1) [OF doc fits_statement(2-4) [OF fit], of u "database s"] by blast
  then show "view (database (exec (OfflineMsgModel_insert E u m) s)) =
      (if u \<in> users (database s) then (view (database s))(u := add_mset m (view (database s) u))
       else view (database s))"
    and "users (database (exec (OfflineMsgModel_insert E u m) s)) = users (database s)"
    using fits_statement(1) [OF fit] by (simp_all add: db_after_def c_str_id insertOfflineText_no_nul)
qed

interpretation offline_store:
  message_store "OfflineMsgModel_insert E" "OfflineMsgModel_query E" "OfflineMsgModel_remove E"
    "\<lambda>s :: ('r, 'd, 'x) db_state_scheme. view (database s)"
    "\<lambda>s :: ('r, 'd, 'x) db_state_scheme. users (database s)" fits
    "\<lambda>_. offline_documented (mysqlQuery E) view users" for E view users
proof unfold_locales
  fix s :: "('r, 'd, 'x) db_state_scheme" and u m
  assume doc: "offline_documented (mysqlQuery E) view users"
  show "view (database (exec (OfflineMsgModel_insert E u m) s)) =
      (if u \<in> users (database s) then (view (database s))(u := add_mset m (view (database s) u))
       else view (database s))" if "fits u m"
    by (rule insert_documented(1) [OF doc that])
  show "users (database (exec (OfflineMsgModel_insert E u m) s)) = users (database s)" if "fits u m"
    by (rule insert_documented(2) [OF doc that])
  show "mset (result (OfflineMsgModel_query E u) s) = view (database s) u"
  proof -
    from offline_docD(2) [OF doc, of u "database s"] show ?thesis
      by (auto simp: OfflineMsgModel_query_def mysql_query_def)
  qed
  show "view (database (exec (OfflineMsgModel_query E u) s)) = view (database s)"
    using offline_docD(2) [OF doc, of u "database s"] by (auto simp: db_after_def)
  show "view (database (exec (OfflineMsgModel_remove E u) s)) = (view (database s))(u := {#})"
    using offline_docD(3) [OF doc, of u "database s"] by (auto simp: db_after_def)

qed

section \<open>Properties\<close>

text \<open>
  C21. An offline message is not lost and not delivered twice. The conditions are those of
  \<open>fits\<close> and of the schema: each message is plain ASCII without quote, backslash and NUL and
  its statement fits the 1024-byte buffer, and MySQL answers as documented, so that an insert
  succeeds exactly for the ids of the table \<open>user\<close>. Then, for any sequence of such messages
  put in for any ids: what a user's login fetches is what was stored for that user before
  plus, if the user is in the table \<open>user\<close>, exactly the messages put in for that user (and if
  not, none of them: the foreign key refuses them); after the following \<open>remove\<close> the user has
  none.
\<close>

theorem offline_roundtrip:
  fixes s :: "('r, 'd, 'x) db_state_scheme" and E :: "('r, 'd, 'e) db_env_scheme"
  assumes doc: "offline_documented (mysqlQuery E) view users" and fit: "\<forall>(u, m) \<in> set ms. fits u m"
    and t: "t = exec (for_each ms (\<lambda>(u, m). OfflineMsgModel_insert E u m)) s"
  shows "mset (result (OfflineMsgModel_query E u) t) =
      view (database s) u +
        (if u \<in> users (database s) then mset (map snd (filter (\<lambda>p. fst p = u) ms)) else {#}) \<and>
    result (OfflineMsgModel_query E u) (exec (OfflineMsgModel_remove E u) (exec (OfflineMsgModel_query E u) t)) = []"
  using offline_store.put_fetch_clear [OF doc fit, of u s] unfolding offline_store.put_all_def t .

text \<open>
  A database that stores offline messages, for the witnesses. Its table \<open>user\<close> holds the
  positive ids.
\<close>

type_synonym sample_db = "(cint \<times> string) list"

fun split_at :: "char \<Rightarrow> string \<Rightarrow> string \<times> string" where
  "split_at c [] = ([], [])"
| "split_at c (x # xs) = (if x = c then ([], xs) else map_prod (Cons x) id (split_at c xs))"

definition sampleQuery :: "string \<Rightarrow> sample_db \<Rightarrow> mysql_reply \<times> sample_db" where
  "sampleQuery sql d =
     (if take 34 sql = ''insert into offlinemessage values('' then
        let (u, rest) = split_at (CHR '','') (drop 34 sql); m = fst (split_at (CHR 0x27) (drop 2 rest))
        in (if 0 < sint (atoi u) then (Done 0, d @ [(atoi u, m)]) else (Failed, d))
      else if take 50 sql = ''select message from offlinemessage where userid = '' then
        (Rows (map (\<lambda>p. [snd p]) (filter (\<lambda>p. fst p = atoi (drop 50 sql)) d)), d)
      else if take 42 sql = ''delete from offlinemessage where userid = '' then
        (Done 0, filter (\<lambda>p. fst p \<noteq> atoi (drop 42 sql)) d)
      else (Done 1, d))"

definition sampleUsers :: "sample_db \<Rightarrow> cint set" where
  "sampleUsers d = {u. 0 < sint u}"

definition sampleStored :: "sample_db \<Rightarrow> cint \<Rightarrow> string multiset" where
  "sampleStored d u = mset (map (\<lambda>p. c_str (snd p)) (filter (\<lambda>p. fst p = u) d))"

lemma split_at_append: "c \<notin> set xs \<Longrightarrow> split_at c (xs @ c # ys) = (xs, ys)"
  by (induction xs) auto

lemma to_string_no_comma: "CHR '','' \<notin> set (to_string u)"
proof -
  have "c \<in> set (show_nat n) \<Longrightarrow> c \<noteq> CHR '',''" for c n
    using show_nat_digits [of c n] by (auto simp: is_digit_def)
  then show ?thesis by (auto simp: to_string_def show_int_def)
qed

lemma sampleQuery_insert:
  assumes "plain_text m"
  shows "sampleQuery (insertOfflineText u m) d = (if 0 < sint u then (Done 0, d @ [(u, m)]) else (Failed, d))"
proof -
  have "c_str m = m" "CHR 0x27 \<notin> set m" using assms by (simp_all add: plain_text_def c_str_id)
  then have "split_at (CHR 0x27) (m @ CHR 0x27 # '')'') = (m, '')'')" by (simp add: split_at_append)
  moreover have "insertOfflineText u m = ''insert into offlinemessage values('' @ to_string u @ CHR '','' # CHR '' '' # CHR 0x27 # m @ CHR 0x27 # '')''"
    using \<open>c_str m = m\<close> by (simp add: insertOfflineText_def quoted_def)
  ultimately show ?thesis
    by (simp add: sampleQuery_def split_at_append [OF to_string_no_comma])
qed

lemma length_show_nat: "0 < k \<Longrightarrow> n < 10 ^ k \<Longrightarrow> length (show_nat n) \<le> k"
proof (induction k arbitrary: n)
  case (Suc k)
  show ?case
  proof (cases "n < 10")
    case True
    then show ?thesis by (subst show_nat.simps) simp
  next
    case False
    have "0 < k" using Suc.prems False by (cases k) auto
    moreover have "n div 10 < 10 ^ k" using Suc.prems by (simp add: less_mult_imp_div_less mult.commute)
    ultimately have "length (show_nat (n div 10)) \<le> k" by (rule Suc.IH)
    with False show ?thesis by (subst show_nat.simps) simp
  qed
qed simp

lemma length_to_string: "length (to_string u) \<le> 11"
proof -
  have "nat \<bar>sint u\<bar> < 10 ^ 10" using sint_range32 [of u] by simp
  then have "length (show_nat (nat \<bar>sint u\<bar>)) \<le> 10" by (intro length_show_nat) simp_all
  then show ?thesis by (auto simp: to_string_def show_int_def)
qed

lemma sqlBuffer_fits: "length s \<le> 1000 \<Longrightarrow> snprintf sqlBuffer s = s"
  by (rule snprintf_id) (simp add: sqlBuffer_def)

lemma sampleQuery_select:
  "sampleQuery (queryOfflineSql u) d = (Rows (map (\<lambda>p. [snd p]) (filter (\<lambda>p. fst p = u) d)), d)"
proof -
  have "queryOfflineSql u = ''select message from offlinemessage where userid = '' @ to_string u"
    unfolding queryOfflineSql_def using length_to_string [of u] by (intro sqlBuffer_fits) simp
  then show ?thesis by (simp add: sampleQuery_def)
qed

lemma sampleQuery_delete:
  "sampleQuery (removeOfflineSql u) d = (Done 0, filter (\<lambda>p. fst p \<noteq> u) d)"
proof -
  have "removeOfflineSql u = ''delete from offlinemessage where userid = '' @ to_string u"
    unfolding removeOfflineSql_def using length_to_string [of u] by (intro sqlBuffer_fits) simp
  then show ?thesis by (simp add: sampleQuery_def)
qed

lemma sample_offline_documented: "offline_documented sampleQuery sampleStored sampleUsers"
  unfolding offline_documented_def
proof (intro conjI allI impI)
  fix u m d
  assume m: "plain_text m" and u: "u \<notin> sampleUsers d"
  with sampleQuery_insert [OF m, of u d]
  show "\<exists>d'. sampleQuery (insertOfflineText u m) d = (Failed, d') \<and> sampleStored d' = sampleStored d \<and>
      sampleUsers d' = sampleUsers d" by (simp add: sampleUsers_def)
next
  fix u m d
  assume m: "plain_text m" and u: "u \<in> sampleUsers d"
  then have "c_str m = m" by (simp add: plain_text_def c_str_id)
  then have "sampleStored (d @ [(u, m)]) = (sampleStored d)(u := add_mset m (sampleStored d u))"
    by (auto simp: sampleStored_def fun_eq_iff)
  with sampleQuery_insert [OF m, of u d] u
  show "\<exists>i d'. sampleQuery (insertOfflineText u m) d = (Done i, d') \<and>
      sampleStored d' = (sampleStored d)(u := add_mset m (sampleStored d u)) \<and> sampleUsers d' = sampleUsers d"
    by (simp add: sampleUsers_def)
next
  fix u d
  show "\<exists>rows d'. sampleQuery (queryOfflineSql u) d = (Rows rows, d') \<and> sampleStored d' = sampleStored d \<and>
      sampleUsers d' = sampleUsers d \<and> mset (map (\<lambda>row. c_str (row ! 0)) rows) = sampleStored d u"
    unfolding sampleUsers_def
    by (simp add: sampleQuery_select sampleStored_def o_def flip: mset_map)
next
  fix u d
  have "sampleStored (filter (\<lambda>p. fst p \<noteq> u) d) = (sampleStored d)(u := {#})"
  proof -
    have "filter (\<lambda>p. fst p = v) (filter (\<lambda>p. fst p \<noteq> u) d) = (if v = u then [] else filter (\<lambda>p. fst p = v) d)" for v
      by (induction d) auto
    then show ?thesis by (auto simp only: sampleStored_def fun_eq_iff fun_upd_apply split: if_splits) simp_all
  qed
  then show "\<exists>i d'. sampleQuery (removeOfflineSql u) d = (Done i, d') \<and> sampleStored d' = (sampleStored d)(u := {#}) \<and>
      sampleUsers d' = sampleUsers d"
    by (simp add: sampleQuery_delete sampleUsers_def)
qed

definition sampleDbEnv :: "(sample_redis, sample_db) db_env" where
  "sampleDbEnv = \<lparr>redisCommand = sampleRedis, steadyNs = (\<lambda>n. int n), systemMs = (\<lambda>n. 1000), stringHash = length,
     jdump = (\<lambda>_. Some ''{}''), jparse = (\<lambda>_. Some (JObj [])), mysqlQuery = sampleQuery\<rparr>"

definition sampleDbState :: "(sample_redis, sample_db) db_state" where
  "sampleDbState = router_state.extend sampleRouter \<lparr>database = [], sqlLog = []\<rparr>"

lemma fits_short:
  assumes "length m \<le> 900" "plain_text m" "ascii_text m"
  shows "fits u m"
  using assms length_to_string [of u] length_c_str [of m]
  by (simp add: fits_def insertOfflineText_def quoted_def sqlBuffer_def)

theorem offline_roundtrip_witness:
  "mset (result (OfflineMsgModel_query sampleDbEnv 5)
      (exec (for_each [(5, ''a''), (6, ''b''), (5, ''c'')] (\<lambda>(u, m). OfflineMsgModel_insert sampleDbEnv u m)) sampleDbState)) =
    {#''a'', ''c''#}"
proof -
  have fit: "\<forall>(u, m) \<in> set [(5 :: cint, ''a''), (6, ''b''), (5, ''c'')]. fits u m"
    by (simp add: fits_short plain_text_def ascii_text_def NUL_def)
  have doc: "offline_documented (mysqlQuery sampleDbEnv) sampleStored sampleUsers"
    by (simp add: sampleDbEnv_def sample_offline_documented)
  have "database sampleDbState = []" by (simp add: sampleDbState_def router_state.defs sampleRouter_def)
  then show ?thesis
    using offline_roundtrip [OF doc fit refl, of 5 sampleDbState] by (simp add: sampleStored_def sampleUsers_def)
qed

text \<open>
  C40. The limits of the statement buffer, for any message; its length is counted up to the
  first NUL, where \<open>c_str\<close> ends it. A message of at most 973 bytes is sent to MySQL in a
  complete statement. With 985 bytes or more the statement is cut: what is sent is the first
  1023 bytes of it, the start of the statement and as much of the message as is left room for,
  without the closing quote and parenthesis; and if the message has no apostrophe of its own,
  the statement holds a single quote character, an unterminated literal. The column is declared
  with room for 1024 characters.
\<close>

theorem offline_statement_limit:
  fixes m :: string and u :: cint
  defines "text \<equiv> c_str m"
    and "pre \<equiv> ''insert into offlinemessage values('' @ to_string u @ '', '' @ [CHR 0x27]"
  shows "insertOfflineText u m = pre @ text @ [CHR 0x27] @ '')'' \<and>
    (length text \<le> 973 \<longrightarrow> insertOfflineSql u m = insertOfflineText u m) \<and>
    (985 \<le> length text \<longrightarrow>
       insertOfflineSql u m = pre @ take (1023 - length pre) text \<and>
       length (insertOfflineSql u m) = 1023 \<and> insertOfflineSql u m \<noteq> insertOfflineText u m \<and>
       (CHR 0x27 \<notin> set text \<longrightarrow> length (filter (\<lambda>c. c = CHR 0x27) (insertOfflineSql u m)) = 1))"
proof (intro conjI impI)
  show stmt: "insertOfflineText u m = pre @ text @ [CHR 0x27] @ '')''"
    by (simp add: insertOfflineText_def quoted_def pre_def text_def)
  define k where "k = length (to_string u)"
  have "0 < k" "k \<le> 11" using length_to_string [of u] by (simp_all add: k_def)
  note bounds = this
  have len: "length pre = 37 + k" by (simp add: pre_def k_def)
  show "insertOfflineSql u m = insertOfflineText u m" if "length text \<le> 973"
    unfolding insertOfflineSql_text using that bounds len
    by (intro snprintf_id) (simp add: stmt sqlBuffer_def)
  assume long: "985 \<le> length text"
  show cut: "insertOfflineSql u m = pre @ take (1023 - length pre) text"
    using long bounds len by (simp add: insertOfflineSql_text snprintf_def sqlBuffer_def stmt)
  show "length (insertOfflineSql u m) = 1023" using long bounds len by (simp add: cut)
  moreover have "1023 < length (insertOfflineText u m)" using long bounds len by (simp add: stmt)
  ultimately show "insertOfflineSql u m \<noteq> insertOfflineText u m" by auto
  assume "CHR 0x27 \<notin> set text"
  then have "filter (\<lambda>c. c = CHR 0x27) (take n text) = []" for n
    by (auto simp: filter_empty_conv dest: in_set_takeD)
  moreover have "filter (\<lambda>c. c = CHR 0x27) (to_string u) = []"
  proof -
    have "c \<in> set (show_nat n) \<Longrightarrow> c \<noteq> CHR 0x27" for c n
      using show_nat_digits [of c n] by (auto simp: is_digit_def)
    then show ?thesis by (auto simp: filter_empty_conv to_string_def show_int_def)
  qed
  ultimately show "length (filter (\<lambda>c. c = CHR 0x27) (insertOfflineSql u m)) = 1"
    unfolding cut by (simp add: pre_def)
qed

theorem offline_statement_limit_witness:
  "length (filter (\<lambda>c. c = CHR 0x27) (insertOfflineSql 7 (replicate 1000 (CHR ''x'')))) = 1"
proof -
  have "c_str (replicate 1000 (CHR ''x'')) = replicate 1000 (CHR ''x'')" by (rule c_str_id) (simp add: NUL_def)
  then have "985 \<le> length (c_str (replicate 1000 (CHR ''x'')))" "CHR 0x27 \<notin> set (c_str (replicate 1000 (CHR ''x'')))"
    by simp_all
  with offline_statement_limit [of 7 "replicate 1000 (CHR ''x'')"] show ?thesis by blast
qed

end
