(* ===== verification/ServiceSample.thy ===== *)
theory ServiceSample
  imports LocalDelivery OfflineStore
begin

text \<open>
  A concrete service for the witnesses: an empty Redis, a database that stores offline
  messages, a printer that writes every JSON value as \<open>{}\<close>, and two event loops that own the
  even and the odd connections.
\<close>

definition sampleServiceEnv :: "(sample_redis, sample_db) service_env" where
  "sampleServiceEnv = \<lparr>redisCommand = sampleRedis, steadyNs = (\<lambda>n. int n), systemMs = (\<lambda>n. 1000), stringHash = length,
     jdump = (\<lambda>_. Some ''{}''), jparse = (\<lambda>_. Some (JObj [])), mysqlQuery = sampleQuery,
     connLoop = (\<lambda>c. c mod 2), nodeOrder = (\<lambda>ns. ns)\<rparr>"

definition sampleService :: "(sample_redis, sample_db) service_state" where
  "sampleService =
     \<lparr>redisSrv = sampleStart, ticks = 0, cmdQueue = [], selfNode = sampleNode, heartbeatIntervalMs = 3000,
      heartbeatTimeoutMs = 10000, routeCacheTtlMs = 1000, running = True, userRouteCache = Map.empty,
      nodeMetaCache = Map.empty, channels = [], connMap = [], warmedNodeInstances = Map.empty,
      routerConfig = routerConfigOf Map.empty, ioLoops = [7, 8], baseLoop = 0, loopQueue = [],
      connUp = (\<lambda>_. False), outbox = [], dialled = [], closedConns = [], database = [], sqlLog = [],
      connBuckets = replicate connBucketCount [], localDispatchers = Map.empty, localDeliveryQueueLimit = 8192,
      serviceNode = sampleNode, hasRegistry = True, hasRouter = True, metrics = (\<lambda>_. 0), currentLoop = 0,
      flushQueue = [], routed = []\<rparr>"

end
