(* ===== verification/ConnTable.thy ===== *)
theory ConnTable
  imports ServiceSample
begin

text \<open>
  The table of connected users as an interface. The 64 buckets of \<open>ChatService\<close> implement a
  partial map from users to connections: the locale \<open>conn_table\<close> states what the handlers
  rely on, the bucket operations are its interpretation, and any history of them refines the
  abstract table.
\<close>

section \<open>The interface\<close>

datatype table_op = AddConn cint conn | RemoveUser cint | RemoveConn conn

text \<open>
  One abstract step. \<open>RemoveConn\<close> takes out some user of the connection, and reports it; the
  report \<open>-1\<close> without a change is for a connection that serves nobody.
\<close>

inductive table_step :: "table_op \<Rightarrow> (cint \<rightharpoonup> conn) \<Rightarrow> (cint \<rightharpoonup> conn) \<Rightarrow> bool" where
  added: "table_step (AddConn u c) t (t(u \<mapsto> c))"
| removed: "table_step (RemoveUser u) t (t(u := None))"
| closed: "t u = Some c \<Longrightarrow> table_step (RemoveConn c) t (t(u := None))"
| unknown: "c \<notin> ran t \<Longrightarrow> table_step (RemoveConn c) t t"

inductive_simps table_step_simps:
  "table_step (AddConn u c) t t'" "table_step (RemoveUser u) t t'" "table_step (RemoveConn c) t t'"

inductive table_run :: "table_op list \<Rightarrow> (cint \<rightharpoonup> conn) \<Rightarrow> (cint \<rightharpoonup> conn) \<Rightarrow> bool" where
  no_ops: "table_run [] t t"
| more_ops: "table_step op t t' \<Longrightarrow> table_run ops t' t'' \<Longrightarrow> table_run (op # ops) t t''"

fun table_exec ::
  "(cint \<Rightarrow> conn \<Rightarrow> ('s, unit) state) \<Rightarrow> (cint \<Rightarrow> ('s, unit) state) \<Rightarrow> (conn \<Rightarrow> ('s, cint) state) \<Rightarrow>
   table_op \<Rightarrow> 's \<Rightarrow> 's" where
  "table_exec add remove remove_conn (AddConn u c) s = exec (add u c) s"
| "table_exec add remove remove_conn (RemoveUser u) s = exec (remove u) s"
| "table_exec add remove remove_conn (RemoveConn c) s = exec (remove_conn c) s"

text \<open>Every connection serves at most one user.\<close>

definition one_user :: "(cint \<rightharpoonup> conn) \<Rightarrow> bool" where
  "one_user t \<longleftrightarrow> inj_on t (dom t)"

lemma one_userD: "one_user t \<Longrightarrow> t u = Some c \<Longrightarrow> t v = Some c \<Longrightarrow> u = v"
  unfolding one_user_def by (metis domI inj_onD)

locale conn_table =
  fixes add :: "cint \<Rightarrow> conn \<Rightarrow> ('s, unit) state"
    and remove :: "cint \<Rightarrow> ('s, unit) state"
    and remove_conn :: "conn \<Rightarrow> ('s, cint) state"
    and lookup :: "cint \<Rightarrow> ('s, conn option) state"
    and table :: "'s \<Rightarrow> cint \<rightharpoonup> conn"
    and ok :: "'s \<Rightarrow> bool"
  assumes ok_add: "ok s \<Longrightarrow> ok (exec (add u c) s)" and ok_remove: "ok s \<Longrightarrow> ok (exec (remove u) s)"
    and ok_remove_conn: "ok s \<Longrightarrow> ok (exec (remove_conn c) s)"
    and lookup_table: "ok s \<Longrightarrow> result (lookup u) s = table s u \<and> exec (lookup u) s = s"
    and add_table: "ok s \<Longrightarrow> table (exec (add u c) s) = (table s)(u \<mapsto> c)"
    and remove_table: "ok s \<Longrightarrow> table (exec (remove u) s) = (table s)(u := None)"
    and remove_conn_table: "ok s \<Longrightarrow>
          (let u = result (remove_conn c) s in
             table s u = Some c \<and> table (exec (remove_conn c) s) = (table s)(u := None) \<or>
             u = -1 \<and> c \<notin> ran (table s) \<and> table (exec (remove_conn c) s) = table s)"
begin

lemma ok_exec: "ok s \<Longrightarrow> ok (table_exec add remove remove_conn op s)"
  by (cases op) (simp_all add: ok_add ok_remove ok_remove_conn)

lemma exec_step: "ok s \<Longrightarrow> table_step op (table s) (table (table_exec add remove remove_conn op s))"
  using remove_conn_table [of s]
  by (cases op) (fastforce simp: table_step_simps add_table remove_table Let_def)+

lemma exec_refines:
  "ok s \<Longrightarrow> table_run ops (table s) (table (fold (table_exec add remove remove_conn) ops s)) \<and>
     ok (fold (table_exec add remove remove_conn) ops s)"
  by (induction ops arbitrary: s) (auto intro: no_ops more_ops exec_step ok_exec)

text \<open>A closed connection takes its user, and only its user, out of the table.\<close>

lemma close_one:
  assumes "ok s" and "one_user (table s)"
  shows "table (exec (remove_conn c) s) = (\<lambda>u. if table s u = Some c then None else table s u)"
    and "table s u = Some c \<Longrightarrow> result (remove_conn c) s = u"
proof -
  define v where "v = result (remove_conn c) s"
  have cases: "table s v = Some c \<and> table (exec (remove_conn c) s) = (table s)(v := None) \<or>
    v = -1 \<and> c \<notin> ran (table s) \<and> table (exec (remove_conn c) s) = table s"
    using remove_conn_table [OF assms(1), of c] by (simp add: Let_def v_def)
  show "table (exec (remove_conn c) s) = (\<lambda>u. if table s u = Some c then None else table s u)"
  proof
    fix w
    show "table (exec (remove_conn c) s) w = (if table s w = Some c then None else table s w)"
      using cases one_userD [OF assms(2), of v c w] by (auto intro: ranI)
  qed
  show "result (remove_conn c) s = u" if "table s u = Some c"
    using cases that one_userD [OF assms(2), of v c u] by (auto simp: v_def [symmetric] intro: ranI)
qed

end

section \<open>The buckets\<close>

definition tableOf :: "('r, 'd, 'x) service_state_scheme \<Rightarrow> cint \<rightharpoonup> conn" where
  "tableOf s u = map_of (connBuckets s ! pickConnBucket u) u"

definition bucket_ok :: "nat \<Rightarrow> (cint \<times> conn) list \<Rightarrow> bool" where
  "bucket_ok i b \<longleftrightarrow> distinct (map fst b) \<and> (\<forall>u \<in> fst ` set b. pickConnBucket u = i)"

definition buckets_ok :: "('r, 'd, 'x) service_state_scheme \<Rightarrow> bool" where
  "buckets_ok s \<longleftrightarrow> length (connBuckets s) = connBucketCount \<and>
     (\<forall>i < connBucketCount. bucket_ok i (connBuckets s ! i))"

lemma pickConnBucket_less [simp]: "pickConnBucket u < connBucketCount"
  by (simp add: pickConnBucket_def connBucketCount_def)

lemma eraseByConn_None: "eraseByConn c b = None \<longleftrightarrow> c \<notin> snd ` set b"
  by (induction c b rule: eraseByConn.induct) auto

lemma eraseByConn_Some:
  "eraseByConn c b = Some (u, b') \<Longrightarrow> distinct (map fst b) \<Longrightarrow>
   map_of b u = Some c \<and> map_of b' = (map_of b)(u := None) \<and> distinct (map fst b') \<and> set b' \<subseteq> set b"
proof (induction c b arbitrary: b' rule: eraseByConn.induct)
  case (2 c v c' rest)
  show ?case
  proof (cases "c' = c")
    case True
    with 2(2,3) show ?thesis by (auto simp: fun_eq_iff map_of_eq_None_iff)
  next
    case False
    with 2(2) obtain r where r: "eraseByConn c rest = Some (u, r)" "b' = (v, c') # r" by auto
    with 2(1) [OF False r(1)] 2(3) have
      ih: "map_of rest u = Some c" "map_of r = (map_of rest)(u := None)" "distinct (map fst r)" "set r \<subseteq> set rest"
      by auto
    moreover have "v \<noteq> u" using ih(1) 2(3) by (auto dest: map_of_SomeD simp: rev_image_eqI)
    ultimately show ?thesis using r(2) 2(3) by (auto simp: fun_eq_iff)
  qed
qed simp

lemma eraseByConnLoop_cases:
  "(\<exists>i u b. i < length bs \<and> eraseByConn c (bs ! i) = Some (u, b) \<and> eraseByConnLoop c bs = (u, bs[i := b])) \<or>
   (\<forall>b \<in> set bs. eraseByConn c b = None) \<and> eraseByConnLoop c bs = (-1, bs)"
proof (induction bs)
  case (Cons b bs)
  show ?case
  proof (cases "eraseByConn c b")
    case None
    from Cons.IH show ?thesis
    proof (elim disjE exE conjE)
      fix i u b'
      assume "i < length bs" "eraseByConn c (bs ! i) = Some (u, b')" "eraseByConnLoop c bs = (u, bs[i := b'])"
      then show ?thesis using None by (intro disjI1 exI [of _ "Suc i"] exI [of _ u] exI [of _ b']) simp
    qed (simp add: None)
  next
    case (Some p)
    then show ?thesis
      by (intro disjI1 exI [of _ "0::nat"] exI [of _ "fst p"] exI [of _ "snd p"]) (simp split: prod.split)
  qed
qed simp

text \<open>A bucket may be replaced by one with the same home.\<close>

lemma bucket_ok_nth: "buckets_ok s \<Longrightarrow> bucket_ok (pickConnBucket u) (connBuckets s ! pickConnBucket u)"
  by (simp add: buckets_ok_def)

lemma buckets_ok_update:
  "buckets_ok s \<Longrightarrow> bucket_ok i b \<Longrightarrow> buckets_ok (s\<lparr>connBuckets := (connBuckets s)[i := b]\<rparr>)"
  by (auto simp: buckets_ok_def nth_update)

lemma tableOf_update:
  assumes "buckets_ok s" and "i = pickConnBucket u"
    and "map_of b = (map_of (connBuckets s ! i))(u := x)"
  shows "tableOf (s\<lparr>connBuckets := (connBuckets s)[i := b]\<rparr>) = (tableOf s)(u := x)"
proof
  fix v
  show "tableOf (s\<lparr>connBuckets := (connBuckets s)[i := b]\<rparr>) v = ((tableOf s)(u := x)) v"
  proof (cases "pickConnBucket v = i")
    case True
    then show ?thesis using assms pickConnBucket_less [of v] by (simp add: tableOf_def buckets_ok_def)
  next
    case False
    then show ?thesis using assms(2) by (auto simp: tableOf_def)
  qed
qed

text \<open>What the buckets hold and what the table holds.\<close>

lemma tableOf_mem:
  assumes "buckets_ok s" and "b \<in> set (connBuckets s)" and "(u, c) \<in> set b"
  shows "tableOf s u = Some c"
proof -
  from assms(2) obtain i where i: "i < length (connBuckets s)" "connBuckets s ! i = b" by (auto simp: in_set_conv_nth)
  with assms(1) have "bucket_ok i b" by (auto simp: buckets_ok_def)
  with assms(3) have "pickConnBucket u = i" "map_of b u = Some c" by (auto simp: bucket_ok_def rev_image_eqI)
  with i show ?thesis by (simp add: tableOf_def)
qed

lemma ran_tableOf:
  assumes "buckets_ok s" and "\<forall>b \<in> set (connBuckets s). c \<notin> snd ` set b"
  shows "c \<notin> ran (tableOf s)"
proof
  assume "c \<in> ran (tableOf s)"
  then obtain u where "tableOf s u = Some c" by (auto simp: ran_def)
  then have "(u, c) \<in> set (connBuckets s ! pickConnBucket u)" by (auto simp: tableOf_def dest: map_of_SomeD)
  moreover have "connBuckets s ! pickConnBucket u \<in> set (connBuckets s)"
    using assms(1) pickConnBucket_less [of u] by (auto simp: buckets_ok_def)
  ultimately show False using assms(2) by (auto simp: rev_image_eqI)
qed

interpretation buckets:
  conn_table addLocalConnection removeLocalConnection removeLocalConnectionByConn getLocalConnection
    "tableOf :: ('r, 'd, 'x) service_state_scheme \<Rightarrow> _" buckets_ok
proof unfold_locales
  fix s :: "('r, 'd, 'x) service_state_scheme" and u c
  assume ok: "buckets_ok s"
  note home = bucket_ok_nth [OF ok, of u]
  have upd: "bucket_ok (pickConnBucket u) (AList.update u c b)" if "bucket_ok (pickConnBucket u) b" for b
    using that by (simp add: bucket_ok_def distinct_update dom_update)
  have del: "bucket_ok (pickConnBucket u) (AList.delete u b)" if "bucket_ok (pickConnBucket u) b" for b
    using that dom_delete_subset [of u b] unfolding bucket_ok_def by (meson distinct_delete subsetD)
  show "buckets_ok (exec (addLocalConnection u c) s)" "buckets_ok (exec (removeLocalConnection u) s)"
    unfolding addLocalConnection_def removeLocalConnection_def Let_def exec_modify
    by (rule buckets_ok_update [OF ok upd [OF home]], rule buckets_ok_update [OF ok del [OF home]])
  show "result (getLocalConnection u) s = tableOf s u \<and> exec (getLocalConnection u) s = s"
    by (simp add: getLocalConnection_def tableOf_def)
  show "tableOf (exec (addLocalConnection u c) s) = (tableOf s)(u \<mapsto> c)"
    "tableOf (exec (removeLocalConnection u) s) = (tableOf s)(u := None)"
    using tableOf_update [OF ok refl, of _ u]
    by (simp_all add: addLocalConnection_def removeLocalConnection_def Let_def update_conv' delete_conv')
  define p where "p = eraseByConnLoop c (connBuckets s)"
  have run: "result (removeLocalConnectionByConn c) s = fst p"
    "exec (removeLocalConnectionByConn c) s = s\<lparr>connBuckets := snd p\<rparr>"
    by (simp_all add: removeLocalConnectionByConn_def result_def exec_def split_beta p_def)
  show "buckets_ok (exec (removeLocalConnectionByConn c) s)"
    "let u = result (removeLocalConnectionByConn c) s in
       tableOf s u = Some c \<and> tableOf (exec (removeLocalConnectionByConn c) s) = (tableOf s)(u := None) \<or>
       u = -1 \<and> c \<notin> ran (tableOf s) \<and> tableOf (exec (removeLocalConnectionByConn c) s) = tableOf s"
    unfolding run
  proof -
    have "buckets_ok (s\<lparr>connBuckets := snd p\<rparr>) \<and>
      (tableOf s (fst p) = Some c \<and> tableOf (s\<lparr>connBuckets := snd p\<rparr>) = (tableOf s)(fst p := None) \<or>
       fst p = -1 \<and> c \<notin> ran (tableOf s) \<and> tableOf (s\<lparr>connBuckets := snd p\<rparr>) = tableOf s)"
      using eraseByConnLoop_cases [of "connBuckets s" c]
    proof (elim disjE exE conjE)
      fix i v b
      assume i: "i < length (connBuckets s)" and v: "eraseByConn c (connBuckets s ! i) = Some (v, b)"
        and loop: "eraseByConnLoop c (connBuckets s) = (v, (connBuckets s)[i := b])"
      have old: "bucket_ok i (connBuckets s ! i)" using ok i by (simp add: buckets_ok_def)
      from eraseByConn_Some [OF v] old have
        e: "map_of (connBuckets s ! i) v = Some c" "map_of b = (map_of (connBuckets s ! i))(v := None)"
        and "bucket_ok i b" by (auto simp: bucket_ok_def)
      moreover have "pickConnBucket v = i" using old e(1) by (auto simp: bucket_ok_def rev_image_eqI dest: map_of_SomeD)
      ultimately show ?thesis using buckets_ok_update [OF ok] tableOf_update [OF ok _ e(2)]
        by (simp add: p_def loop) (simp add: tableOf_def)
    next
      assume "\<forall>b \<in> set (connBuckets s). eraseByConn c b = None" and "eraseByConnLoop c (connBuckets s) = (-1, connBuckets s)"
      then show ?thesis using ok ran_tableOf [OF ok] by (simp add: p_def eraseByConn_None)
    qed
    then show "buckets_ok (s\<lparr>connBuckets := snd p\<rparr>)"
      "let u = fst p in tableOf s u = Some c \<and> tableOf (s\<lparr>connBuckets := snd p\<rparr>) = (tableOf s)(u := None) \<or>
         u = -1 \<and> c \<notin> ran (tableOf s) \<and> tableOf (s\<lparr>connBuckets := snd p\<rparr>) = tableOf s"
      by (simp_all add: Let_def)
  qed
qed

section \<open>Properties\<close>

abbreviation service_table_exec :: "table_op \<Rightarrow> ('r, 'd, 'x) service_state_scheme \<Rightarrow> ('r, 'd, 'x) service_state_scheme" where
  "service_table_exec \<equiv> table_exec addLocalConnection removeLocalConnection removeLocalConnectionByConn"

lemma init_table: "buckets_ok (exec (service_init env) s)" "tableOf (exec (service_init env) s) = Map.empty"
proof -
  show "buckets_ok (exec (service_init env) s)"
    by (simp add: service_init_def buckets_ok_def bucket_ok_def)
  show "tableOf (exec (service_init env) s) = Map.empty"
    by (rule ext) (simp add: service_init_def tableOf_def)
qed

text \<open>
  C19. The 64 buckets are one map from users to connections. After the constructor and any
  history of logins, logouts and closed connections, the bucket table stands for a table that
  the abstract operations reach, and every lookup answers as that table does.
\<close>

theorem conn_table_refines:
  fixes s :: "('r, 'd, 'x) service_state_scheme"
  assumes "t = fold service_table_exec ops (exec (service_init env) s)"
  shows "table_run ops Map.empty (tableOf t) \<and> (\<forall>u. result (getLocalConnection u) t = tableOf t u)"
  using buckets.exec_refines [OF init_table(1) [of env s], of ops] buckets.lookup_table [of t]
  by (simp add: assms init_table(2))

text \<open>
  A closed connection takes out its user and nobody else. While every connection serves at
  most one user, \<open>removeLocalConnectionByConn\<close> reports the user of the connection, removes
  exactly the entries of that connection, and a lookup of any other user is unchanged.
\<close>

theorem close_removes_user:
  fixes s :: "('r, 'd, 'x) service_state_scheme"
  assumes "buckets_ok s" and "one_user (tableOf s)" and "tableOf s u = Some c"
  shows "result (removeLocalConnectionByConn c) s = u \<and>
    result (getLocalConnection u) (exec (removeLocalConnectionByConn c) s) = None \<and>
    (\<forall>v. v \<noteq> u \<longrightarrow> result (getLocalConnection v) (exec (removeLocalConnectionByConn c) s) = result (getLocalConnection v) s)"
proof -
  let ?t = "exec (removeLocalConnectionByConn c) s"
  note ok = assms(1) buckets.ok_remove_conn [OF assms(1), of c]
  have look: "result (getLocalConnection v) s = tableOf s v" "result (getLocalConnection v) ?t = tableOf ?t v" for v
    using buckets.lookup_table [OF ok(1)] buckets.lookup_table [OF ok(2)] by simp_all
  show ?thesis
    unfolding look buckets.close_one(1) [OF assms(1,2)]
    using buckets.close_one(2) [OF assms] assms(3) by (metis one_userD [OF assms(2,3)])
qed

theorem conn_table_refines_witness:
  "table_run [AddConn 5 2, AddConn (-7) 3, RemoveConn 2] Map.empty
     (tableOf (fold service_table_exec [AddConn 5 2, AddConn (-7) 3, RemoveConn 2]
        (exec (service_init Map.empty) sampleService)))"
  using conn_table_refines [OF refl, of "[AddConn 5 2, AddConn (-7) 3, RemoveConn 2]" Map.empty sampleService]
  by blast

theorem close_removes_user_witness:
  "result (getLocalConnection 5) (exec (removeLocalConnectionByConn 2)
     (exec (addLocalConnection 5 2) (exec (service_init Map.empty) sampleService))) = None"
proof -
  let ?s = "exec (addLocalConnection 5 2) (exec (service_init Map.empty) sampleService)"
  have t: "tableOf ?s = [5 \<mapsto> 2]" by (simp add: buckets.add_table init_table)
  then have "one_user (tableOf ?s)" by (simp add: one_user_def)
  with t show ?thesis using close_removes_user [OF buckets.ok_add [OF init_table(1)], of 5 2 Map.empty sampleService 5 2] by simp
qed

end
