(* ===== verification/ChatService.thy ===== *)
theory ChatService
  imports ConnTable
begin

text \<open>
  The message handlers of the class \<open>ChatService\<close> (\<open>src/server/chatservice.cpp\<close>), composed
  from the connection table, the dispatchers, the node registry, the router and the database
  models as the code composes them. A \<open>json::exception\<close> that leaves a handler, and is caught
  by the receive loop of the server, is the outcome \<open>JsonThrew\<close>; everything done before it
  stays done.
\<close>

section \<open>Printing JSON\<close>

text \<open>\<open>conn->send(resp.dump())\<close>\<close>

definition sendJson ::
  "('r, 'd, 'e) service_env_scheme \<Rightarrow> conn \<Rightarrow> json \<Rightarrow> (('r, 'd, 'x) service_state_scheme, outcome) state" where
  "sendJson E c resp = with_value (jdump E resp) (\<lambda>text. finish (connSend c text))"

section \<open>Login\<close>

text \<open>The members of an object are kept sorted by name.\<close>

definition loginRefused :: "int \<Rightarrow> string \<Rightarrow> json" where
  "loginRefused errno errmsg =
     JObj [(''errmsg'', JStr errmsg), (''errno'', JInt errno), (''msgId'', JI (msg_code LOGIN_MSG_ACK))]"

definition friendJson :: "User \<Rightarrow> json" where
  "friendJson u = JObj [(''id'', JI (user_id u)), (''name'', JStr (user_name u)), (''state'', JStr (user_state u))]"

definition groupUserJson :: "GroupUser \<Rightarrow> json" where
  "groupUserJson u = JObj [(''id'', JI (user_id u)), (''name'', JStr (user_name u)), (''role'', JStr (user_role u)),
     (''state'', JStr (user_state u))]"

definition groupText :: "('r, 'd, 'e) service_env_scheme \<Rightarrow> Group \<Rightarrow> string option" where
  "groupText E g = Option.bind (all_some (map (\<lambda>u. jdump E (groupUserJson u)) (group_users g)))
     (\<lambda>users. jdump E (JObj [(''groupdesc'', JStr (group_desc g)), (''groupname'', JStr (group_name g)),
        (''id'', JI (group_id g)), (''users'', JStrs users)]))"

definition loginAck :: "User \<Rightarrow> string list \<Rightarrow> string list \<Rightarrow> string list \<Rightarrow> json" where
  "loginAck user offlinemsg friends groups = JObj
     ([(''errno'', JInt 0)] @
      (if friends = [] then [] else [(''friends'', JStrs friends)]) @
      (if groups = [] then [] else [(''groups'', JStrs groups)]) @
      [(''id'', JI (user_id user)), (''msgId'', JI (msg_code LOGIN_MSG_ACK)), (''name'', JStr (user_name user))] @
      (if offlinemsg = [] then [] else [(''offlinemsg'', JStrs offlinemsg)]))"

text \<open>The tail of \<open>login\<close>, once the user is bound to this node.\<close>

definition loginReply ::
  "('r, 'd, 'e) service_env_scheme \<Rightarrow> conn \<Rightarrow> User \<Rightarrow> cint \<Rightarrow> (('r, 'd, 'x) service_state_scheme, outcome) state" where
  "loginReply E c user userId = do {
     offlinemsg \<leftarrow> OfflineMsgModel_query E userId;
     do_when (offlinemsg \<noteq> []) (OfflineMsgModel_remove E userId);
     friends \<leftarrow> FriendModel_query E userId;
     with_value (all_some (map (\<lambda>u. jdump E (friendJson u)) friends)) (\<lambda>friendTexts. do {
       groups \<leftarrow> GroupModel_queryGroups E userId;
       with_value (all_some (map (groupText E) groups)) (\<lambda>groupTexts.
         sendJson E c (loginAck user offlinemsg friendTexts groupTexts))
     })
   }"

definition registered ::
  "bool \<Rightarrow> (('r, 'd, 'x) service_state_scheme, 'a) state \<Rightarrow> 'a \<Rightarrow> (('r, 'd, 'x) service_state_scheme, 'a) state" where
  "registered reg m otherwise = (if reg then m else State_Monad.return otherwise)"

text \<open>The decision \<open>login\<close> takes, with its effects, and the refusal it then sends.\<close>

datatype verdict = Admitted | InUse | BindFailed | BadPassword

definition admitUser ::
  "('r, 'd, 'e) service_env_scheme \<Rightarrow> conn \<Rightarrow> cint \<Rightarrow> string \<Rightarrow>
   (('r, 'd, 'x) service_state_scheme, User \<times> verdict) state" where
  "admitUser E c userId pwd = do {
     user \<leftarrow> UserModel_query E userId;
     reg \<leftarrow> gets hasRegistry;
     existing \<leftarrow> registered reg (queryUserNode E userId) None;
     if user_id user = userId \<and> user_password user = pwd then
       if existing \<noteq> None then State_Monad.return (user, InUse)
       else do {
         do_when (user_state user = ''online'') (do {
           UserModel_updateState E (user\<lparr>user_state := ''offline''\<rparr>);
           increment StaleSession
         });
         addLocalConnection userId c;
         bound \<leftarrow> registered reg (bindUser E userId) True;
         if \<not> bound then do {
           removeLocalConnection userId;
           State_Monad.return (user, BindFailed)
         }
         else do {
           UserModel_updateState E (user\<lparr>user_state := ''online''\<rparr>);
           State_Monad.return (user, Admitted)
         }
       }
     else State_Monad.return (user, BadPassword)
   }"

fun refusal :: "verdict \<Rightarrow> json" where
  "refusal InUse = loginRefused 2 ''This account is using, input another!''"
| "refusal BindFailed = loginRefused 3 ''register session failed''"
| "refusal _ = loginRefused 1 ''id or password is invalid!''"

definition login ::
  "('r, 'd, 'e) service_env_scheme \<Rightarrow> conn \<Rightarrow> json \<Rightarrow> (('r, 'd, 'x) service_state_scheme, outcome) state" where
  "login E c js =
     with_value (jint js ''id'') (\<lambda>userId.
     with_value (jstr js ''password'') (\<lambda>pwd. do {
       (user, v) \<leftarrow> admitUser E c userId pwd;
       if v = Admitted then loginReply E c user userId else sendJson E c (refusal v)
     }))"

section \<open>Registration, logout, closed connections\<close>

definition regAck :: "User option \<Rightarrow> json" where
  "regAck created =
     (case created of
        Some u \<Rightarrow> JObj [(''errno'', JInt 0), (''id'', JI (user_id u)), (''msgId'', JI (msg_code REG_MSG_ACK))]
      | None \<Rightarrow> JObj [(''errno'', JInt 1), (''msgId'', JI (msg_code REG_MSG_ACK))])"

definition reg ::
  "('r, 'd, 'e) service_env_scheme \<Rightarrow> conn \<Rightarrow> json \<Rightarrow> (('r, 'd, 'x) service_state_scheme, outcome) state" where
  "reg E c js =
     with_value (jstr js ''name'') (\<lambda>name.
     with_value (jstr js ''password'') (\<lambda>pwd. do {
       created \<leftarrow> UserModel_insert E (defaultUser\<lparr>user_name := name, user_password := pwd\<rparr>);
       sendJson E c (regAck created)
     }))"

definition setOffline ::
  "('r, 'd, 'e) service_env_scheme \<Rightarrow> cint \<Rightarrow> (('r, 'd, 'x) service_state_scheme, unit) state" where
  "setOffline E userId = do {
     UserModel_updateState E (makeUser userId '''' '''' ''offline'');
     State_Monad.return ()
   }"

definition releaseUser ::
  "('r, 'd, 'e) service_env_scheme \<Rightarrow> cint \<Rightarrow> (('r, 'd, 'x) service_state_scheme, unit) state" where
  "releaseUser E userId = do {
     reg \<leftarrow> gets hasRegistry;
     do_when reg (do { unbindUser E userId; State_Monad.return () })
   }"

definition logout ::
  "('r, 'd, 'e) service_env_scheme \<Rightarrow> conn \<Rightarrow> json \<Rightarrow> (('r, 'd, 'x) service_state_scheme, outcome) state" where
  "logout E c js = with_value (jint js ''id'') (\<lambda>userId. finish (do {
     removeLocalConnection userId;
     releaseUser E userId;
     setOffline E userId
   }))"

definition clientCloseException ::
  "('r, 'd, 'e) service_env_scheme \<Rightarrow> conn \<Rightarrow> (('r, 'd, 'x) service_state_scheme, unit) state" where
  "clientCloseException E c = do {
     userId \<leftarrow> removeLocalConnectionByConn c;
     do_when (userId \<noteq> -1) (do {
       releaseUser E userId;
       setOffline E userId
     })
   }"

section \<open>Friends and groups\<close>

definition addFriend ::
  "('r, 'd, 'e) service_env_scheme \<Rightarrow> conn \<Rightarrow> json \<Rightarrow> (('r, 'd, 'x) service_state_scheme, outcome) state" where
  "addFriend E c js =
     with_value (jint js ''id'') (\<lambda>userId.
     with_value (jint js ''friendId'') (\<lambda>friendId. finish (FriendModel_insert E userId friendId)))"

definition createGroup ::
  "('r, 'd, 'e) service_env_scheme \<Rightarrow> conn \<Rightarrow> json \<Rightarrow> (('r, 'd, 'x) service_state_scheme, outcome) state" where
  "createGroup E c js =
     with_value (jint js ''id'') (\<lambda>userid.
     with_value (jstr js ''groupname'') (\<lambda>name.
     with_value (jstr js ''groupdesc'') (\<lambda>desc. finish (do {
       created \<leftarrow> GroupModel_createGroup E (makeGroup (-1) name desc);
       case created of
         None \<Rightarrow> State_Monad.return ()
       | Some g \<Rightarrow> GroupModel_addGroup E userid (group_id g) ''creator''
     }))))"

definition addGroup ::
  "('r, 'd, 'e) service_env_scheme \<Rightarrow> conn \<Rightarrow> json \<Rightarrow> (('r, 'd, 'x) service_state_scheme, outcome) state" where
  "addGroup E c js =
     with_value (jint js ''id'') (\<lambda>userid.
     with_value (jint js ''groupid'') (\<lambda>groupid. finish (GroupModel_addGroup E userid groupid ''normal'')))"

section \<open>One to one chat\<close>

definition buildTraceId ::
  "('r, 'd, 'e) service_env_scheme \<Rightarrow> cint \<Rightarrow> (('r, 'd, 'x) service_state_scheme, string) state" where
  "buildTraceId E fromUserId = do {
     now \<leftarrow> readSteadyNs E;
     node \<leftarrow> gets (\<lambda>s. nodeId (serviceNode s));
     State_Monad.return (node @ ''-'' @ to_string fromUserId @ ''-'' @ show_int (c_div now 1000000))
   }"

text \<open>The last resort of every delivery.\<close>

definition fallBack ::
  "('r, 'd, 'e) service_env_scheme \<Rightarrow> cint \<Rightarrow> string \<Rightarrow> (('r, 'd, 'x) service_state_scheme, unit) state" where
  "fallBack E userId msg = do {
     increment OfflineFallback;
     OfflineMsgModel_insert E userId msg
   }"

text \<open>The ghost record of what the router has accepted.\<close>

definition noteRouted :: "string \<Rightarrow> cint list \<Rightarrow> string \<Rightarrow> (('r, 'd, 'x) service_state_scheme, unit) state" where
  "noteRouted nid users msg = modify (\<lambda>s. s\<lparr>routed := routed s @ [(nid, users, msg)]\<rparr>)"

text \<open>The remote branch of \<open>oneChat\<close>; true when the router has taken the message.\<close>

definition sendRemote ::
  "('r, 'd, 'e) service_env_scheme \<Rightarrow> string \<Rightarrow> NodeMeta \<Rightarrow> cint \<Rightarrow> cint \<Rightarrow> string \<Rightarrow>
   (('r, 'd, 'x) service_state_scheme, bool) state" where
  "sendRemote E nid meta toId fromId msg = do {
     router \<leftarrow> gets hasRouter;
     do_when router (prewarmNode E meta);
     remoteSendStartNs \<leftarrow> readSteadyNs E;
     sent \<leftarrow> (if router then do {
                 traceId \<leftarrow> buildTraceId E fromId;
                 self \<leftarrow> gets (\<lambda>s. nodeId (serviceNode s));
                 sendOneChat E meta self toId msg traceId
               }
               else State_Monad.return False);
     now \<leftarrow> readSteadyNs E;
     add_metric OneChatRemoteSendNs (now - remoteSendStartNs);
     increment OneChatRemoteSend;
     if sent then do {
       increment RemoteRoute;
       noteRouted nid [toId] msg;
       State_Monad.return True
     }
     else do {
       increment RemoteRouteFail;
       State_Monad.return False
     }
   }"

text \<open>The second half of \<open>oneChat\<close>: the receiver is not connected here, or the queue is full.\<close>

definition resolveTimed ::
  "('r, 'd, 'e) service_env_scheme \<Rightarrow> cint \<Rightarrow> (('r, 'd, 'x) service_state_scheme, (string \<times> NodeMeta) option) state" where
  "resolveTimed E toId = do {
     reg \<leftarrow> gets hasRegistry;
     resolveStartNs \<leftarrow> readSteadyNs E;
     resolved \<leftarrow> registered reg (resolveUserNode E toId) None;
     now \<leftarrow> readSteadyNs E;
     add_metric OneChatResolveNs (now - resolveStartNs);
     increment OneChatResolve;
     State_Monad.return resolved
   }"

definition tryRemote ::
  "('r, 'd, 'e) service_env_scheme \<Rightarrow> (string \<times> NodeMeta) option \<Rightarrow> cint \<Rightarrow> cint \<Rightarrow> string \<Rightarrow>
   (('r, 'd, 'x) service_state_scheme, bool) state" where
  "tryRemote E resolved toId fromId msg =
     (case resolved of
        None \<Rightarrow> State_Monad.return False
      | Some (nid, meta) \<Rightarrow> do {
          self \<leftarrow> gets (\<lambda>s. isSelfNode s nid);
          if self then do {
            increment StaleSession;
            unbindUser E toId;
            State_Monad.return False
          }
          else sendRemote E nid meta toId fromId msg
        })"

definition routeOneChat ::
  "('r, 'd, 'e) service_env_scheme \<Rightarrow> cint \<Rightarrow> cint \<Rightarrow> string \<Rightarrow> (('r, 'd, 'x) service_state_scheme, unit) state" where
  "routeOneChat E toId fromId msg = do {
     resolved \<leftarrow> resolveTimed E toId;
     sent \<leftarrow> tryRemote E resolved toId fromId msg;
     do_when (\<not> sent) (fallBack E toId msg)
   }"

definition oneChat ::
  "('r, 'd, 'e) service_env_scheme \<Rightarrow> conn \<Rightarrow> json \<Rightarrow> (('r, 'd, 'x) service_state_scheme, outcome) state" where
  "oneChat E c js = do {
     increment OneChatSource;
     with_value (jint js ''to'') (\<lambda>toId.
     with_value (jint js ''id'') (\<lambda>fromId.
     with_value (jdump E js) (\<lambda>msg. finish (do {
       delivered \<leftarrow> deliverToLocalUser E toId msg;
       if delivered then increment LocalDelivery
       else routeOneChat E toId fromId msg
     }))))
   }"

section \<open>Group chat\<close>

text \<open>The first two loops of \<open>groupChat\<close>.\<close>

primrec splitLocal ::
  "cint list \<Rightarrow> (('r, 'd, 'x) service_state_scheme, conn list \<times> cint list) state" where
  "splitLocal [] = State_Monad.return ([], [])"
| "splitLocal (u # us) = do {
     found \<leftarrow> getLocalConnection u;
     (localConns, unresolvedIds) \<leftarrow> splitLocal us;
     State_Monad.return (case found of
       Some c \<Rightarrow> (c # localConns, unresolvedIds)
     | None \<Rightarrow> (localConns, u # unresolvedIds))
   }"

definition addToNode :: "string \<Rightarrow> cint \<Rightarrow> (string \<times> cint list) list \<Rightarrow> (string \<times> cint list) list" where
  "addToNode nid u nodes = AList.update nid ((case map_of nodes nid of None \<Rightarrow> [] | Some us \<Rightarrow> us) @ [u]) nodes"

text \<open>
  One turn of the second loop: the node whose bucket the user joins, or \<open>None\<close> for
  \<open>offlineIds\<close>.
\<close>

definition resolveMember ::
  "('r, 'd, 'e) service_env_scheme \<Rightarrow> cint \<Rightarrow> (('r, 'd, 'x) service_state_scheme, string option) state" where
  "resolveMember E u = do {
     reg \<leftarrow> gets hasRegistry;
     resolved \<leftarrow> registered reg (resolveUserNode E u) None;
     case resolved of
       None \<Rightarrow> State_Monad.return None
     | Some (nid, meta) \<Rightarrow> do {
         self \<leftarrow> gets (\<lambda>s. isSelfNode s nid);
         if self then do {
           increment StaleSession;
           unbindUser E u;
           State_Monad.return None
         }
         else State_Monad.return (Some nid)
       }
   }"

primrec resolveMembers ::
  "('r, 'd, 'e) service_env_scheme \<Rightarrow> cint list \<Rightarrow> (string \<times> cint list) list \<Rightarrow> cint list \<Rightarrow>
   (('r, 'd, 'x) service_state_scheme, (string \<times> cint list) list \<times> cint list) state" where
  "resolveMembers E [] nodes offlineIds = State_Monad.return (nodes, offlineIds)"
| "resolveMembers E (u # us) nodes offlineIds = do {
     home \<leftarrow> resolveMember E u;
     case home of
       None \<Rightarrow> resolveMembers E us nodes (offlineIds @ [u])
     | Some nid \<Rightarrow> resolveMembers E us (addToNode nid u nodes) offlineIds
   }"

text \<open>One turn of the loop over \<open>remoteNodeUsers\<close>: sent or not; \<open>None\<close> when \<open>dump\<close> throws.\<close>

definition offerToNode ::
  "('r, 'd, 'e) service_env_scheme \<Rightarrow> cint \<Rightarrow> string \<Rightarrow> string \<Rightarrow> cint list \<Rightarrow>
   (('r, 'd, 'x) service_state_scheme, bool option) state" where
  "offerToNode E userid msg nid users = do {
     reg \<leftarrow> gets hasRegistry;
     router \<leftarrow> gets hasRouter;
     found \<leftarrow> (if reg \<and> router then queryNode E nid else State_Monad.return None);
     case found of
       None \<Rightarrow> State_Monad.return (Some False)
     | Some meta \<Rightarrow> do {
         prewarmNode E meta;
         traceId \<leftarrow> buildTraceId E userid;
         self \<leftarrow> gets (\<lambda>s. nodeId (serviceNode s));
         sendGroupChat E meta self users msg traceId
       }
   }"

definition sendToNode ::
  "('r, 'd, 'e) service_env_scheme \<Rightarrow> cint \<Rightarrow> string \<Rightarrow> string \<Rightarrow> cint list \<Rightarrow>
   (('r, 'd, 'x) service_state_scheme, bool option) state" where
  "sendToNode E userid msg nid users = do {
     sent \<leftarrow> offerToNode E userid msg nid users;
     case sent of
       None \<Rightarrow> State_Monad.return None
     | Some ok \<Rightarrow> do {
         (if ok then do { increment RemoteRoute; noteRouted nid users msg }
          else increment RemoteRouteFail);
         State_Monad.return (Some ok)
       }
   }"

primrec sendToNodes ::
  "('r, 'd, 'e) service_env_scheme \<Rightarrow> cint \<Rightarrow> string \<Rightarrow> (string \<times> cint list) list \<Rightarrow> cint list \<Rightarrow>
   (('r, 'd, 'x) service_state_scheme, cint list option) state" where
  "sendToNodes E userid msg [] offlineIds = State_Monad.return (Some offlineIds)"
| "sendToNodes E userid msg (n # ns) offlineIds = do {
     sent \<leftarrow> sendToNode E userid msg (fst n) (snd n);
     case sent of
       None \<Rightarrow> State_Monad.return None
     | Some ok \<Rightarrow> sendToNodes E userid msg ns (if ok then offlineIds else offlineIds @ snd n)
   }"

definition groupChat ::
  "('r, 'd, 'e) service_env_scheme \<Rightarrow> conn \<Rightarrow> json \<Rightarrow> (('r, 'd, 'x) service_state_scheme, outcome) state" where
  "groupChat E c js =
     with_value (jint js ''id'') (\<lambda>userid.
     with_value (jint js ''groupid'') (\<lambda>groupid. do {
       members \<leftarrow> GroupModel_queryGroupUsers E userid groupid;
       if members = [] then State_Monad.return Finished
       else with_value (jdump E js) (\<lambda>msg. do {
         (localConns, unresolvedIds) \<leftarrow> splitLocal members;
         (nodes, offlineIds) \<leftarrow> resolveMembers E unresolvedIds [] [];
         for_each localConns (\<lambda>userConn. do { connSend userConn msg; increment LocalDelivery });
         offlineIds \<leftarrow> sendToNodes E userid msg (nodeOrder E nodes) offlineIds;
         with_value offlineIds (\<lambda>ids. finish (for_each ids (\<lambda>u. fallBack E u msg)))
       })
     }))"

section \<open>Messages from other nodes\<close>

definition handleRedisSubscribeMessage ::
  "('r, 'd, 'e) service_env_scheme \<Rightarrow> cint \<Rightarrow> string \<Rightarrow> (('r, 'd, 'x) service_state_scheme, unit) state" where
  "handleRedisSubscribeMessage E userid msg = do {
     delivered \<leftarrow> deliverToLocalUser E userid msg;
     if delivered then increment LocalDelivery else fallBack E userid msg
   }"

text \<open>
  What both cluster handlers do for a user that is not connected here: a session that names
  another node is only counted, any other is released.
\<close>

definition releaseStray ::
  "('r, 'd, 'e) service_env_scheme \<Rightarrow> cint \<Rightarrow> (('r, 'd, 'x) service_state_scheme, unit) state" where
  "releaseStray E userId = do {
     reg \<leftarrow> gets hasRegistry;
     do_when reg (do {
       found \<leftarrow> queryUserNode E userId;
       elsewhere \<leftarrow> gets (\<lambda>s. case found of None \<Rightarrow> False | Some nid \<Rightarrow> \<not> isSelfNode s nid);
       if elsewhere then increment StaleSession
       else do { unbindUser E userId; State_Monad.return () }
     })
   }"

definition handleClusterOneChatFrame ::
  "('r, 'd, 'e) service_env_scheme \<Rightarrow> cint \<Rightarrow> string \<Rightarrow> (('r, 'd, 'x) service_state_scheme, unit) state" where
  "handleClusterOneChatFrame E toUser payload = do {
     remoteHandleStartNs \<leftarrow> readSteadyNs E;
     delivered \<leftarrow> deliverToLocalUser E toUser payload;
     increment OneChatRemoteHandle;
     now \<leftarrow> readSteadyNs E;
     add_metric OneChatRemoteHandleNs (now - remoteHandleStartNs);
     if delivered then increment LocalDelivery
     else do {
       releaseStray E toUser;
       fallBack E toUser payload
     }
   }"

definition handleClusterOneChat ::
  "('r, 'd, 'e) service_env_scheme \<Rightarrow> json \<Rightarrow> (('r, 'd, 'x) service_state_scheme, outcome) state" where
  "handleClusterOneChat E js =
     with_value (jint js ''toUser'') (\<lambda>toUser.
     with_value (jstr js ''payload'') (\<lambda>payload. finish (handleClusterOneChatFrame E toUser payload)))"

text \<open>The body of the loop in \<open>handleClusterGroupChat\<close>.\<close>

definition deliverOrStore ::
  "('r, 'd, 'e) service_env_scheme \<Rightarrow> string \<Rightarrow> cint \<Rightarrow> (('r, 'd, 'x) service_state_scheme, unit) state" where
  "deliverOrStore E payload userId = do {
     delivered \<leftarrow> deliverToLocalUser E userId payload;
     if delivered then increment LocalDelivery
     else do {
       releaseStray E userId;
       fallBack E userId payload
     }
   }"

definition handleClusterGroupChat ::
  "('r, 'd, 'e) service_env_scheme \<Rightarrow> json \<Rightarrow> (('r, 'd, 'x) service_state_scheme, outcome) state" where
  "handleClusterGroupChat E js =
     with_value (jints js ''toUsers'') (\<lambda>toUsers.
     with_value (jstr js ''payload'') (\<lambda>payload. finish (for_each toUsers (deliverOrStore E payload))))"

definition handleClusterMessage ::
  "('r, 'd, 'e) service_env_scheme \<Rightarrow> json \<Rightarrow> (('r, 'd, 'x) service_state_scheme, outcome) state" where
  "handleClusterMessage E js = with_value (jint js ''msgId'') (\<lambda>msgId.
     if msgId = msg_code NODE_ROUTE_ONE_CHAT_MSG then handleClusterOneChat E js
     else if msgId = msg_code NODE_ROUTE_GROUP_CHAT_MSG then handleClusterGroupChat E js
     else State_Monad.return Finished)"

section \<open>The handler table\<close>

definition handlerOf ::
  "('r, 'd, 'e) service_env_scheme \<Rightarrow>
   (cint \<times> (conn \<Rightarrow> json \<Rightarrow> (('r, 'd, 'x) service_state_scheme, outcome) state)) list" where
  "handlerOf E =
     [(msg_code LOGIN_MSG, login E), (msg_code LOGOUT_MSG, logout E), (msg_code REG_MSG, reg E),
      (msg_code ONE_CHAT_MSG, oneChat E), (msg_code ADD_FRIEND_MSG, addFriend E),
      (msg_code CREATE_GROUP_MSG, createGroup E), (msg_code ADD_GROUP_MSG, addGroup E),
      (msg_code GROUP_CHAT_MSG, groupChat E)]"

definition getHandler ::
  "('r, 'd, 'e) service_env_scheme \<Rightarrow> cint \<Rightarrow> conn \<Rightarrow> json \<Rightarrow> (('r, 'd, 'x) service_state_scheme, outcome) state" where
  "getHandler E msgId =
     (case map_of (handlerOf E) msgId of
        None \<Rightarrow> (\<lambda>c js. State_Monad.return Finished)
      | Some handler \<Rightarrow> handler)"

section \<open>Start and shutdown\<close>

definition initNode ::
  "('r, 'd, 'e) service_env_scheme \<Rightarrow> environment \<Rightarrow> loop_id \<Rightarrow> loop_id list \<Rightarrow> string \<Rightarrow> 16 word \<Rightarrow> string \<Rightarrow> 16 word \<Rightarrow>
   (('r, 'd, 'x) service_state_scheme, unit) state" where
  "initNode E env base pool ip port peerIp peerPort = do {
     now \<leftarrow> readSystemMs E;
     let nid = peerIp @ '':'' @ show_int (uint peerPort);
     let self = \<lparr>nodeId = nid, instanceId = nid @ ''#'' @ show_int now, clientIp = ip, clientPort = port,
                 interIp = peerIp, interPort = peerPort, heartbeatMs = now\<rparr>;
     modify (\<lambda>s. s\<lparr>serviceNode := self, hasRegistry := True, hasRouter := True, running := False,
                    userRouteCache := Map.empty, nodeMetaCache := Map.empty\<rparr>);
     router_init env base pool;
     ok \<leftarrow> registry_init E self (sint (getEnvIntOrDefault env ''CHAT_HEARTBEAT_INTERVAL_MS'' 3000))
                              (sint (getEnvIntOrDefault env ''CHAT_HEARTBEAT_TIMEOUT_MS'' 10000));
     do_when ok (do {
       nodes \<leftarrow> listNodes E;
       for_each nodes (\<lambda>meta. do {
         isSelf \<leftarrow> gets (\<lambda>s. isSelfNode s (nodeId meta));
         router \<leftarrow> gets hasRouter;
         do_when (\<not> isSelf \<and> router) (prewarmNode E meta)
       })
     })
   }"

text \<open>The numbers \<open>reset\<close> prints, and \<open>reset\<close>, which returns them.\<close>

definition avgUs :: "64 word \<Rightarrow> 64 word \<Rightarrow> int" where
  "avgUs totalNs n = (if 0 < sint n then c_div (c_div (sint totalNs) (sint n)) 1000 else 0)"

definition clusterReport :: "(metric \<Rightarrow> 64 word) \<Rightarrow> (string \<times> int) list" where
  "clusterReport m =
     [(''local'', sint (m LocalDelivery)), (''remote'', sint (m RemoteRoute)),
      (''remote_fail'', sint (m RemoteRouteFail)), (''offline'', sint (m OfflineFallback)),
      (''stale_session'', sint (m StaleSession))]"

definition oneChatReport :: "(metric \<Rightarrow> 64 word) \<Rightarrow> (string \<times> int) list" where
  "oneChatReport m =
     [(''source'', sint (m OneChatSource)),
      (''resolve_avg_us'', avgUs (m OneChatResolveNs) (m OneChatResolve)),
      (''remote_send_avg_us'', avgUs (m OneChatRemoteSendNs) (m OneChatRemoteSend)),
      (''remote_handle_avg_us'', avgUs (m OneChatRemoteHandleNs) (m OneChatRemoteHandle)),
      (''local_lookup_avg_us'', avgUs (m LocalLookupNs) (m LocalLookup)),
      (''local_lookup_miss'', sint (m LocalLookupMiss)),
      (''local_enqueue_avg_us'', avgUs (m DispatchEnqueueNs) (m DispatchEnqueue)),
      (''local_queue_wait_avg_us'', avgUs (m DispatchQueueWaitNs) (m DispatchDrainMsg)),
      (''local_queue_wait_max_us'', c_div (sint (m DispatchQueueWaitMaxNs)) 1000),
      (''local_send_avg_us'', avgUs (m DispatchSendNs) (m DispatchDrainMsg)),
      (''local_dispatch_inline'', sint (m DispatchInline)),
      (''local_dispatch_queued'', sint (m DispatchQueued)),
      (''local_dispatch_peak'', sint (m DispatchPeakQueueDepth))]"

definition reset ::
  "('r, 'd, 'e) service_env_scheme \<Rightarrow> (('r, 'd, 'x) service_state_scheme, (string \<times> int) list) state" where
  "reset E = do {
     registry \<leftarrow> gets hasRegistry;
     router \<leftarrow> gets hasRouter;
     node \<leftarrow> gets (\<lambda>s. nodeId (serviceNode s));
     selfUsers \<leftarrow> registered registry (getNodeUsers E node) [];
     do_when registry (do { stop; cleanupSelf E });
     do_when router closeAll;
     m \<leftarrow> gets metrics;
     (if registry then for_each selfUsers (setOffline E) else UserModel_resetState E);
     State_Monad.return (clusterReport m @ oneChatReport m)
   }"

end
