(* ===== verification/ServiceFrames.thy ===== *)
theory ServiceFrames
  imports ChatService
begin

text \<open>
  Which operation changes which part of the service. The state is observed through three
  projections, the database, the service's own tables and what was written to connections;
  the rules of the collection \<open>service_keeps\<close> say which operations keep which of them, so the
  frame of a handler is proved by \<open>intro\<close>.
\<close>

definition obs_db :: "('r, 'd, 'x) service_state_scheme \<Rightarrow> 'd \<times> string list" where
  "obs_db s = (database s, sqlLog s)"

definition obs_service :: "('r, 'd, 'x) service_state_scheme \<Rightarrow>
    (cint \<times> conn) list list \<times> (loop_id \<rightharpoonup> LocalLoopDispatcher) \<times> nat \<times> NodeMeta \<times> bool \<times> bool \<times> loop_id \<times>
    loop_id list \<times> (string \<times> cint list \<times> string) list \<times> NodeMeta \<times> router_config \<times> 'x" where
  "obs_service s = (connBuckets s, localDispatchers s, localDeliveryQueueLimit s, serviceNode s, hasRegistry s,
     hasRouter s, currentLoop s, flushQueue s, routed s, selfNode s, routerConfig s, service_state.more s)"

definition obs_out :: "('r, 'd, 'x) service_state_scheme \<Rightarrow> (conn \<times> string) list" where
  "obs_out s = outbox s"

definition obs_table :: "('r, 'd, 'x) service_state_scheme \<Rightarrow> (cint \<times> conn) list list \<times> NodeMeta \<times>
    NodeMeta \<times> bool \<times> bool \<times> loop_id \<times> router_config" where
  "obs_table s = (connBuckets s, serviceNode s, selfNode s, hasRegistry s, hasRouter s, currentLoop s, routerConfig s)"

definition obs_routed :: "('r, 'd, 'x) service_state_scheme \<Rightarrow> (string \<times> cint list \<times> string) list" where
  "obs_routed s = routed s"

named_theorems service_keeps "operations that keep a projection of the service state"

text \<open>Lifting from the registry, the router and the models.\<close>

lemma registry_changes:
  fixes s t :: "('r, 'x) registry_state_scheme"
  assumes "beyond_registry s = beyond_registry t"
  obtains a b c d e f g h where "t = s\<lparr>redisSrv := a, ticks := b, heartbeatIntervalMs := c, heartbeatTimeoutMs := d,
    routeCacheTtlMs := e, running := f, userRouteCache := g, nodeMetaCache := h\<rparr>"
proof
  show "t = s\<lparr>redisSrv := redisSrv t, ticks := ticks t, heartbeatIntervalMs := heartbeatIntervalMs t,
      heartbeatTimeoutMs := heartbeatTimeoutMs t, routeCacheTtlMs := routeCacheTtlMs t, running := running t,
      userRouteCache := userRouteCache t, nodeMetaCache := nodeMetaCache t\<rparr>"
    using assms by (cases s; cases t) (simp add: beyond_registry_def)
qed

lemma router_changes:
  fixes s t :: "('r, 'x) router_state_scheme"
  assumes "beyond_router s = beyond_router t"
  obtains c d e a b f g h i j k l where "t = s\<lparr>heartbeatIntervalMs := c, heartbeatTimeoutMs := d, routeCacheTtlMs := e,
    channels := a, connMap := b, warmedNodeInstances := f, ioLoops := g, baseLoop := h, loopQueue := i,
    outbox := j, dialled := k, closedConns := l\<rparr>"
proof
  show "t = s\<lparr>heartbeatIntervalMs := heartbeatIntervalMs t, heartbeatTimeoutMs := heartbeatTimeoutMs t,
      routeCacheTtlMs := routeCacheTtlMs t, channels := channels t, connMap := connMap t,
      warmedNodeInstances := warmedNodeInstances t, ioLoops := ioLoops t, baseLoop := baseLoop t,
      loopQueue := loopQueue t, outbox := outbox t, dialled := dialled t, closedConns := closedConns t\<rparr>"
    using assms by (cases s; cases t) (simp add: beyond_router_def)
qed

lemma registry_frame:
  fixes s t :: "('r, 'd, 'x) service_state_scheme"
  assumes "beyond_registry s = beyond_registry t"
  shows "obs_db s = obs_db t" "obs_service s = obs_service t" "obs_out s = obs_out t"
  by (rule registry_changes [OF assms]; simp add: obs_db_def obs_service_def obs_out_def)+

lemma router_frame:
  fixes s t :: "('r, 'd, 'x) service_state_scheme"
  assumes "beyond_router s = beyond_router t"
  shows "obs_db s = obs_db t" "obs_service s = obs_service t"
  by (rule router_changes [OF assms]; simp add: obs_db_def obs_service_def)+

lemma service_frame:
  fixes s t :: "('r, 'd, 'x) service_state_scheme"
  assumes "obs_service s = obs_service t"
  shows "obs_table s = obs_table t" "obs_routed s = obs_routed t"
  using assms by (simp_all add: obs_service_def obs_table_def obs_routed_def)

lemma registry_lift:
  fixes m :: "(('r, 'd, 'x) service_state_scheme, 'a) state"
  assumes "keeps beyond_registry m"
  shows "keeps obs_db m" "keeps obs_service m" "keeps obs_out m"
  by (rule keepsI, rule registry_frame, rule keepsD [OF assms])+

lemma router_lift:
  fixes m :: "(('r, 'd, 'x) service_state_scheme, 'a) state"
  assumes "keeps beyond_router m"
  shows "keeps obs_db m" "keeps obs_service m"
  by (rule keepsI, rule router_frame, rule keepsD [OF assms])+

lemma service_lift:
  fixes m :: "(('r, 'd, 'x) service_state_scheme, 'a) state"
  assumes "keeps obs_service m"
  shows "keeps obs_table m" "keeps obs_routed m"
  by (rule keepsI, rule service_frame, rule keepsD [OF assms])+

lemmas registry_service [service_keeps] = registry_keeps [THEN registry_lift(1)] registry_keeps [THEN registry_lift(2)]
  registry_keeps [THEN registry_lift(3)]
lemmas router_service [service_keeps] = router_keeps [THEN router_lift(1)] router_keeps [THEN router_lift(2)]

lemma outbox_router [service_keeps]: "keeps obs_out (prewarmNode E meta)"
  using outbox_prewarm by (simp add: keeps_def obs_out_def)

text \<open>The models change the database only, the other steps what their names say.\<close>

lemma keeps_models:
  assumes "\<And>sql s. f (db_after E sql s) = f s"
  shows "keeps f (UserModel_insert E u)" "keeps f (UserModel_query E i)" "keeps f (UserModel_updateState E u)"
    "keeps f (UserModel_resetState E)" "keeps f (FriendModel_insert E i j)" "keeps f (FriendModel_query E i)"
    "keeps f (GroupModel_createGroup E g)" "keeps f (GroupModel_addGroup E i j role)"
    "keeps f (GroupModel_queryGroupUsers E i j)" "keeps f (OfflineMsgModel_insert E i m)"
    "keeps f (OfflineMsgModel_remove E i)" "keeps f (OfflineMsgModel_query E i)"
  by (rule keepsI, simp add: assms)+

lemma keeps_queryGroups:
  assumes "\<And>sql s. f (db_after E sql s) = f s"
  shows "keeps f (GroupModel_queryGroups E i)"
proof -
  have "f (exec (fillGroups E gs) s) = f s" for gs s
    by (induction gs arbitrary: s) (simp_all add: assms Let_def)
  then show ?thesis by (simp add: keeps_def GroupModel_queryGroups_def assms)
qed

lemma db_after_frame:
  "obs_service (db_after E sql s) = obs_service s" "obs_out (db_after E sql s) = obs_out s"
  by (simp_all add: obs_service_def obs_out_def db_after_def)

lemmas models_service [service_keeps] =
  keeps_models [OF db_after_frame(1)] keeps_queryGroups [OF db_after_frame(1)]
  keeps_models [OF db_after_frame(2)] keeps_queryGroups [OF db_after_frame(2)]

lemma metrics_service [service_keeps]:
  "keeps obs_db (add_metric k v)" "keeps obs_service (add_metric k v)" "keeps obs_out (add_metric k v)"
  "keeps obs_db (increment k)" "keeps obs_service (increment k)" "keeps obs_out (increment k)"
  by (simp_all add: keeps_def obs_db_def obs_service_def obs_out_def)

lemma clock_service [service_keeps]:
  "keeps obs_db (readSteadyNs E)" "keeps obs_service (readSteadyNs E)" "keeps obs_out (readSteadyNs E)"
  by (simp_all add: keeps_def obs_db_def obs_service_def obs_out_def)

lemma table_service [service_keeps]:
  "keeps obs_db (addLocalConnection u c)" "keeps obs_out (addLocalConnection u c)"
  "keeps obs_routed (addLocalConnection u c)" "keeps obs_db (removeLocalConnection u)"
  "keeps obs_out (removeLocalConnection u)" "keeps obs_routed (removeLocalConnection u)"
  by (simp_all add: keeps_def obs_db_def obs_out_def obs_routed_def addLocalConnection_def removeLocalConnection_def Let_def)

lemma keeps_registered [service_keeps]: "keeps f m \<Longrightarrow> keeps f (registered b m x)"
  by (simp add: registered_def keeps)

lemma noteRouted_service [service_keeps]:
  "keeps obs_db (noteRouted n us m)" "keeps obs_out (noteRouted n us m)" "keeps obs_table (noteRouted n us m)"
  by (simp_all add: keeps_def obs_db_def obs_out_def obs_table_def noteRouted_def)


lemma keeps_buildTraceId [service_keeps]:
  "keeps obs_db (buildTraceId E u)" "keeps obs_service (buildTraceId E u)" "keeps obs_out (buildTraceId E u)"
  unfolding buildTraceId_def by (intro keeps service_keeps)+

lemma delivery_obs_db:
  assumes "quiet s = quiet (t\<lparr>outbox := a, localDispatchers := b, flushQueue := c\<rparr>)"
  shows "obs_db s = obs_db t" "obs_table s = obs_table t" "obs_routed s = obs_routed t"
  using quiet_obs [OF assms] by (simp_all add: obs_db_def obs_table_def obs_routed_def)



end
