(* ===== verification/MessageRouting.thy ===== *)
theory MessageRouting
  imports ServiceFrames
begin

text \<open>
  What becomes of a message: the outcome of \<open>deliverToLocalUser\<close>, \<open>oneChat\<close>, \<open>groupChat\<close>
  and the handlers for messages of other nodes (\<open>src/server/chatservice.cpp\<close>).
\<close>

section \<open>Local delivery\<close>

text \<open>Between two handlers of one thread no dispatcher has messages without a flush scheduled.\<close>

definition delivery_inv :: "('r, 'd, 'x) service_state_scheme \<Rightarrow> bool" where
  "delivery_inv s \<longleftrightarrow> (\<forall>l d. localDispatchers s l = Some d \<longrightarrow> dp_pending d \<noteq> [] \<longrightarrow> flushScheduled d)"

text \<open>
  \<open>handed c msg s s'\<close>: the message was written to the connection at once, or it is the last
  in the queue of the connection's loop, after all that waited there, with a flush scheduled.
\<close>

definition handed ::
  "('r, 'd, 'e) service_env_scheme \<Rightarrow> conn \<Rightarrow> string \<Rightarrow>
   ('r, 'd, 'x) service_state_scheme \<Rightarrow> ('r, 'd, 'x) service_state_scheme \<Rightarrow> bool" where
  "handed E c msg s s' \<longleftrightarrow>
     outbox s' = outbox s @ [(c, msg)] \<or>
     outbox s' = outbox s \<and>
     (\<exists>d. localDispatchers s' (connLoop E c) = Some d \<and> flushScheduled d \<and>
        map task_send (dp_pending d) = map task_send (dp_pending (dispatcherFor (connLoop E c) s)) @ [(c, msg)])"

definition has_room :: "('r, 'd, 'e) service_env_scheme \<Rightarrow> conn \<Rightarrow> ('r, 'd, 'x) service_state_scheme \<Rightarrow> bool" where
  "has_room E c s \<longleftrightarrow> \<not> dispatcherFull (dispatcherFor (connLoop E c) s)"

lemma delivery_inv_for: "delivery_inv s \<Longrightarrow> dp_pending (dispatcherFor l s) \<noteq> [] \<Longrightarrow> flushScheduled (dispatcherFor l s)"
  by (auto simp: delivery_inv_def dispatcherFor_def split: option.splits)

lemma delivery_inv_quiet: "quiet s = quiet t \<Longrightarrow> delivery_inv s = delivery_inv t"
  using quiet_obs(2) [of s t] by (simp add: delivery_inv_def)

lemma delivery_inv_upd:
  "delivery_inv s \<Longrightarrow> dp_pending d = [] \<or> flushScheduled d \<Longrightarrow>
   delivery_inv (s\<lparr>localDispatchers := (localDispatchers s)(l \<mapsto> d)\<rparr>)"
  by (auto simp: delivery_inv_def)

lemma delivery_inv_other [simp]:
  "delivery_inv (s\<lparr>outbox := b, localDispatchers := ds\<rparr>) = delivery_inv (s\<lparr>localDispatchers := ds\<rparr>)"
  "delivery_inv (s\<lparr>outbox := b\<rparr>) = delivery_inv s" "delivery_inv (s\<lparr>flushQueue := q\<rparr>) = delivery_inv s"
  by (simp_all add: delivery_inv_def)

lemma enqueue_effect:
  fixes s :: "('r, 'd, 'x) service_state_scheme"
  assumes inv: "delivery_inv s" and s': "s' = exec (enqueueLocalDelivery E c msg) s"
  shows "result (enqueueLocalDelivery E c msg) s = has_room E c s"
    and "delivery_inv s'" "obs_db s' = obs_db s" "obs_table s' = obs_table s" "obs_routed s' = obs_routed s"
    and "channels s' = channels s \<and> connMap s' = connMap s"
    and "if has_room E c s then handed E c msg s s' else outbox s' = outbox s"
proof -
  let ?l = "connLoop E c"
  let ?d = "dispatcherFor ?l s"
  note idle = delivery_inv_for [OF inv, of ?l]
  consider (full) "\<not> has_room E c s" | (room) "has_room E c s" by blast
  then have "result (enqueueLocalDelivery E c msg) s = has_room E c s \<and> delivery_inv s' \<and> obs_db s' = obs_db s \<and>
    obs_table s' = obs_table s \<and> obs_routed s' = obs_routed s \<and> channels s' = channels s \<and> connMap s' = connMap s \<and>
    (if has_room E c s then handed E c msg s s' else outbox s' = outbox s)"
  proof cases
    case full
    then have f: "dispatcherFull ?d" by (simp add: has_room_def)
    note q = enqueue_full(2) [where msg = msg, OF f, folded s']
    have "delivery_inv s'" using delivery_inv_quiet [OF q] delivery_inv_upd [OF inv, of ?d ?l] idle by auto
    then show ?thesis using enqueue_full(1) [OF f, of msg] full quiet_obs [OF q]
      by (simp add: obs_db_def obs_table_def obs_routed_def)
  next
    case room
    then have r: "\<not> dispatcherFull ?d" by (simp add: has_room_def)
    define d where "d = snd (pushTask \<lparr>ld_conn = c, ld_msg = msg, ld_enqueueNs = steadyNs E (Suc (ticks s))\<rparr> ?d)"
    have d: "dp_pending d = dp_pending ?d @ [\<lparr>ld_conn = c, ld_msg = msg, ld_enqueueNs = steadyNs E (Suc (ticks s))\<rparr>]"
      "flushScheduled d" by (simp_all add: d_def pushTask_def)
    note q = enqueue_room(2) [where msg = msg, OF r, folded s' d_def]
    have sends: "map task_send (dp_pending d) = map task_send (dp_pending ?d) @ [(c, msg)]"
      by (simp add: d task_send_def)
    have inv': "delivery_inv s'"
      using delivery_inv_quiet [OF q] delivery_inv_upd [OF inv, of d ?l]
        delivery_inv_upd [OF inv, of "d\<lparr>dp_pending := [], flushScheduled := False\<rparr>" ?l] d(2)
      by (auto split: if_splits)
    have "handed E c msg s s'"
    proof (cases "flushScheduled ?d \<or> currentLoop s \<noteq> ?l")
      case True
      then show ?thesis using quiet_obs(1,2) [OF q] sends d(2)
        by (auto simp: handed_def)
    next
      case False
      then show ?thesis using quiet_obs(1) [OF q] sends idle by (auto simp: handed_def)
    qed
    then show ?thesis using enqueue_room(1) [OF r, of msg] room inv' quiet_obs [OF q]
      by (simp add: obs_db_def obs_table_def obs_routed_def split: if_splits)
  qed
  then show "result (enqueueLocalDelivery E c msg) s = has_room E c s" "delivery_inv s'" "obs_db s' = obs_db s"
    "obs_table s' = obs_table s" "obs_routed s' = obs_routed s" "channels s' = channels s \<and> connMap s' = connMap s"
    "if has_room E c s then handed E c msg s s' else outbox s' = outbox s" by blast+
qed

text \<open>The connection a message for a user goes to, when it can be delivered here.\<close>

definition reachable_here ::
  "('r, 'd, 'e) service_env_scheme \<Rightarrow> ('r, 'd, 'x) service_state_scheme \<Rightarrow> cint \<Rightarrow> conn option" where
  "reachable_here E s u = (case tableOf s u of None \<Rightarrow> None | Some c \<Rightarrow> if has_room E c s then Some c else None)"

lemma deliver_effect:
  fixes s :: "('r, 'd, 'x) service_state_scheme"
  assumes inv: "delivery_inv s" and s': "s' = exec (deliverToLocalUser E u msg) s"
  shows "result (deliverToLocalUser E u msg) s = (reachable_here E s u \<noteq> None)"
    and "delivery_inv s'" "obs_db s' = obs_db s" "obs_table s' = obs_table s" "obs_routed s' = obs_routed s"
    and "channels s' = channels s \<and> connMap s' = connMap s"
    and "case reachable_here E s u of Some c \<Rightarrow> handed E c msg s s' | None \<Rightarrow> outbox s' = outbox s"
proof -
  define t where "t = exec (do {
     lookupStartNs \<leftarrow> readSteadyNs E;
     found \<leftarrow> getLocalConnection u;
     now \<leftarrow> readSteadyNs E;
     add_metric LocalLookupNs (now - lookupStartNs);
     increment LocalLookup }) s"
  have t: "quiet t = quiet s" by (simp add: t_def getLocalConnection_def)
  note eq = quiet_obs [OF t]
  have room: "has_room E c t = has_room E c s" "dispatcherFor l t = dispatcherFor l s" for c l
    using eq by (simp_all add: has_room_def dispatcherFor_def cong: option.case_cong)
  have invt: "delivery_inv t" using inv delivery_inv_quiet [OF t] by simp
  have obs: "obs_db t = obs_db s" "obs_table t = obs_table s" "obs_routed t = obs_routed s"
    using eq by (simp_all add: obs_db_def obs_table_def obs_routed_def)
  have run: "result (deliverToLocalUser E u msg) s =
      (case tableOf s u of None \<Rightarrow> False | Some c \<Rightarrow> result (enqueueLocalDelivery E c msg) t)"
    "s' = (case tableOf s u of None \<Rightarrow> exec (increment LocalLookupMiss) t
                              | Some c \<Rightarrow> exec (enqueueLocalDelivery E c msg) t)"
    unfolding s' by (simp_all add: deliverToLocalUser_def t_def getLocalConnection_def tableOf_def split: option.split)
  have "result (deliverToLocalUser E u msg) s = (reachable_here E s u \<noteq> None) \<and> delivery_inv s' \<and> obs_db s' = obs_db s \<and>
    obs_table s' = obs_table s \<and> obs_routed s' = obs_routed s \<and> (channels s' = channels s \<and> connMap s' = connMap s) \<and>
    (case reachable_here E s u of Some c \<Rightarrow> handed E c msg s s' | None \<Rightarrow> outbox s' = outbox s)"
  proof (cases "tableOf s u")
    case None
    have "delivery_inv s'" using invt run(2) None by (simp add: delivery_inv_def)
    moreover have "obs_db s' = obs_db t" "obs_table s' = obs_table t" "obs_routed s' = obs_routed t"
      using run(2) None by (simp_all add: obs_db_def obs_table_def obs_routed_def)
    ultimately show ?thesis using run None obs eq by (simp add: reachable_here_def)
  next
    case (Some c)
    have s'_t: "s' = exec (enqueueLocalDelivery E c msg) t" using run(2) Some by simp
    note eff = enqueue_effect [OF invt s'_t]
    have "handed E c msg t s' = handed E c msg s s'" using eq room by (simp add: handed_def)
    then show ?thesis using run(1) Some eff obs eq room by (auto simp: reachable_here_def)
  qed
  then show "result (deliverToLocalUser E u msg) s = (reachable_here E s u \<noteq> None)" "delivery_inv s'" "obs_db s' = obs_db s"
    "obs_table s' = obs_table s" "obs_routed s' = obs_routed s" "channels s' = channels s \<and> connMap s' = connMap s"
    "case reachable_here E s u of Some c \<Rightarrow> handed E c msg s s' | None \<Rightarrow> outbox s' = outbox s" by blast+
qed

section \<open>The remote route\<close>

lemma router_inv_beyond:
  fixes m :: "(('r, 'x) router_state_scheme, 'a) state"
  assumes "keeps beyond_registry m"
  shows "preserves router_inv m"
proof (rule preservesI)
  fix s :: "('r, 'x) router_state_scheme"
  assume inv: "router_inv s"
  show "router_inv (exec m s)"
    by (rule registry_changes [OF keepsD [OF assms, of s, symmetric]])
      (use inv in \<open>simp add: router_inv_def\<close>)
qed

lemmas router_inv_registry = registry_keeps [THEN router_inv_beyond]

lemma router_inv_quiet: "quiet s = quiet t \<Longrightarrow> router_inv s = router_inv t"
  using quiet_obs(11,12) [of s t] by (simp add: router_inv_def)

lemma router_inv_metrics [simp]:
  "router_inv (s\<lparr>metrics := m\<rparr>) = router_inv s" "router_inv (s\<lparr>ticks := n\<rparr>) = router_inv s"
  "router_inv (s\<lparr>routed := r\<rparr>) = router_inv s"
  by (simp_all add: router_inv_def)

lemma router_inv_service:
  "preserves router_inv (add_metric k v)" "preserves router_inv (increment k)" "preserves router_inv (readSteadyNs E)"
  "preserves router_inv (buildTraceId E u)"
  by (simp_all add: preserves_def buildTraceId_def router_inv_def)

lemma delivery_inv_service: "obs_service s = obs_service t \<Longrightarrow> delivery_inv s \<Longrightarrow> delivery_inv t"
  by (simp add: obs_service_def delivery_inv_def)

lemma keeps_resolveTimed:
  "keeps obs_db (resolveTimed E u)" "keeps obs_service (resolveTimed E u)" "keeps obs_out (resolveTimed E u)"
  "preserves router_inv (resolveTimed E u)"
proof -
  show "keeps obs_db (resolveTimed E u)" "keeps obs_service (resolveTimed E u)" "keeps obs_out (resolveTimed E u)"
    unfolding resolveTimed_def by (intro keeps service_keeps)+
  have "preserves router_inv (registered b (resolveUserNode E u) None)" for b
    unfolding registered_def by (intro preserves router_inv_registry)
  then show "preserves router_inv (resolveTimed E u)"
    unfolding resolveTimed_def by (intro preserves router_inv_service)
qed

text \<open>The shard whose channel takes the messages for a user.\<close>

abbreviation userShard :: "('r, 'd, 'x) service_state_scheme \<Rightarrow> cint \<Rightarrow> nat" where
  "userShard s u \<equiv> pickShard (rc_shardCount (routerConfig s)) u"

lemma carried_quiet: "quiet t' = quiet s' \<Longrightarrow> carried meta k m s t' = carried meta k m s s'"
  using quiet_obs(1,11,12,13) [of t' s'] by (simp add: carried_def)

lemma queue_full_quiet: "quiet t' = quiet s' \<Longrightarrow> queue_full meta k t' = queue_full meta k s'"
  using quiet_obs(11,12) [of t' s'] by (simp add: queue_full_def)

lemma sendRemote_unfold:
  fixes s :: "('r, 'd, 'x) service_state_scheme"
  assumes router: "hasRouter s"
  obtains t self traceId where
    "obs_db t = obs_db s" "obs_service t = obs_service s" "outbox t = outbox s" "router_inv s \<longrightarrow> router_inv t"
    "routerConfig t = routerConfig s"
    "result (sendRemote E nid meta u f msg) s = result (sendOneChat E meta self u msg traceId) t"
    "quiet (exec (sendRemote E nid meta u f msg) s) = quiet
       (let t' = exec (sendOneChat E meta self u msg traceId) t in
        if result (sendOneChat E meta self u msg traceId) t then t'\<lparr>routed := routed t' @ [(nid, [u], msg)]\<rparr> else t')"
proof -
  define s1 where "s1 = exec (prewarmNode E meta) s"
  define s2 where "s2 = exec (readSteadyNs E) s1"
  define t where "t = exec (buildTraceId E f) s2"
  note defs = s1_def s2_def t_def
  have pre: "keeps obs_db (do { prewarmNode E meta; readSteadyNs E; buildTraceId E f })"
    "keeps obs_service (do { prewarmNode E meta; readSteadyNs E; buildTraceId E f })"
    "keeps obs_out (do { prewarmNode E meta; readSteadyNs E; buildTraceId E f })"
    by (intro keeps service_keeps)+
  have t: "t = exec (do { prewarmNode E meta; readSteadyNs E; buildTraceId E f }) s" by (simp add: defs)
  have obs: "obs_db t = obs_db s" "obs_service t = obs_service s" "outbox t = outbox s"
    using keepsD [OF pre(1), of s] keepsD [OF pre(2), of s] keepsD [OF pre(3), of s] unfolding t obs_out_def by blast+
  have "router_inv t" if "router_inv s"
    unfolding t by (rule preservesD [where P = router_inv, OF _ that]) (intro preserves inv_prewarmNode router_inv_service)
  then have inv: "router_inv s \<longrightarrow> router_inv t" by blast
  have config: "routerConfig t = routerConfig s"
    using keepsD [OF beyond_prewarm(2) [of E meta], of s] by (simp add: defs buildTraceId_def beyond_router_def)
  have "hasRouter s1" using router keepsD [OF pre(2), of s] unfolding obs_service_def by (simp add: s1_def buildTraceId_def)
  let ?self = "nodeId (serviceNode t)" and ?tr = "result (buildTraceId E f) s2"
  have res: "result (sendRemote E nid meta u f msg) s = result (sendOneChat E meta ?self u msg ?tr) t"
    using router by (simp add: sendRemote_def defs)
  have "quiet (exec (sendRemote E nid meta u f msg) s) = quiet
       (let t' = exec (sendOneChat E meta ?self u msg ?tr) t in
        if result (sendOneChat E meta ?self u msg ?tr) t then t'\<lparr>routed := routed t' @ [(nid, [u], msg)]\<rparr> else t')"
    using router by (simp add: sendRemote_def defs noteRouted_def Let_def)
  from that [OF obs inv config res this] show thesis .
qed

lemma tryRemote_effect:
  fixes s :: "('r, 'd, 'x) service_state_scheme"
  assumes inv: "router_inv s" and s': "s' = exec (tryRemote E resolved u f msg) s"
    and ok: "ok = result (tryRemote E resolved u f msg) s"
  shows "obs_db s' = obs_db s" "obs_table s' = obs_table s" "delivery_inv s \<Longrightarrow> delivery_inv s'" "router_inv s'"
    and "if ok then \<exists>nid meta. resolved = Some (nid, meta) \<and> nid \<noteq> nodeId (selfNode s) \<and> hasRouter s \<and> valid meta \<and>
             routed s' = routed s @ [(nid, [u], msg)] \<and> carried meta (userShard s u) (oneChatFrame u msg) s s'
         else routed s' = routed s \<and> outbox s' = outbox s \<and>
           (\<forall>nid meta. resolved = Some (nid, meta) \<longrightarrow> nid = nodeId (selfNode s) \<or> \<not> hasRouter s \<or> \<not> valid meta \<or>
              queue_full meta (userShard s u) s')"
proof -
  have "obs_db s' = obs_db s \<and> obs_table s' = obs_table s \<and> (delivery_inv s \<longrightarrow> delivery_inv s') \<and> router_inv s' \<and>
    (if ok then \<exists>nid meta. resolved = Some (nid, meta) \<and> nid \<noteq> nodeId (selfNode s) \<and> hasRouter s \<and> valid meta \<and>
             routed s' = routed s @ [(nid, [u], msg)] \<and> carried meta (userShard s u) (oneChatFrame u msg) s s'
         else routed s' = routed s \<and> outbox s' = outbox s \<and>
           (\<forall>nid meta. resolved = Some (nid, meta) \<longrightarrow> nid = nodeId (selfNode s) \<or> \<not> hasRouter s \<or> \<not> valid meta \<or>
              queue_full meta (userShard s u) s'))"
  proof (cases resolved)
    case None
    then show ?thesis using inv by (simp add: tryRemote_def s' ok)
  next
    case (Some p)
    obtain nid meta where p: "p = (nid, meta)" by fastforce
    show ?thesis
    proof (cases "isSelfNode s nid")
      case True
      have k: "keeps obs_db (unbindUser E u)" "keeps obs_service (unbindUser E u)" "keeps obs_out (unbindUser E u)"
        by (intro service_keeps)+
      let ?t = "s\<lparr>metrics := (metrics s)(StaleSession := metrics s StaleSession + 1)\<rparr>"
      have run: "s' = exec (unbindUser E u) ?t" "\<not> ok" using True Some p by (simp_all add: tryRemote_def s' ok)
      have "router_inv s'" unfolding run(1)
        by (rule preservesD [OF router_inv_beyond [OF beyond_bindUser(2)]]) (simp add: inv)
      moreover have "obs_db s' = obs_db s" "obs_service s' = obs_service s" "outbox s' = outbox s"
        using keepsD [OF k(1), of ?t] keepsD [OF k(2), of ?t] keepsD [OF k(3), of ?t] run(1)
        by (simp_all add: obs_db_def obs_service_def obs_out_def)
      ultimately show ?thesis using service_frame [of s' s] delivery_inv_service [of s s'] run(2) Some p True
        by (simp add: obs_routed_def isSelfNode_def)
    next
      case False
      then have run: "s' = exec (sendRemote E nid meta u f msg) s" "ok = result (sendRemote E nid meta u f msg) s"
        using Some p by (simp_all add: tryRemote_def s' ok)
      show ?thesis
      proof (cases "hasRouter s")
        case False
        then have "quiet s' = quiet s" "\<not> ok" by (simp_all add: run sendRemote_def)
        with quiet_obs [OF this(1)] inv show ?thesis
          using delivery_inv_quiet [of s' s] router_inv_quiet [of s' s] False
          by (simp add: obs_db_def obs_table_def)
      next
        case True
        obtain t self traceId where t: "obs_db t = obs_db s" "obs_service t = obs_service s" "outbox t = outbox s"
            "router_inv s \<longrightarrow> router_inv t" "routerConfig t = routerConfig s"
          and res: "result (sendRemote E nid meta u f msg) s = result (sendOneChat E meta self u msg traceId) t"
          and q: "quiet (exec (sendRemote E nid meta u f msg) s) = quiet
            (let t' = exec (sendOneChat E meta self u msg traceId) t in
             if result (sendOneChat E meta self u msg traceId) t then t'\<lparr>routed := routed t' @ [(nid, [u], msg)]\<rparr> else t')"
          by (rule sendRemote_unfold [OF True, where E = E and meta = meta and f = f and u = u and msg = msg and nid = nid])
        define t' where "t' = exec (sendOneChat E meta self u msg traceId) t"
        have kept: "obs_db t' = obs_db s" "obs_service t' = obs_service s"
          using keepsD [OF router_lift(1) [OF beyond_sends(2)], of E meta self u msg traceId t]
            keepsD [OF router_lift(2) [OF beyond_sends(2)], of E meta self u msg traceId t] t(1,2)
          by (simp_all add: t'_def)
        have invt': "router_inv t'" unfolding t'_def by (rule preservesD [OF inv_sendOneChat]) (rule t(4) [THEN mp, OF inv])
        note q = q [folded run(1) res run(2) t'_def, unfolded Let_def]
        have eq: "quiet s' = quiet (t'\<lparr>routed := (if ok then routed t' @ [(nid, [u], msg)] else routed t')\<rparr>)"
          using q by (cases ok) (simp_all del: quiet_upd)
        note s't' = quiet_obs [OF eq]
        have rest: "obs_db s' = obs_db s" "obs_table s' = obs_table s"
          "routed s' = (if ok then routed s @ [(nid, [u], msg)] else routed s)"
          "delivery_inv s \<longrightarrow> delivery_inv s'" "router_inv s'"
          using s't' kept invt' by (simp_all add: obs_db_def obs_table_def obs_service_def delivery_inv_def router_inv_def)
        have sent: "if ok then valid meta \<and> carried meta (userShard s u) (oneChatFrame u msg) s s'
          else outbox s' = outbox s \<and> (\<not> valid meta \<or> queue_full meta (userShard s u) s')"
        proof (cases "valid meta")
          case True
          have "carried meta k m t t' = carried meta k m s s'" "queue_full meta k t' = queue_full meta k s'" for k m
            using s't' t(3) by (simp_all add: carried_def queue_full_def)
          with sendOneChat_effect [OF t(4) [THEN mp, OF inv] True t'_def] show ?thesis
            using s't' t(3,5) True by (simp add: res [folded run(2)] split: if_splits)
        next
          case False
          then have "\<not> ok" "t' = t" by (simp_all add: run(2) res t'_def sendOneChat_def)
          then show ?thesis using s't' t(3) False by simp
        qed
        show ?thesis using rest sent Some p \<open>\<not> isSelfNode s nid\<close> \<open>hasRouter s\<close> by (auto simp: isSelfNode_def)
      qed
    qed
  qed
  then show "obs_db s' = obs_db s" "obs_table s' = obs_table s" "delivery_inv s \<Longrightarrow> delivery_inv s'" "router_inv s'"
    "if ok then \<exists>nid meta. resolved = Some (nid, meta) \<and> nid \<noteq> nodeId (selfNode s) \<and> hasRouter s \<and> valid meta \<and>
             routed s' = routed s @ [(nid, [u], msg)] \<and> carried meta (userShard s u) (oneChatFrame u msg) s s'
         else routed s' = routed s \<and> outbox s' = outbox s \<and>
           (\<forall>nid meta. resolved = Some (nid, meta) \<longrightarrow> nid = nodeId (selfNode s) \<or> \<not> hasRouter s \<or> \<not> valid meta \<or>
              queue_full meta (userShard s u) s')" by blast+
qed

section \<open>One to one chat\<close>

lemma quiet_for:
  assumes "quiet t = quiet s"
  shows "dispatcherFor l t = dispatcherFor l s" "has_room E c t = has_room E c s"
    "reachable_here E t u = reachable_here E s u" "handed E c msg t s' = handed E c msg s s'"
proof -
  note eq = quiet_obs [OF assms]
  show disp: "dispatcherFor l t = dispatcherFor l s" for l
    using eq by (simp add: dispatcherFor_def cong: option.case_cong)
  show room: "has_room E c t = has_room E c s" for c by (simp add: has_room_def disp)
  show "reachable_here E t u = reachable_here E s u"
    using eq room by (simp add: reachable_here_def tableOf_def cong: option.case_cong)
  show "handed E c msg t s' = handed E c msg s s'" using eq by (simp add: handed_def disp)
qed

lemma handed_quiet_after: "quiet t' = quiet s' \<Longrightarrow> handed E c msg s t' = handed E c msg s s'"
  using quiet_obs(1,2) [of t' s'] by (simp add: handed_def)

lemma exec_fallBack [simp]:
  "exec (fallBack E u msg) s = db_after E (insertOfflineSql u msg)
     (s\<lparr>metrics := (metrics s)(OfflineFallback := metrics s OfflineFallback + 1)\<rparr>)"
  by (simp add: fallBack_def)

lemma fallBack_effect:
  "sqlLog (exec (fallBack E u msg) s) = sqlLog s @ [c_str (insertOfflineSql u msg)]"
  "obs_service (exec (fallBack E u msg) s) = obs_service s" "outbox (exec (fallBack E u msg) s) = outbox s"
  "router_inv (exec (fallBack E u msg) s) = router_inv s"
  by (simp_all add: obs_service_def db_after_def router_inv_def)

lemma obs_dbD: "obs_db s = obs_db t \<Longrightarrow> sqlLog s = sqlLog t \<and> database s = database t"
  by (simp add: obs_db_def)

text \<open>
  The home of a user, as the registry tells it after the clock has been read for the
  measurement.
\<close>

definition homeOf ::
  "('r, 'd, 'e) service_env_scheme \<Rightarrow> cint \<Rightarrow> ('r, 'd, 'x) service_state_scheme \<Rightarrow> (string \<times> NodeMeta) option" where
  "homeOf E u s = (if hasRegistry s then result (resolveUserNode E u) (exec (readSteadyNs E) s) else None)"

lemma resolveTimed_home: "result (resolveTimed E u) s = homeOf E u s"
  by (simp add: resolveTimed_def homeOf_def registered_def)

text \<open>
  \<open>kept_offline E u msg s s'\<close>: nothing was sent, and the insert statement for this user and
  message went to the database, as the only statement.
\<close>

definition kept_offline ::
  "('r, 'd, 'e) service_env_scheme \<Rightarrow> cint \<Rightarrow> string \<Rightarrow>
   ('r, 'd, 'x) service_state_scheme \<Rightarrow> ('r, 'd, 'x) service_state_scheme \<Rightarrow> bool" where
  "kept_offline E u msg s s' \<longleftrightarrow>
     outbox s' = outbox s \<and> sqlLog s' = sqlLog s @ [c_str (insertOfflineSql u msg)] \<and>
     database s' = snd (mysqlQuery E (c_str (insertOfflineSql u msg)) (database s))"

text \<open>
  \<open>forwarded E home u msg s s'\<close>: what \<open>routeOneChat\<close> makes of the user's home. A home on
  another node with a usable address gets the frame, unless the queue of its channel is full;
  in all other cases the message goes to the database.
\<close>

definition forwarded ::
  "('r, 'd, 'e) service_env_scheme \<Rightarrow> (string \<times> NodeMeta) option \<Rightarrow> cint \<Rightarrow> string \<Rightarrow>
   ('r, 'd, 'x) service_state_scheme \<Rightarrow> ('r, 'd, 'x) service_state_scheme \<Rightarrow> bool" where
  "forwarded E home u msg s s' \<longleftrightarrow>
     (case home of
        None \<Rightarrow> kept_offline E u msg s s' \<and> routed s' = routed s
      | Some (nid, meta) \<Rightarrow>
          if nid = nodeId (selfNode s) \<or> \<not> hasRouter s \<or> \<not> valid meta
          then kept_offline E u msg s s' \<and> routed s' = routed s
          else carried meta (userShard s u) (oneChatFrame u msg) s s' \<and> obs_db s' = obs_db s \<and>
                 routed s' = routed s @ [(nid, [u], msg)] \<or>
               queue_full meta (userShard s u) s' \<and> kept_offline E u msg s s' \<and> routed s' = routed s)"

lemma forwarded_from:
  assumes "obs_table t = obs_table s" "obs_db t = obs_db s" "outbox t = outbox s" "routed t = routed s"
  shows "forwarded E home u msg t s' = forwarded E home u msg s s'"
proof -
  have "selfNode t = selfNode s" "hasRouter t = hasRouter s" "userShard t u = userShard s u"
    using assms(1) by (simp_all add: obs_table_def)
  moreover have "kept_offline E u msg t = kept_offline E u msg s"
    using assms(2,3) by (intro ext) (simp add: kept_offline_def obs_db_def)
  moreover have "carried meta k m t = carried meta k m s" for meta k m by (rule carried_frame [OF assms(3)])
  ultimately show ?thesis by (simp only: forwarded_def assms(2,4))
qed

lemma routeOneChat_effect:
  fixes s :: "('r, 'd, 'x) service_state_scheme"
  assumes inv: "delivery_inv s" "router_inv s" and s': "s' = exec (routeOneChat E u f msg) s"
  shows "forwarded E (homeOf E u s) u msg s s'"
    and "delivery_inv s'" "router_inv s'" "obs_table s' = obs_table s"
proof -
  define t where "t = exec (resolveTimed E u) s"
  define resolved where "resolved = result (resolveTimed E u) s"
  define t' where "t' = exec (tryRemote E resolved u f msg) t"
  define ok where "ok = result (tryRemote E resolved u f msg) t"
  have run: "s' = (if ok then t' else exec (fallBack E u msg) t')"
    by (simp add: s' routeOneChat_def ok_def t'_def t_def resolved_def)
  have kept: "obs_db t = obs_db s" "obs_service t = obs_service s" "outbox t = outbox s"
    using keepsD [OF keeps_resolveTimed(1), of E u s] keepsD [OF keeps_resolveTimed(2), of E u s]
      keepsD [OF keeps_resolveTimed(3), of E u s] by (simp_all add: t_def obs_out_def)
  have invt: "delivery_inv t" "router_inv t"
    using inv delivery_inv_service [OF kept(2) [symmetric]] preservesD [OF keeps_resolveTimed(4)] by (simp_all add: t_def)
  note eff = tryRemote_effect [OF invt(2) t'_def ok_def]
  have "forwarded E resolved u msg t s'"
  proof (cases ok)
    case True
    then have "s' = t'" using run by simp
    with eff(1,5) True show ?thesis by (auto simp: forwarded_def)
  next
    case False
    then have s't': "s' = exec (fallBack E u msg) t'" using run by simp
    have "routed s' = routed t'" using fallBack_effect(2) [of E u msg t'] by (simp add: s't' obs_service_def)
    moreover have "kept_offline E u msg t s'"
      using False eff(5) obs_dbD [OF eff(1)] fallBack_effect(1,3) [of E u msg t']
      by (simp add: kept_offline_def s't' db_after_def)
    moreover have "queue_full meta k s' = queue_full meta k t'" for meta k
      by (simp add: s't' queue_full_def db_after_def)
    ultimately show ?thesis using False eff(5) by (auto simp: forwarded_def split: option.splits)
  qed
  then show "forwarded E (homeOf E u s) u msg s s'"
    using forwarded_from [OF service_frame(1) [OF kept(2)] kept(1,3), of E resolved u msg s'] service_frame(2) [OF kept(2)]
    by (simp add: resolved_def resolveTimed_home obs_routed_def)
  show "delivery_inv s'" "router_inv s'" "obs_table s' = obs_table s"
    using run eff(2,4) eff(3) [OF invt(1)] service_frame(1) [OF kept(2)] service_frame(1) [OF fallBack_effect(2), of E u msg t']
      delivery_inv_service [OF fallBack_effect(2) [symmetric], of t' E u msg] fallBack_effect(4) [of E u msg t']
    by (auto simp del: exec_fallBack)
qed

lemma oneChat_run:
  assumes "jint js ''to'' = Some u" and "jint js ''id'' = Some f" and "jdump E js = Some msg"
  shows "result (oneChat E c js) s = Finished"
    and "exec (oneChat E c js) s =
      (let t = exec (deliverToLocalUser E u msg) (exec (increment OneChatSource) s) in
       if result (deliverToLocalUser E u msg) (exec (increment OneChatSource) s) then exec (increment LocalDelivery) t
       else exec (routeOneChat E u f msg) t)"
  using assms by (simp_all add: oneChat_def with_value_def finish_def Let_def)

lemma oneChat_effect:
  fixes s :: "('r, 'd, 'x) service_state_scheme"
  assumes inv: "delivery_inv s" "router_inv s"
    and js: "jint js ''to'' = Some u" "jint js ''id'' = Some f" "jdump E js = Some msg"
    and s': "s' = exec (oneChat E c js) s"
  defines "home \<equiv> homeOf E u (exec (do { increment OneChatSource; deliverToLocalUser E u msg }) s)"
  shows "case reachable_here E s u of
      Some c' \<Rightarrow> handed E c' msg s s' \<and> channels s' = channels s \<and> routed s' = routed s \<and> obs_db s' = obs_db s
    | None \<Rightarrow> forwarded E home u msg s s'"
    and "delivery_inv s'" "router_inv s'" "obs_table s' = obs_table s"
proof -
  define s1 where "s1 = exec (increment OneChatSource) s"
  have q1: "quiet s1 = quiet s" by (simp add: s1_def)
  define t where "t = exec (deliverToLocalUser E u msg) s1"
  have inv1: "delivery_inv s1" "router_inv s1"
    using inv delivery_inv_quiet [OF q1] router_inv_quiet [OF q1] by simp_all
  note eff = deliver_effect [OF inv1(1) t_def]
  note run = oneChat_run(2) [OF js, of c s, folded s' s1_def, folded t_def, unfolded Let_def]
  have obs1: "obs_db t = obs_db s" "obs_table t = obs_table s" "routed t = routed s"
    using eff(3-5) quiet_obs [OF q1] by (simp_all add: obs_db_def obs_table_def obs_routed_def)
  have invt: "router_inv t" using inv1(2) eff(6) by (simp add: router_inv_def)
  have home: "home = homeOf E u t" by (simp add: home_def t_def s1_def exec_bind)
  have "(case reachable_here E s u of
      Some c' \<Rightarrow> handed E c' msg s s' \<and> channels s' = channels s \<and> routed s' = routed s \<and> obs_db s' = obs_db s
    | None \<Rightarrow> forwarded E home u msg s s') \<and>
    delivery_inv s' \<and> router_inv s' \<and> obs_table s' = obs_table s"
  proof (cases "reachable_here E s u")
    case (Some c')
    then have s't: "s' = exec (increment LocalDelivery) t" using run eff(1) quiet_for(3) [OF q1, of E u] by simp
    then have q: "quiet s' = quiet t" by simp
    have "handed E c' msg s t" using eff(7) Some by (simp add: quiet_for [OF q1])
    then have "handed E c' msg s s'" using handed_quiet_after [OF q, of E c' msg s] by simp
    then show ?thesis
      using Some quiet_obs [OF q] obs1 eff(2,6) delivery_inv_quiet [OF q] router_inv_quiet [OF q] invt quiet_obs(11) [OF q1]
      by (simp add: obs_db_def obs_table_def)
  next
    case None
    then have s't: "s' = exec (routeOneChat E u f msg) t" using run eff(1) quiet_for(3) [OF q1, of E u] by simp
    note route = routeOneChat_effect [OF eff(2) invt s't]
    have same: "outbox t = outbox s" using eff(7) None quiet_obs(1) [OF q1] by (simp add: quiet_for [OF q1])
    have "forwarded E home u msg s s'"
      using route(1) unfolding home by (simp only: forwarded_from [OF obs1(2,1) same obs1(3)])
    with None route(2-4) obs1(2) show ?thesis by simp
  qed
  then show "case reachable_here E s u of
      Some c' \<Rightarrow> handed E c' msg s s' \<and> channels s' = channels s \<and> routed s' = routed s \<and> obs_db s' = obs_db s
    | None \<Rightarrow> forwarded E home u msg s s'"
    "delivery_inv s'" "router_inv s'" "obs_table s' = obs_table s" by blast+
qed

text \<open>
  C5. Every message of a client has exactly one fate, and which one is determined by the table
  of connections and the registry. When the receiver is connected to this node and the queue of
  the connection's loop has room, the message is written to that connection or queued for it as
  the last message, and nothing else happens. Otherwise the registry is asked for the
  receiver's home, by \<open>resolveUserNode\<close>. If that gives another node with a description that can
  be used, and there is a router, then the frame for this user with this message is the last
  one written to the live connection, or the last one in the queue, of the channel for exactly
  that description and the user's shard, and the database is left alone; only when that queue
  is full, or when there is no such home, the insert of this message for this user is sent to
  the database, and nothing is written to any connection. The handler does not throw.
\<close>

theorem oneChat_outcome:
  fixes s :: "('r, 'd, 'x) service_state_scheme" and E :: "('r, 'd, 'e) service_env_scheme"
  assumes "delivery_inv s" and "router_inv s"
    and "jint js ''to'' = Some u" and "jint js ''id'' = Some f" and "jdump E js = Some msg"
    and "s' = exec (oneChat E c js) s"
  defines "asked \<equiv> exec (do { increment OneChatSource; deliverToLocalUser E u msg; readSteadyNs E }) s"
  defines "home \<equiv> (if hasRegistry s then result (resolveUserNode E u) asked else None)"
  shows "result (oneChat E c js) s = Finished \<and>
    (case reachable_here E s u of
      Some c' \<Rightarrow> handed E c' msg s s' \<and> channels s' = channels s \<and> obs_db s' = obs_db s
    | None \<Rightarrow>
       (case home of
          None \<Rightarrow> kept_offline E u msg s s'
        | Some (nid, meta) \<Rightarrow>
            if nid = nodeId (selfNode s) \<or> \<not> hasRouter s \<or> \<not> valid meta then kept_offline E u msg s s'
            else carried meta (userShard s u) (oneChatFrame u msg) s s' \<and> obs_db s' = obs_db s \<or>
                 queue_full meta (userShard s u) s' \<and> kept_offline E u msg s s'))"
proof -
  have "hasRegistry (exec (do { increment OneChatSource; deliverToLocalUser E u msg }) s) = hasRegistry s"
  proof -
    have q: "quiet (exec (increment OneChatSource) s) = quiet s" by simp
    have "delivery_inv (exec (increment OneChatSource) s)" using assms(1) delivery_inv_quiet [OF q] by simp
    from deliver_effect(4) [OF this refl, of E u msg] quiet_obs(15) [OF q] show ?thesis
      by (simp add: obs_table_def)
  qed
  then have "home = homeOf E u (exec (do { increment OneChatSource; deliverToLocalUser E u msg }) s)"
    by (simp add: home_def asked_def homeOf_def)
  with oneChat_effect(1) [OF assms(1-6)] oneChat_run(1) [OF assms(3-5)] show ?thesis
    by (auto simp: forwarded_def split: option.splits if_splits)
qed

definition sampleChat :: json where
  "sampleChat = JObj [(''id'', JInt 1), (''msg'', JStr ''hi''), (''msgId'', JInt 6), (''to'', JInt 5)]"

lemma sampleService_inv: "delivery_inv sampleService" "router_inv sampleService"
  by (simp_all add: sampleService_def delivery_inv_def router_inv_def)

lemma sampleChat_fields:
  "jint sampleChat ''to'' = Some 5" "jint sampleChat ''id'' = Some 1" "jdump sampleServiceEnv sampleChat = Some ''{}''"
  by (simp_all add: sampleChat_def jint_def jmember_def sampleServiceEnv_def)

theorem oneChat_outcome_witness:
  "kept_offline sampleServiceEnv 5 ''{}'' (sampleService\<lparr>hasRegistry := False\<rparr>)
     (exec (oneChat sampleServiceEnv 2 sampleChat) (sampleService\<lparr>hasRegistry := False\<rparr>))"
proof -
  let ?s = "sampleService\<lparr>hasRegistry := False\<rparr>"
  have "reachable_here sampleServiceEnv ?s 5 = None" "hasRegistry ?s = False"
    by (simp_all add: reachable_here_def tableOf_def sampleService_def)
  moreover have "delivery_inv ?s" "router_inv ?s" by (simp_all add: sampleService_def delivery_inv_def router_inv_def)
  ultimately show ?thesis using oneChat_outcome [OF _ _ sampleChat_fields refl, of ?s 2] by simp
qed

section \<open>Messages from other nodes\<close>

lemma releaseStray_keeps:
  "keeps obs_db (releaseStray E u)" "keeps obs_service (releaseStray E u)" "keeps obs_out (releaseStray E u)"
  unfolding releaseStray_def by (intro keeps service_keeps)+

text \<open>
  \<open>settled u msg s s'\<close>: the message was handed to the user's connection, or stored for the
  user, the one exactly when the other is not.
\<close>

definition settled ::
  "('r, 'd, 'e) service_env_scheme \<Rightarrow> cint \<Rightarrow> string \<Rightarrow>
   ('r, 'd, 'x) service_state_scheme \<Rightarrow> ('r, 'd, 'x) service_state_scheme \<Rightarrow> bool" where
  "settled E u msg s s' \<longleftrightarrow>
     (case reachable_here E s u of
        Some c \<Rightarrow> handed E c msg s s' \<and> sqlLog s' = sqlLog s
      | None \<Rightarrow> outbox s' = outbox s \<and> sqlLog s' = sqlLog s @ [c_str (insertOfflineSql u msg)])"

text \<open>What both handlers do after the attempt to deliver, with some counting in between.\<close>

lemma deliver_then:
  fixes s :: "('r, 'd, 'x) service_state_scheme"
  assumes inv: "delivery_inv s" and q: "quiet t = quiet (exec (deliverToLocalUser E u msg) s)"
    and s': "s' = (if result (deliverToLocalUser E u msg) s then exec (increment LocalDelivery) t
                   else exec (fallBack E u msg) (exec (releaseStray E u) t))"
  shows "settled E u msg s s'"
    and "delivery_inv s'" "obs_table s' = obs_table s" "routed s' = routed s"
proof -
  define t0 where "t0 = exec (deliverToLocalUser E u msg) s"
  note eff = deliver_effect [OF inv t0_def]
  have q: "quiet t = quiet t0" using q by (simp add: t0_def)
  have t: "obs_db t = obs_db s" "obs_table t = obs_table s" "routed t = routed s" "delivery_inv t"
    using eff(2-5) quiet_obs [OF q] delivery_inv_quiet [OF q] by (simp_all add: obs_db_def obs_table_def obs_routed_def)
  define t' where "t' = exec (releaseStray E u) t"
  have kept: "obs_db t' = obs_db t" "obs_service t' = obs_service t" "outbox t' = outbox t"
    using keepsD [OF releaseStray_keeps(1), of E u t] keepsD [OF releaseStray_keeps(2), of E u t]
      keepsD [OF releaseStray_keeps(3), of E u t] by (simp_all add: t'_def obs_out_def)
  have "settled E u msg s s' \<and>
    delivery_inv s' \<and> obs_table s' = obs_table s \<and> routed s' = routed s"
  proof (cases "reachable_here E s u")
    case None
    then have s'_t': "s' = exec (fallBack E u msg) t'" using eff(1) s' by (simp add: t'_def)
    have "obs_service s' = obs_service t" using fallBack_effect(2) [of E u msg t'] kept(2) unfolding s'_t' by simp
    then show ?thesis
      using None eff(7) t kept obs_dbD [OF kept(1)] obs_dbD [OF t(1)] fallBack_effect [of E u msg t', folded s'_t']
        delivery_inv_service [of t s'] service_frame [of s' t] quiet_obs(1) [OF q] by (simp add: settled_def obs_routed_def)
  next
    case (Some c)
    then have "quiet s' = quiet t" using eff(1) s' by simp
    then have q': "quiet s' = quiet t0" using q by simp
    then show ?thesis using Some eff obs_dbD [OF eff(3)] quiet_obs [OF q'] handed_quiet_after [OF q', of E c msg s]
        delivery_inv_quiet [OF q'] by (simp add: settled_def obs_table_def obs_routed_def)
  qed
  then show "settled E u msg s s'"
    "delivery_inv s'" "obs_table s' = obs_table s" "routed s' = routed s" by blast+
qed

lemma deliverOrStore_effect:
  fixes s :: "('r, 'd, 'x) service_state_scheme"
  assumes inv: "delivery_inv s" and s': "s' = exec (deliverOrStore E msg u) s"
  shows "settled E u msg s s'" "delivery_inv s'" "obs_table s' = obs_table s" "routed s' = routed s"
proof -
  have "s' = (if result (deliverToLocalUser E u msg) s then exec (increment LocalDelivery) (exec (deliverToLocalUser E u msg) s)
      else exec (fallBack E u msg) (exec (releaseStray E u) (exec (deliverToLocalUser E u msg) s)))"
    by (simp add: s' deliverOrStore_def)
  from deliver_then [OF inv refl this]
  show "settled E u msg s s'" "delivery_inv s'" "obs_table s' = obs_table s" "routed s' = routed s" by blast+
qed

lemma frame_effect:
  fixes s :: "('r, 'd, 'x) service_state_scheme"
  assumes inv: "delivery_inv s" and s': "s' = exec (handleClusterOneChatFrame E u msg) s"
  shows "settled E u msg s s'"
    and "delivery_inv s'" "obs_table s' = obs_table s" "routed s' = routed s"
proof -
  let ?s = "exec (readSteadyNs E) s"
  define t where "t = exec (do {
      increment OneChatRemoteHandle;
      now \<leftarrow> readSteadyNs E;
      add_metric OneChatRemoteHandleNs (now - result (readSteadyNs E) s) }) (exec (deliverToLocalUser E u msg) ?s)"
  have q: "quiet ?s = quiet s" by simp
  have inv': "delivery_inv ?s" using inv delivery_inv_quiet [OF q] by simp
  have "quiet t = quiet (exec (deliverToLocalUser E u msg) ?s)" by (simp add: t_def)
  moreover have "s' = (if result (deliverToLocalUser E u msg) ?s then exec (increment LocalDelivery) t
      else exec (fallBack E u msg) (exec (releaseStray E u) t))"
    by (simp add: s' handleClusterOneChatFrame_def t_def)
  ultimately have eff: "settled E u msg ?s s'"
    "delivery_inv s'" "obs_table s' = obs_table ?s" "routed s' = routed ?s"
    by (rule deliver_then [OF inv'])+
  have obs: "sqlLog ?s = sqlLog s" "outbox ?s = outbox s" "obs_table ?s = obs_table s" "routed ?s = routed s"
    using quiet_obs [OF q] by (simp_all add: obs_table_def)
  show "settled E u msg s s'"
    using eff(1) unfolding settled_def quiet_for [OF q] obs .
  show "delivery_inv s'" "obs_table s' = obs_table s" "routed s' = routed s"
    using eff(2-4) obs by simp_all
qed

lemma deliverAll_effect:
  fixes s :: "('r, 'd, 'x) service_state_scheme" and E :: "('r, 'd, 'e) service_env_scheme" and us :: "cint list"
    and msg :: string
  assumes "delivery_inv s"
  defines "after i \<equiv> fold (\<lambda>u. exec (deliverOrStore E msg u)) (take i us) s"
  shows "i \<le> length us \<Longrightarrow> delivery_inv (after i)"
    and "i < length us \<Longrightarrow> settled E (us ! i) msg (after i) (after (Suc i))"
proof -
  have step: "after (Suc i) = exec (deliverOrStore E msg (us ! i)) (after i)" if "i < length us" for i
    using that by (simp add: after_def take_Suc_conv_app_nth)
  have inv: "i \<le> length us \<Longrightarrow> delivery_inv (after i)" for i
  proof (induction i)
    case 0
    then show ?case using assms(1) by (simp add: after_def)
  next
    case (Suc i)
    then have "i < length us" "delivery_inv (after i)" by simp_all
    from deliverOrStore_effect(2) [OF this(2) step [OF this(1)]] show ?case .
  qed
  show "i \<le> length us \<Longrightarrow> delivery_inv (after i)" by (rule inv)
  show "i < length us \<Longrightarrow> settled E (us ! i) msg (after i) (after (Suc i))"
    using deliverOrStore_effect(1) [OF inv step] by simp
qed

text \<open>
  A one-to-one frame from another node is settled here: it is handed to the user's
  connection when the user is connected and the queue has room, and stored for the user
  otherwise; it is never passed on, so messages cannot circle between nodes.
\<close>

theorem clusterFrame_settled:
  assumes "delivery_inv s" and "s' = exec (handleClusterOneChatFrame E u msg) s"
  shows "settled E u msg s s' \<and> routed s' = routed s"
  using frame_effect(1,4) [OF assms] by blast

theorem clusterFrame_settled_witness:
  "sqlLog (exec (handleClusterOneChatFrame sampleServiceEnv 5 ''hi'') sampleService) = [c_str (insertOfflineSql 5 ''hi'')]"
proof -
  have "reachable_here sampleServiceEnv sampleService 5 = None" "sqlLog sampleService = []"
    by (simp_all add: reachable_here_def tableOf_def sampleService_def)
  with clusterFrame_settled [OF sampleService_inv(1) refl, of sampleServiceEnv 5 "''hi''"] show ?thesis by (simp add: settled_def)
qed

text \<open>
  C22. A group message from another node is settled for each of its receivers, one after the
  other in the order of the list, whatever happens to the others: a receiver that is not
  reachable here does not keep the message from the next one.
\<close>

theorem clusterGroup_settled:
  fixes s :: "('r, 'd, 'x) service_state_scheme" and E :: "('r, 'd, 'e) service_env_scheme" and us :: "cint list"
    and msg :: string
  assumes "delivery_inv s" and "jints js ''toUsers'' = Some us" and "jstr js ''payload'' = Some msg"
  defines "after i \<equiv> fold (\<lambda>u. exec (deliverOrStore E msg u)) (take i us) s"
  shows "run_state (handleClusterGroupChat E js) s = (Finished, after (length us)) \<and>
    list_all (\<lambda>i. settled E (us ! i) msg (after i) (after (Suc i))) [0..<length us]"
proof -
  have "run_state (handleClusterGroupChat E js) s = (Finished, after (length us))"
    using assms(2,3) by (simp add: run_state_pair handleClusterGroupChat_def with_value_def finish_def after_def)
  then show ?thesis using deliverAll_effect(2) [OF assms(1), of _ us E msg] by (auto simp: list_all_iff after_def)
qed

theorem clusterGroup_settled_witness:
  "\<exists>s'. run_state (handleClusterGroupChat sampleServiceEnv
     (JObj [(''payload'', JStr ''hi''), (''toUsers'', JArr [JInt 5, JInt 7])])) sampleService = (Finished, s')"
  using clusterGroup_settled [OF sampleService_inv(1), of "JObj [(''payload'', JStr ''hi''), (''toUsers'', JArr [JInt 5, JInt 7])]"
      "[5, 7]" "''hi''" sampleServiceEnv]
  by (simp add: jints_def jstr_def jmember_def)

end
