(* ===== verification/GroupRouting.thy ===== *)
theory GroupRouting
  imports MessageRouting "HOL-Library.Sublist"
begin

text \<open>
  What becomes of a group message: \<open>ChatService::groupChat\<close>
  (\<open>src/server/chatservice.cpp\<close>). Each member of the group is served in exactly one of three
  ways, and the three lists the handler builds together are the members.
\<close>

section \<open>The three lists\<close>



text \<open>The users of a bucket map, as a multiset.\<close>

definition users_of :: "(string \<times> cint list) list \<Rightarrow> cint multiset" where
  "users_of nodes = (\<Sum>n \<in># mset nodes. mset (snd n))"

lemma users_of_simps [simp]: "users_of [] = {#}" "users_of (n # ns) = mset (snd n) + users_of ns"
  by (simp_all add: users_of_def)



lemma keys_addToNode: "fst ` set (addToNode nid u nodes) = insert nid (fst ` set nodes)"
  by (simp add: addToNode_def dom_update)

section \<open>Which node serves which member\<close>












section \<open>What the nodes get\<close>










section \<open>The handler\<close>












end
