(* ===== verification/SessionLifecycle.thy ===== *)
theory SessionLifecycle
  imports MessageRouting
begin

text \<open>
  Logging in and out (\<open>login\<close>, \<open>logout\<close>, \<open>clientCloseException\<close> of
  \<open>src/server/chatservice.cpp\<close>): when a user is admitted, what the three places that know
  about it (the connection table, the session in Redis, the user's row) hold afterwards, and
  what a closed connection leaves behind.
\<close>

section \<open>Admission\<close>

text \<open>The service projection without the connection table.\<close>

definition obs_rest :: "('r, 'd, 'x) service_state_scheme \<Rightarrow>
    (loop_id \<rightharpoonup> LocalLoopDispatcher) \<times> NodeMeta \<times> NodeMeta \<times> bool \<times> bool \<times> loop_id \<times>
    (string \<times> cint list \<times> string) list" where
  "obs_rest s = (localDispatchers s, serviceNode s, selfNode s, hasRegistry s, hasRouter s, currentLoop s, routed s)"

lemma obs_rest_service: "obs_service s = obs_service t \<Longrightarrow> obs_rest s = obs_rest t"
  by (simp add: obs_service_def obs_rest_def)

lemma db_after_obs [simp]:
  "obs_service (db_after E sql s) = obs_service s" "hasRegistry (db_after E sql s) = hasRegistry s"
  "connBuckets (db_after E sql s) = connBuckets s" "routed (db_after E sql s) = routed s"
  by (rule db_after_frame) (simp_all add: db_after_def)

lemma tableOf_cong: "connBuckets s = connBuckets t \<Longrightarrow> tableOf s = tableOf t"
  by (rule ext) (simp add: tableOf_def)

lemma buckets_ok_cong: "connBuckets s = connBuckets t \<Longrightarrow> buckets_ok s = buckets_ok t"
  by (simp add: buckets_ok_def)

lemma registry_query_keeps:
  "keeps obs_db (registered b (queryUserNode E u) x)" "keeps obs_service (registered b (queryUserNode E u) x)"
  "keeps obs_out (registered b (queryUserNode E u) x)"
  by (intro keeps service_keeps)+

text \<open>The four ends of \<open>admitUser\<close>, with the states between its blocks.\<close>

lemma admitUser_cases:
  fixes s :: "('r, 'd, 'x) service_state_scheme"
  assumes run: "run_state (admitUser E c u pwd) s = ((user, v), s')"
  defines "s1 \<equiv> exec (UserModel_query E u) s"
  defines "s2 \<equiv> exec (registered (hasRegistry s) (queryUserNode E u) None) s1"
  defines "s3 \<equiv> exec (do_when (user_state user = ''online'') (do {
             UserModel_updateState E (user\<lparr>user_state := ''offline''\<rparr>);
             increment StaleSession
           })) s2"
  defines "s4 \<equiv> exec (addLocalConnection u c) s3"
  defines "s5 \<equiv> exec (registered (hasRegistry s) (bindUser E u) True) s4"
  shows "user = result (UserModel_query E u) s"
    and "v = (if user_id user = u \<and> user_password user = pwd then
                if result (registered (hasRegistry s) (queryUserNode E u) None) s1 \<noteq> None then InUse
                else if result (registered (hasRegistry s) (bindUser E u) True) s4 then Admitted else BindFailed
              else BadPassword)"
    and "s' = (case v of
        Admitted \<Rightarrow> exec (UserModel_updateState E (user\<lparr>user_state := ''online''\<rparr>)) s5
      | BindFailed \<Rightarrow> exec (removeLocalConnection u) s5
      | _ \<Rightarrow> s2)"
proof -
  show user: "user = result (UserModel_query E u) s"
    using run by (auto simp: admitUser_def run_state_pair split: if_splits)
  have run': "(user, v) = result (admitUser E c u pwd) s" "s' = exec (admitUser E c u pwd) s"
    using run by (simp_all add: run_state_pair)
  show v: "v = (if user_id user = u \<and> user_password user = pwd then
                if result (registered (hasRegistry s) (queryUserNode E u) None) s1 \<noteq> None then InUse
                else if result (registered (hasRegistry s) (bindUser E u) True) s4 then Admitted else BindFailed
              else BadPassword)"
    using run'(1) user
    by (simp add: admitUser_def s1_def s2_def s3_def s4_def split: if_splits)
  show "s' = (case v of
        Admitted \<Rightarrow> exec (UserModel_updateState E (user\<lparr>user_state := ''online''\<rparr>)) s5
      | BindFailed \<Rightarrow> exec (removeLocalConnection u) s5
      | _ \<Rightarrow> s2)"
    unfolding v run'(2)
    by (simp add: admitUser_def s1_def s2_def s3_def s4_def s5_def user)
qed

lemma run_bindUser:
  "result (bindUser E u) s = result (bindUserNode E u (nodeId (selfNode s)) (instanceId (selfNode s))) s"
  "redisSrv (exec (bindUser E u) s) = redisSrv (exec (bindUserNode E u (nodeId (selfNode s)) (instanceId (selfNode s))) s)"
  by (simp_all add: bindUser_def)

lemma run_unbindUser:
  "redisSrv (exec (unbindUser E u) s) = redisSrv (exec (unbindUserNode E u (nodeId (selfNode s))) (exec (eraseCachedUserNode u) s))"
  by (simp add: unbindUser_def del: exec_erase)

lemma admitUser_effect:
  fixes s :: "('r, 'd, 'x) service_state_scheme" and E :: "('r, 'd, 'e) service_env_scheme"
  assumes doc: "redis_documented (redisCommand E) view" and self: "storable (nodeId (selfNode s)) (instanceId (selfNode s))"
    and ok: "buckets_ok s" and reg: "hasRegistry s"
    and run: "run_state (admitUser E c u pwd) s = ((user, v), s')"
  shows "user = result (UserModel_query E u) s"
    and "v \<noteq> BadPassword \<longleftrightarrow> user_id user = u \<and> user_password user = pwd"
    and "v = Admitted \<Longrightarrow> tableOf s' = (tableOf s)(u \<mapsto> c) \<and>
        session_of (view (redisSrv s')) u = Some (nodeId (selfNode s), instanceId (selfNode s))"
    and "v = BindFailed \<Longrightarrow> tableOf s' = (tableOf s)(u := None)"
    and "v = InUse \<or> v = BadPassword \<Longrightarrow> obs_service s' = obs_service s \<and> sqlLog s' = sqlLog s @ [c_str (queryUserSql u)]"
    and "outbox s' = outbox s" "obs_rest s' = obs_rest s" "buckets_ok s'"
proof -
  define s1 where "s1 = exec (UserModel_query E u) s"
  define s2 where "s2 = exec (registered (hasRegistry s) (queryUserNode E u) None) s1"
  define s3 where "s3 = exec (do_when (user_state user = ''online'') (do {
             UserModel_updateState E (user\<lparr>user_state := ''offline''\<rparr>);
             increment StaleSession
           })) s2"
  define s4 where "s4 = exec (addLocalConnection u c) s3"
  define s5 where "s5 = exec (registered (hasRegistry s) (bindUser E u) True) s4"
  note cases = admitUser_cases [OF run, folded s1_def, folded s2_def, folded s3_def, folded s4_def, folded s5_def]
  show "user = result (UserModel_query E u) s" by (rule cases(1))
  show "v \<noteq> BadPassword \<longleftrightarrow> user_id user = u \<and> user_password user = pwd"
    using cases(2) by (auto split: if_splits)
  have s1: "obs_service s1 = obs_service s" "outbox s1 = outbox s" "sqlLog s1 = sqlLog s @ [c_str (queryUserSql u)]"
    by (simp_all add: s1_def)
  have s2: "obs_db s2 = obs_db s1" "obs_service s2 = obs_service s1" "outbox s2 = outbox s1"
    using keepsD [OF registry_query_keeps(1), of "hasRegistry s" E u None s1]
      keepsD [OF registry_query_keeps(2), of "hasRegistry s" E u None s1]
      keepsD [OF registry_query_keeps(3), of "hasRegistry s" E u None s1] by (simp_all add: s2_def obs_out_def)
  have s3: "obs_service s3 = obs_service s2" "outbox s3 = outbox s2"
    by (simp_all add: s3_def obs_service_def db_after_def)
  have b3: "connBuckets s3 = connBuckets s" using s1(1) s2(2) s3(1) by (simp add: obs_service_def)
  have ok3: "buckets_ok s3" using ok buckets_ok_cong [OF b3] by simp
  have tab4: "tableOf s4 = (tableOf s)(u \<mapsto> c)" "buckets_ok s4"
    using buckets.add_table [OF ok3] buckets.ok_add [OF ok3] tableOf_cong [OF b3] by (simp_all add: s4_def)
  have rest4: "obs_rest s4 = obs_rest s3" "outbox s4 = outbox s3" "selfNode s4 = selfNode s3"
    by (simp_all add: s4_def addLocalConnection_def Let_def obs_rest_def)
  have bind: "s5 = exec (bindUser E u) s4" using reg by (simp add: s5_def registered_def)
  have k: "keeps obs_service (bindUser E u)" "keeps obs_out (bindUser E u)" by (intro service_keeps)+
  have s5: "obs_service s5 = obs_service s4" "outbox s5 = outbox s4"
    using keepsD [OF k(1), of s4] keepsD [OF k(2), of s4] by (simp_all add: bind obs_out_def)
  have b5: "connBuckets s5 = connBuckets s4" using s5(1) by (simp add: obs_service_def)
  have self4: "selfNode s4 = selfNode s" using rest4(3) s3(1) s2(2) s1(1) by (simp add: obs_service_def)
  have rest5: "obs_rest s5 = obs_rest s" "outbox s5 = outbox s"
    using obs_rest_service [OF s5(1)] rest4 obs_rest_service [OF s3(1)] obs_rest_service [OF s2(2)]
      obs_rest_service [OF s1(1)] s5(2) s3(2) s2(3) s1(2) by simp_all
  have rest2: "obs_rest s2 = obs_rest s" "outbox s2 = outbox s"
    using obs_rest_service [OF s2(2)] obs_rest_service [OF s1(1)] s2(3) s1(2) by simp_all
  have rem: "obs_rest (exec (removeLocalConnection u) s5) = obs_rest s5" "outbox (exec (removeLocalConnection u) s5) = outbox s5"
    by (simp_all add: removeLocalConnection_def Let_def obs_rest_def)
  have ok5: "buckets_ok s5" "tableOf s5 = (tableOf s)(u \<mapsto> c)"
    using tab4 buckets_ok_cong [OF b5] tableOf_cong [OF b5] by simp_all
  have upd: "obs_rest (db_after E sql s5) = obs_rest s5" "outbox (db_after E sql s5) = outbox s5"
    "tableOf (db_after E sql s5) = tableOf s5" "buckets_ok (db_after E sql s5)" "redisSrv (db_after E sql s5) = redisSrv s5" for sql
    using ok5(1) obs_rest_service [OF db_after_obs(1)] tableOf_cong [of "db_after E sql s5" s5]
      buckets_ok_cong [of "db_after E sql s5" s5] by simp_all
  show "tableOf s' = (tableOf s)(u \<mapsto> c) \<and>
      session_of (view (redisSrv s')) u = Some (nodeId (selfNode s), instanceId (selfNode s))" if adm: "v = Admitted"
  proof -
    have s': "s' = db_after E (updateStateSql (user\<lparr>user_state := ''online''\<rparr>)) s5" using cases(3) adm by simp
    have "result (bindUser E u) s4" using cases(2) adm reg by (auto simp: registered_def split: if_splits)
    then have "result (bindUserNode E u (nodeId (selfNode s4)) (instanceId (selfNode s4))) s4" by (simp add: run_bindUser)
    from sessions_bind(1) [OF doc _ this] self self4
    have "session_of (view (redisSrv s5)) u = Some (nodeId (selfNode s), instanceId (selfNode s))"
      by (simp add: bind run_bindUser)
    then show ?thesis using ok5 by (simp add: s' upd)
  qed
  show "tableOf s' = (tableOf s)(u := None)" if "v = BindFailed"
    using cases(3) that buckets.remove_table [OF ok5(1), of u] ok5(2) by simp
  show "obs_service s' = obs_service s \<and> sqlLog s' = sqlLog s @ [c_str (queryUserSql u)]" if "v = InUse \<or> v = BadPassword"
    using cases(3) that s2 s1 obs_dbD [OF s2(1)] by auto
  show "outbox s' = outbox s" "obs_rest s' = obs_rest s"
    using cases(3) rest5 rest2 rem upd by (cases v; simp)+
  show "buckets_ok s'"
  proof (cases "v = Admitted \<or> v = BindFailed")
    case True
    then show ?thesis using cases(3) upd(4) buckets.ok_remove [OF ok5(1), of u] by auto
  next
    case False
    have "connBuckets s2 = connBuckets s" using s1(1) s2(2) by (simp add: obs_service_def)
    then have "buckets_ok s2" using ok buckets_ok_cong by blast
    then show ?thesis using cases(3) False by (cases v) simp_all
  qed
qed

section \<open>The answer\<close>

lemma loginReply_effect:
  fixes s :: "('r, 'd, 'x) service_state_scheme"
  shows "obs_service (exec (loginReply E c user u) s) = obs_service s"
    and "redisSrv (exec (loginReply E c user u) s) = redisSrv s"
    and "if result (loginReply E c user u) s = Finished
         then \<exists>friends groups text. jdump E (loginAck user (result (OfflineMsgModel_query E u) s) friends groups) = Some text \<and>
                outbox (exec (loginReply E c user u) s) = outbox s @ [(c, text)]
         else outbox (exec (loginReply E c user u) s) = outbox s"
proof -
  let ?offl = "result (OfflineMsgModel_query E u) s"
  define t where "t = exec (do { offl \<leftarrow> OfflineMsgModel_query E u; do_when (offl \<noteq> []) (OfflineMsgModel_remove E u); FriendModel_query E u }) s"
  have t: "obs_service t = obs_service s" "redisSrv t = redisSrv s" "outbox t = outbox s"
    by (simp_all add: t_def)
  have groups: "obs_service (exec (GroupModel_queryGroups E u) t) = obs_service t"
    "redisSrv (exec (GroupModel_queryGroups E u) t) = redisSrv t" "outbox (exec (GroupModel_queryGroups E u) t) = outbox t"
    using keepsD [OF keeps_queryGroups [of obs_service E u, OF db_after_frame(1)], of t]
      keepsD [OF keeps_queryGroups [of redisSrv E u], of t] keepsD [OF keeps_queryGroups [of outbox E u], of t] by simp_all
  have run: "run_state (loginReply E c user u) s =
      run_state (with_value (all_some (map (\<lambda>u. jdump E (friendJson u)) (result (FriendModel_query E u)
          (exec (do { offl \<leftarrow> OfflineMsgModel_query E u; do_when (offl \<noteq> []) (OfflineMsgModel_remove E u) }) s))))
        (\<lambda>friendTexts. do {
           groups \<leftarrow> GroupModel_queryGroups E u;
           with_value (all_some (map (groupText E) groups)) (\<lambda>groupTexts.
             sendJson E c (loginAck user ?offl friendTexts groupTexts))
         })) t"
    by (simp add: loginReply_def t_def run_state_pair)
  show "obs_service (exec (loginReply E c user u) s) = obs_service s"
    "redisSrv (exec (loginReply E c user u) s) = redisSrv s"
    "if result (loginReply E c user u) s = Finished
         then \<exists>friends groups text. jdump E (loginAck user ?offl friends groups) = Some text \<and>
                outbox (exec (loginReply E c user u) s) = outbox s @ [(c, text)]
         else outbox (exec (loginReply E c user u) s) = outbox s"
    unfolding exec_def [of "loginReply _ _ _ _"] result_def [of "loginReply _ _ _ _"] run
    using t groups
    by (auto simp: with_value_def sendJson_def finish_def run_state_pair obs_service_def split: option.splits)
qed

lemma login_run:
  assumes "jint js ''id'' = Some u" and "jstr js ''password'' = Some pwd"
    and "run_state (admitUser E c u pwd) s = ((user, v), t)"
  shows "run_state (login E c js) s =
    (if v = Admitted then run_state (loginReply E c user u) t else run_state (sendJson E c (refusal v)) t)"
  using assms by (simp add: login_def with_value_def run_state_pair)

text \<open>
  C13. What \<open>login\<close> answers and when. The conditions are a node with a control plane, a
  documented Redis, an identity of this node that can be stored, and refusals that can be
  printed. The row of the user decides alone whether the answer is errno 1. With the right id
  and password, a user for whom \<open>queryUserNode\<close> finds a session, asked after the row has been
  read, is turned away with errno 2; in both cases no statement but the query of the row has
  been sent. Otherwise the session is bound, after the user has been put in the table: when
  that fails the answer is errno 3 and the user has no connection on this node. A user for
  whom it succeeds is admitted: the table maps the user to this connection and the session in
  Redis names this incarnation of this node; the answer then carries exactly the offline
  messages the database returned. Every request is answered once, unless printing the
  answer throws after the user was admitted, which leaves the user bound but unanswered.
\<close>

theorem login_outcome:
  fixes s :: "('r, 'd, 'x) service_state_scheme" and E :: "('r, 'd, 'e) service_env_scheme"
  assumes "redis_documented (redisCommand E) view" and "storable (nodeId (selfNode s)) (instanceId (selfNode s))"
    and "buckets_ok s" and "hasRegistry s"
    and "jint js ''id'' = Some u" and "jstr js ''password'' = Some pwd" and "\<And>v. jdump E (refusal v) = Some (text v)"
    and "run_state (admitUser E c u pwd) s = ((user, v), t)" and "s' = exec (login E c js) s"
  defines "asked \<equiv> exec (UserModel_query E u) s"
  defines "binding \<equiv> exec (do {
      queryUserNode E u;
      do_when (user_state user = ''online'') (do {
        UserModel_updateState E (user\<lparr>user_state := ''offline''\<rparr>);
        increment StaleSession
      });
      addLocalConnection u c
    }) asked"
  shows "user = result (UserModel_query E u) s \<and>
    v = (if user_id user \<noteq> u \<or> user_password user \<noteq> pwd then BadPassword
         else if result (queryUserNode E u) asked \<noteq> None then InUse
         else if result (bindUser E u) binding then Admitted else BindFailed) \<and>
    (case v of
       Admitted \<Rightarrow> tableOf s' = (tableOf s)(u \<mapsto> c) \<and>
         session_of (view (redisSrv s')) u = Some (nodeId (selfNode s), instanceId (selfNode s)) \<and>
         (result (login E c js) s = JsonThrew \<and> outbox s' = outbox s \<or>
          (\<exists>friends groups answer. jdump E (loginAck user (result (OfflineMsgModel_query E u) t) friends groups) = Some answer \<and>
             outbox s' = outbox s @ [(c, answer)]))
     | BindFailed \<Rightarrow> tableOf s' = (tableOf s)(u := None) \<and> outbox s' = outbox s @ [(c, text v)]
     | _ \<Rightarrow> tableOf s' = tableOf s \<and> sqlLog s' = sqlLog s @ [c_str (queryUserSql u)] \<and> outbox s' = outbox s @ [(c, text v)])"
proof -
  note eff = admitUser_effect [OF assms(1-4,8)]
  have verdict: "v = (if user_id user \<noteq> u \<or> user_password user \<noteq> pwd then BadPassword
         else if result (queryUserNode E u) asked \<noteq> None then InUse
         else if result (bindUser E u) binding then Admitted else BindFailed)"
    using admitUser_cases(2) [OF assms(8)] assms(4)
    by (simp add: registered_def asked_def binding_def)
  have exec: "s' = (if v = Admitted then exec (loginReply E c user u) t else exec (sendJson E c (refusal v)) t)"
    and res: "result (login E c js) s = (if v = Admitted then result (loginReply E c user u) t
        else result (sendJson E c (refusal v)) t)"
    using login_run [OF assms(5,6,8)] by (simp_all add: assms(9) run_state_pair split: if_splits)
  have refused: "outbox s' = outbox t @ [(c, text v)]" "tableOf s' = tableOf t" "sqlLog s' = sqlLog t" if "v \<noteq> Admitted"
    using exec that assms(7) by (auto simp: sendJson_def with_value_def finish_def tableOf_def)
  have same: "tableOf t = tableOf s" if "v = InUse \<or> v = BadPassword"
    using eff(5) [OF that] tableOf_cong [of t s] by (simp add: obs_service_def)
  note reply = loginReply_effect [of E c user u t]
  have adm: "tableOf s' = tableOf t" "redisSrv s' = redisSrv t" if "v = Admitted"
    using that exec reply(1,2) tableOf_cong [of s' t] by (simp_all add: obs_service_def)
  show ?thesis
  proof (intro conjI)
    show "user = result (UserModel_query E u) s" by (rule eff(1))
    show "case v of
       Admitted \<Rightarrow> tableOf s' = (tableOf s)(u \<mapsto> c) \<and>
         session_of (view (redisSrv s')) u = Some (nodeId (selfNode s), instanceId (selfNode s)) \<and>
         (result (login E c js) s = JsonThrew \<and> outbox s' = outbox s \<or>
          (\<exists>friends groups answer. jdump E (loginAck user (result (OfflineMsgModel_query E u) t) friends groups) = Some answer \<and>
             outbox s' = outbox s @ [(c, answer)]))
     | BindFailed \<Rightarrow> tableOf s' = (tableOf s)(u := None) \<and> outbox s' = outbox s @ [(c, text v)]
     | _ \<Rightarrow> tableOf s' = tableOf s \<and> sqlLog s' = sqlLog s @ [c_str (queryUserSql u)] \<and> outbox s' = outbox s @ [(c, text v)]"
    proof (cases v)
      case Admitted
      then show ?thesis using adm eff(3,6) reply(3) exec res by (cases "result (loginReply E c user u) t") auto
    qed (use refused eff(4-6) same in simp_all)
  qed (rule verdict)
qed

section \<open>The end of a session\<close>

lemma run_setOffline [simp]: "exec (setOffline E u) s = db_after E (updateStateSql (makeUser u '''' '''' ''offline'')) s"
  by (simp add: setOffline_def)

text \<open>The closing of a connection that serves somebody: exactly one user is released.\<close>

lemma close_effect:
  fixes s :: "('r, 'd, 'x) service_state_scheme" and E :: "('r, 'd, 'e) service_env_scheme"
  assumes doc: "redis_documented (redisCommand E) view" and ans: "answers (redisCommand E)"
    and ok: "buckets_ok s" and reg: "hasRegistry s" and served: "c \<in> ran (tableOf s)"
    and u: "u = result (removeLocalConnectionByConn c) s" "u \<noteq> -1" and s': "s' = exec (clientCloseException E c) s"
  shows "tableOf s u = Some c" "tableOf s' = (tableOf s)(u := None)"
    "session_of (view (redisSrv s')) = (session_of (view (redisSrv s)))(u := None)"
    "sqlLog s' = sqlLog s @ [c_str (updateStateSql (makeUser u '''' '''' ''offline''))]" "outbox s' = outbox s"
    "delivery_inv s \<longrightarrow> delivery_inv s'" "router_inv s \<longrightarrow> router_inv s'"
proof -
  define t where "t = exec (removeLocalConnectionByConn c) s"
  have t: "tableOf s u = Some c" "tableOf t = (tableOf s)(u := None)"
    using buckets.remove_conn_table [OF ok, of c] served u by (auto simp: t_def Let_def)
  have t': "sqlLog t = sqlLog s" "outbox t = outbox s" "hasRegistry t = hasRegistry s" "redisSrv t = redisSrv s"
    "localDispatchers t = localDispatchers s" "channels t = channels s" "connMap t = connMap s"
    by (simp_all add: t_def removeLocalConnectionByConn_def exec_def split_beta)
  define t2 where "t2 = exec (unbindUser E u) t"
  have run: "s' = db_after E (updateStateSql (makeUser u '''' '''' ''offline'')) t2"
    using u reg t'(3) by (simp add: s' clientCloseException_def releaseUser_def t_def t2_def)
  have k: "keeps obs_db (unbindUser E u)" "keeps obs_service (unbindUser E u)" "keeps obs_out (unbindUser E u)"
    by (intro service_keeps)+
  have t2: "obs_db t2 = obs_db t" "obs_service t2 = obs_service t" "outbox t2 = outbox t"
    using keepsD [OF k(1), of t] keepsD [OF k(2), of t] keepsD [OF k(3), of t] by (simp_all add: t2_def obs_out_def)
  have erased: "redisSrv (exec (eraseCachedUserNode u) t) = redisSrv t" by simp
  have "session_of (view (redisSrv t2)) = (session_of (view (redisSrv t)))(u := None)"
    using sessions_unbind(2) [OF doc ans, where s = "exec (eraseCachedUserNode u) t" and u = u and n = "nodeId (selfNode t)"]
    by (simp add: t2_def run_unbindUser erased del: exec_erase)
  then show "session_of (view (redisSrv s')) = (session_of (view (redisSrv s)))(u := None)"
    by (simp add: run t'(4))
  show "tableOf s u = Some c" by (rule t(1))
  have "connBuckets s' = connBuckets t" using t2(2) by (simp add: run obs_service_def)
  then show "tableOf s' = (tableOf s)(u := None)" using t(2) tableOf_cong by metis
  show "sqlLog s' = sqlLog s @ [c_str (updateStateSql (makeUser u '''' '''' ''offline''))]" "outbox s' = outbox s"
    using run t' obs_dbD [OF t2(1)] t2(3) by simp_all
  have "localDispatchers s' = localDispatchers s"
    using t2(2) t'(5) by (simp add: run obs_service_def db_after_def)
  then show "delivery_inv s \<longrightarrow> delivery_inv s'" by (simp add: delivery_inv_def)
  have "router_inv t2" if "router_inv s"
    unfolding t2_def by (rule preservesD [OF router_inv_beyond [OF beyond_bindUser(2)]])
      (use that t'(6,7) in \<open>simp add: router_inv_def\<close>)
  then show "router_inv s \<longrightarrow> router_inv s'" by (simp add: run router_inv_def db_after_def)
qed

text \<open>
  C23. A closed connection leaves nothing of its user behind. While every connection serves at
  most one user, on a node with a control plane and a Redis that answers as documented:
  closing the connection of a user, other than the user -1 that stands for nobody, takes
  exactly that user out of the table, removes the user's session from Redis, and sends to the
  database the statement that records the user as offline; nothing is sent to any connection.
\<close>

theorem close_releases:
  fixes s :: "('r, 'd, 'x) service_state_scheme" and E :: "('r, 'd, 'e) service_env_scheme"
  assumes "redis_documented (redisCommand E) view" and "answers (redisCommand E)"
    and "buckets_ok s" and "one_user (tableOf s)" and "hasRegistry s"
    and "tableOf s u = Some c" and "u \<noteq> -1" and "s' = exec (clientCloseException E c) s"
  shows "tableOf s' = (tableOf s)(u := None) \<and> session_of (view (redisSrv s')) u = None \<and>
    sqlLog s' = sqlLog s @ [c_str (updateStateSql (makeUser u '''' '''' ''offline''))] \<and> outbox s' = outbox s"
proof -
  have "u = result (removeLocalConnectionByConn c) s" using buckets.close_one(2) [OF assms(3,4,6)] by simp
  moreover have "c \<in> ran (tableOf s)" using assms(6) by (rule ranI)
  ultimately show ?thesis using close_effect [OF assms(1-3,5) _ _ assms(7,8)] by simp
qed

text \<open>A chat request for a user that the handler can read and print.\<close>

definition chat_for :: "('r, 'd, 'e) service_env_scheme \<Rightarrow> cint \<Rightarrow> json \<Rightarrow> bool" where
  "chat_for E u js \<longleftrightarrow> jint js ''to'' = Some u \<and> jint js ''id'' \<noteq> None \<and> jdump E js \<noteq> None"

lemma chats_keep:
  fixes s :: "('r, 'd, 'x) service_state_scheme"
  assumes "list_all (\<lambda>r. chat_for E u (snd r)) rs" and "delivery_inv s" and "router_inv s"
  defines "t \<equiv> fold (\<lambda>(d, js). exec (oneChat E d js)) rs s"
  shows "delivery_inv t \<and> router_inv t \<and> tableOf t = tableOf s"
  using assms(1-3) unfolding t_def
proof (induction rs arbitrary: s)
  case (Cons r rs)
  obtain d js where r: "r = (d, js)" by fastforce
  obtain f msg where js: "jint js ''to'' = Some u" "jint js ''id'' = Some f" "jdump E js = Some msg"
    using Cons.prems(1) by (auto simp: r chat_for_def)
  note eff = oneChat_effect [OF Cons.prems(2,3) js refl, of d]
  have "tableOf (exec (oneChat E d js) s) = tableOf s"
    using eff(4) by (intro tableOf_cong) (simp add: obs_table_def)
  with Cons.IH [of "exec (oneChat E d js) s"] Cons.prems(1) eff(2,3) show ?case by (simp add: r)
qed simp

text \<open>
  C35. A connection that has logged in as two users, neither of them the user -1. Nothing stops a client from sending a
  second login on its connection. When such a connection closes, on a node with a control
  plane and a Redis that answers as documented, one of the two users is released as it should
  be, out of the table and out of Redis; the other is left in the table with the dead
  connection and keeps the session in Redis it had, if any. After that, through any sequence of chat
  requests for that user, whoever sends them, the entry stays; and whenever the queue of the
  connection's loop has room, the message of the request is handed to the dead connection, the
  channels of the router do not change and no statement is sent to the database: it is neither
  routed nor stored.
\<close>

theorem second_login_leaks:
  fixes s :: "('r, 'd, 'x) service_state_scheme" and E :: "('r, 'd, 'e) service_env_scheme"
  assumes "redis_documented (redisCommand E) view" and "answers (redisCommand E)"
    and "buckets_ok s" and "hasRegistry s" and "delivery_inv s" and "router_inv s"
    and "{x. tableOf s x = Some c} = {u, v}" and "u \<noteq> v" and "-1 \<notin> {u, v}"
    and "s' = exec (clientCloseException E c) s"
  defines "after rs \<equiv> fold (\<lambda>(d, js). exec (oneChat E d js)) rs s'"
  shows "\<exists>gone left. {gone, left} = {u, v} \<and>
    tableOf s' = (tableOf s)(gone := None) \<and> session_of (view (redisSrv s')) gone = None \<and>
    tableOf s' left = Some c \<and> session_of (view (redisSrv s')) left = session_of (view (redisSrv s)) left \<and>
    (\<forall>rs d js. list_all (\<lambda>r. chat_for E left (snd r)) (rs @ [(d, js)]) \<longrightarrow>
       tableOf (after rs) left = Some c \<and>
       (has_room E c (after rs) \<longrightarrow>
          handed E c (the (jdump E js)) (after rs) (after (rs @ [(d, js)])) \<and>
          channels (after (rs @ [(d, js)])) = channels (after rs) \<and>
          obs_db (after (rs @ [(d, js)])) = obs_db (after rs)))"
proof -
  define w where "w = result (removeLocalConnectionByConn c) s"
  have two: "tableOf s u = Some c" "tableOf s v = Some c" using assms(7) by auto
  have served: "c \<in> ran (tableOf s)" using two(1) by (rule ranI)
  then have "tableOf s w = Some c" using buckets.remove_conn_table [OF assms(3), of c] by (auto simp: w_def Let_def)
  then have "w = u \<or> w = v" using assms(7) by blast
  then obtain x where x: "{w, x} = {u, v}" "x \<noteq> w" using assms(8) by blast
  have "w \<noteq> -1" using \<open>w = u \<or> w = v\<close> assms(9) by auto
  note eff = close_effect [OF assms(1-4) served w_def this assms(10)]
  have left: "tableOf s' x = Some c" using eff(2) x two by (auto simp: doubleton_eq_iff)
  have chat: "tableOf (after rs) x = Some c \<and>
       (has_room E c (after rs) \<longrightarrow>
          handed E c (the (jdump E js)) (after rs) (after (rs @ [(d, js)])) \<and>
          channels (after (rs @ [(d, js)])) = channels (after rs) \<and>
          obs_db (after (rs @ [(d, js)])) = obs_db (after rs))"
    if req: "list_all (\<lambda>r. chat_for E x (snd r)) (rs @ [(d, js)])" for rs d js
  proof -
    have "list_all (\<lambda>r. chat_for E x (snd r)) rs" using req by simp
    from chats_keep [OF this, where s = s'] eff(6,7) assms(5,6)
    have inv: "delivery_inv (after rs)" "router_inv (after rs)" "tableOf (after rs) = tableOf s'" by (simp_all add: after_def)
    obtain f msg where fields: "jint js ''to'' = Some x" "jint js ''id'' = Some f" "jdump E js = Some msg"
      using req by (auto simp: chat_for_def)
    have "after (rs @ [(d, js)]) = exec (oneChat E d js) (after rs)" by (simp add: after_def)
    note fate = oneChat_effect(1) [OF inv(1,2) fields this]
    have "reachable_here E (after rs) x = Some c" if "has_room E c (after rs)"
      using that inv(3) left by (simp add: reachable_here_def)
    then show ?thesis using fate inv(3) left fields(3) by auto
  qed
  have "session_of (view (redisSrv s')) w = None"
    "session_of (view (redisSrv s')) x = session_of (view (redisSrv s)) x" using eff(3) x(2) by simp_all
  with x(1) eff(2) left chat show ?thesis
    by - (rule exI [of _ w], rule exI [of _ x], intro conjI allI impI; blast)
qed

text \<open>
  The user that does not exist. \<open>UserModel::query\<close> returns a default user, of id -1 and
  with an empty password, when the database has no row; \<open>login\<close> compares that user with the
  request. A login as -1 with the empty password is therefore never refused for a bad
  password, and when it is admitted, closing its connection does not release the session,
  because -1 is also the answer for a connection that serves nobody.
\<close>

theorem phantom_login:
  fixes s :: "('r, 'd, 'x) service_state_scheme" and E :: "('r, 'd, 'e) service_env_scheme"
  assumes doc: "redis_documented (redisCommand E) view" and self: "storable (nodeId (selfNode s)) (instanceId (selfNode s))"
    and ok: "buckets_ok s" and reg: "hasRegistry s"
    and fresh: "c \<notin> ran (tableOf s)" and no_row: "mysqlQuery E (c_str (queryUserSql (-1))) (database s) = (Rows [], d)"
    and run: "run_state (admitUser E c (-1) '''') s = ((user, v), t)"
    and s': "s' = exec (clientCloseException E c) t"
  shows "v \<noteq> BadPassword \<and>
    (v \<noteq> Admitted \<or> session_of (view (redisSrv s')) (-1) = Some (nodeId (selfNode s), instanceId (selfNode s)))"
proof -
  note eff = admitUser_effect [OF doc self ok reg run]
  have "user = defaultUser" using eff(1) no_row by (simp add: UserModel_query_def mysql_query_def)
  then have bad: "v \<noteq> BadPassword" using eff(2) by (simp add: defaultUser_def makeUser_def)
  moreover have "session_of (view (redisSrv s')) (-1) = Some (nodeId (selfNode s), instanceId (selfNode s))" if "v = Admitted"
  proof -
    from eff(3) [OF that] have tab: "tableOf t = (tableOf s)(-1 \<mapsto> c)"
      and ses: "session_of (view (redisSrv t)) (-1) = Some (nodeId (selfNode s), instanceId (selfNode s))" by blast+
    have "result (removeLocalConnectionByConn c) t = -1"
      using buckets.remove_conn_table [OF eff(8), of c] fresh tab by (auto simp: Let_def ran_def split: if_splits)
    then have "s' = exec (removeLocalConnectionByConn c) t" by (simp add: s' clientCloseException_def)
    then have "redisSrv s' = redisSrv t" by (simp add: removeLocalConnectionByConn_def exec_def split_beta)
    then show ?thesis using ses by simp
  qed
  ultimately show ?thesis by blast
qed

text \<open>
  C34. A full queue takes a connected user off the map. When a frame for a user arrives from
  another node and the queue of the user's event loop is full, the message is stored offline,
  and the user is treated as not being here: although the user stays connected and in the
  table, either the session in Redis is gone afterwards, so that no other node finds the user
  any more, or the control plane, as it was before the frame, names another node for the user.
\<close>

theorem full_queue_unbinds:
  fixes s :: "('r, 'd, 'x) service_state_scheme" and E :: "('r, 'd, 'e) service_env_scheme"
  assumes doc: "redis_documented (redisCommand E) view" and ans: "answers (redisCommand E)"
    and inv: "delivery_inv s" and reg: "hasRegistry s" and here: "tableOf s u = Some c" and full: "\<not> has_room E c s"
    and s': "s' = exec (handleClusterOneChatFrame E u msg) s"
  shows "tableOf s' u = Some c \<and> sqlLog s' = sqlLog s @ [c_str (insertOfflineSql u msg)] \<and>
    (session_of (view (redisSrv s')) u = None \<or>
     (\<exists>t nid. redisSrv t = redisSrv s \<and> result (queryUserNode E u) t = Some nid \<and> nid \<noteq> nodeId (selfNode s) \<and>
        quiet t = quiet (s\<lparr>localDispatchers := localDispatchers t\<rparr>)))"
proof -
  let ?s = "exec (readSteadyNs E) s"
  define t where "t = exec (do {
      increment OneChatRemoteHandle;
      now \<leftarrow> readSteadyNs E;
      add_metric OneChatRemoteHandleNs (now - result (readSteadyNs E) s) }) (exec (deliverToLocalUser E u msg) ?s)"
  note eff = frame_effect [OF inv s']
  have "tableOf s' = tableOf s" using eff(3) by (intro tableOf_cong) (simp add: obs_table_def)
  moreover have none: "reachable_here E s u = None" using here full by (simp add: reachable_here_def)
  moreover have "session_of (view (redisSrv s')) u = None \<or>
     (\<exists>t nid. redisSrv t = redisSrv s \<and> result (queryUserNode E u) t = Some nid \<and> nid \<noteq> nodeId (selfNode s) \<and>
        quiet t = quiet (s\<lparr>localDispatchers := localDispatchers t\<rparr>))"
  proof -
    define s1 where "s1 = exec (do {
     lookupStartNs \<leftarrow> readSteadyNs E;
     found \<leftarrow> getLocalConnection u;
     now \<leftarrow> readSteadyNs E;
     add_metric LocalLookupNs (now - lookupStartNs);
     increment LocalLookup }) ?s"
    have q1: "quiet s1 = quiet s" by (simp add: s1_def getLocalConnection_def)
    have "\<not> has_room E c s1" using full quiet_for(2) [OF q1, of E c] by simp
    then have f: "dispatcherFull (dispatcherFor (connLoop E c) s1)" by (simp add: has_room_def)
    have "tableOf ?s u = Some c" using here by (simp add: tableOf_def)
    then have deliver: "exec (deliverToLocalUser E u msg) ?s = exec (enqueueLocalDelivery E c msg) s1"
      "result (deliverToLocalUser E u msg) ?s = result (enqueueLocalDelivery E c msg) s1"
      by (simp_all add: deliverToLocalUser_def s1_def getLocalConnection_def tableOf_def)
    have "quiet t = quiet (exec (deliverToLocalUser E u msg) ?s)" by (simp add: t_def)
    then have "quiet t = quiet (exec (enqueueLocalDelivery E c msg) s1)" by (simp only: deliver)
    then have qt: "quiet t = quiet (s\<lparr>localDispatchers := (localDispatchers s)(connLoop E c \<mapsto> dispatcherFor (connLoop E c) s)\<rparr>)"
      using enqueue_full(2) [OF f, of msg] q1 quiet_for(1) [OF q1] quiet_obs(2) [OF q1] by simp
    note obs = quiet_obs [OF qt]
    have run: "s' = exec (fallBack E u msg) (exec (releaseStray E u) t)"
      using enqueue_full(1) [OF f, of msg] deliver(2) by (simp add: s' handleClusterOneChatFrame_def t_def)
    have regt: "hasRegistry t" using reg obs(15) by simp
    define r where "r = exec (queryUserNode E u) t"
    have self: "selfNode r = selfNode s"
      using keepsD [OF beyond_queryUserNode, of E u t] obs(19) by (simp add: r_def beyond_registry_def)
    show ?thesis
    proof (cases "\<exists>nid. result (queryUserNode E u) t = Some nid \<and> nid \<noteq> nodeId (selfNode s)")
      case True
      have "quiet t = quiet (s\<lparr>localDispatchers := localDispatchers t\<rparr>)" using qt obs(2) by simp
      then show ?thesis using True obs(10) by auto
    next
      case False
      then have "exec (releaseStray E u) t = exec (unbindUser E u) r"
        using regt self by (auto simp: releaseStray_def r_def [symmetric] isSelfNode_def split: option.splits)
      then have "redisSrv s' = redisSrv (exec (unbindUser E u) r)" by (simp add: run)
      then show ?thesis by (simp add: run_unbindUser sessions_unbind(2) [OF doc ans])
    qed
  qed

  ultimately show ?thesis using eff(1) here by (simp add: settled_def)
qed

section \<open>Witnesses\<close>

text \<open>A database without users.\<close>

definition sampleNoRows :: "(sample_redis, sample_db) service_env" where
  "sampleNoRows = sampleServiceEnv\<lparr>mysqlQuery := (\<lambda>sql d. (Rows [], d))\<rparr>"

lemma sampleNoRows_doc: "redis_documented (redisCommand sampleNoRows) sampleView" "answers (redisCommand sampleNoRows)"
  by (simp_all add: sampleNoRows_def sampleServiceEnv_def sample_documented sample_answers)

lemma sampleService_facts:
  "storable (nodeId (selfNode sampleService)) (instanceId (selfNode sampleService))" "buckets_ok sampleService"
  "hasRegistry sampleService" "tableOf sampleService = Map.empty" "outbox sampleService = []" "sqlLog sampleService = []"
proof -
  show "storable (nodeId (selfNode sampleService)) (instanceId (selfNode sampleService))"
    by (simp add: sampleService_def sampleNode_def storable_def NUL_def)
  show "buckets_ok sampleService" by (simp add: sampleService_def buckets_ok_def bucket_ok_def)
  show "tableOf sampleService = Map.empty" by (rule ext) (simp add: sampleService_def tableOf_def)
qed (simp_all add: sampleService_def)

definition sampleLogin :: json where
  "sampleLogin = JObj [(''id'', JInt 9), (''msgId'', JInt 1), (''password'', JStr ''x'')]"

theorem login_outcome_witness: "outbox (exec (login sampleNoRows 2 sampleLogin) sampleService) = [(2, ''{}'')]"
proof -
  obtain user v t where run: "run_state (admitUser sampleNoRows 2 9 ''x'') sampleService = ((user, v), t)"
    by (metis surj_pair)
  have js: "jint sampleLogin ''id'' = Some 9" "jstr sampleLogin ''password'' = Some ''x''"
    "\<And>v. jdump sampleNoRows (refusal v) = Some ''{}''"
    by (simp_all add: sampleLogin_def jint_def jstr_def jmember_def sampleNoRows_def sampleServiceEnv_def)
  have "result (UserModel_query sampleNoRows 9) sampleService = defaultUser"
    by (simp add: UserModel_query_def mysql_query_def sampleNoRows_def)
  with login_outcome [OF sampleNoRows_doc(1) sampleService_facts(1-3) js run refl] sampleService_facts(5)
  show ?thesis by (auto simp: defaultUser_def makeUser_def)
qed

lemma sampleOnline:
  "tableOf (exec (addLocalConnection 5 2) sampleService) = [5 \<mapsto> 2]"
  "buckets_ok (exec (addLocalConnection 5 2) sampleService)"
  by (simp_all add: buckets.add_table buckets.ok_add sampleService_facts)

theorem close_releases_witness:
  "session_of (sampleView (redisSrv (exec (clientCloseException sampleNoRows 2) (exec (addLocalConnection 5 2) sampleService)))) 5 = None"
proof -
  have "one_user [5 \<mapsto> 2 :: conn]" by (simp add: one_user_def)
  moreover have "hasRegistry (exec (addLocalConnection 5 2) sampleService)"
    using sampleService_facts(3) by (simp add: addLocalConnection_def Let_def)
  ultimately show ?thesis
    using close_releases [OF sampleNoRows_doc sampleOnline(2) _ _ _ _ refl, of 5 2] by (simp add: sampleOnline(1))
qed

theorem second_login_leaks_witness:
  "\<exists>w. tableOf (exec (clientCloseException sampleNoRows 2)
     (exec (addLocalConnection 6 2) (exec (addLocalConnection 5 2) sampleService))) w = Some 2"
proof -
  let ?s = "exec (addLocalConnection 6 2) (exec (addLocalConnection 5 2) sampleService)"
  have ok: "buckets_ok ?s" by (rule buckets.ok_add [OF sampleOnline(2)])
  have "tableOf ?s = [5 \<mapsto> 2, 6 \<mapsto> 2]" by (simp only: buckets.add_table [OF sampleOnline(2)] sampleOnline(1))
  then have two: "{x. tableOf ?s x = Some 2} = {5, 6}" by auto
  have "hasRegistry ?s" "delivery_inv ?s" "router_inv ?s"
    using sampleService_facts(3) sampleService_inv
    by (simp_all add: addLocalConnection_def Let_def delivery_inv_def router_inv_def)
  from second_login_leaks [OF sampleNoRows_doc ok this two _ _ refl] show ?thesis by auto
qed

theorem phantom_login_witness:
  "snd (result (admitUser sampleNoRows 2 (-1) '''') sampleService) \<noteq> BadPassword"
proof -
  obtain user v t where run: "run_state (admitUser sampleNoRows 2 (-1) '''') sampleService = ((user, v), t)"
    by (metis surj_pair)
  have "mysqlQuery sampleNoRows (c_str (queryUserSql (-1))) (database sampleService) = (Rows [], database sampleService)"
    by (simp add: sampleNoRows_def)
  from phantom_login [OF sampleNoRows_doc(1) sampleService_facts(1-3) _ this run refl] run show ?thesis
    by (simp add: sampleService_facts(4) result_def)
qed

text \<open>User 5 is on connection 2, and the queues of the event loops have no room.\<close>

definition sampleFull :: "(sample_redis, sample_db) service_state" where
  "sampleFull = exec (addLocalConnection 5 2) (sampleService\<lparr>localDeliveryQueueLimit := 0\<rparr>)"

theorem full_queue_unbinds_witness:
  "sqlLog (exec (handleClusterOneChatFrame sampleNoRows 5 ''hi'') sampleFull) = [c_str (insertOfflineSql 5 ''hi'')]"
proof -
  have ok: "buckets_ok (sampleService\<lparr>localDeliveryQueueLimit := 0\<rparr>)"
    using sampleService_facts(2) by (simp add: buckets_ok_def)
  have "tableOf sampleFull 5 = Some 2" by (simp add: sampleFull_def buckets.add_table [OF ok])
  moreover have "delivery_inv sampleFull" "hasRegistry sampleFull" "\<not> has_room sampleNoRows 2 sampleFull"
    "sqlLog sampleFull = []"
    by (simp_all add: sampleFull_def addLocalConnection_def Let_def sampleService_def delivery_inv_def has_room_def
        dispatcherFor_def dispatcherFull_def)
  ultimately show ?thesis using full_queue_unbinds [OF sampleNoRows_doc _ _ _ _ refl, of sampleFull 5 2 "''hi''"] by simp
qed

end
