(* ===== verification/Servers.thy ===== *)
theory Servers
  imports GroupRouting SessionLifecycle ChatWire
begin

text \<open>
  The two servers of a node around the service: \<open>ChatServer\<close> for the clients
  (\<open>src/server/chatserver.cpp\<close>), \<open>ClusterServer\<close> for the other nodes
  (\<open>src/server/clusterserver.cpp\<close>), and \<open>main\<close> (\<open>src/server/main.cpp\<close>). Each connection
  keeps the bytes of an incomplete message in its context; the receive loops of \<open>ChatWire\<close>
  and \<open>ClusterWire\<close> cut the messages out, and the handlers of \<open>ChatService\<close> run on them.
\<close>

section \<open>State\<close>

text \<open>The value of a \<open>boost::any\<close>, of which the servers only ever ask for a string.\<close>

datatype any = NoValue | AString string | OtherValue

fun any_cast :: "any \<Rightarrow> string option" where
  "any_cast (AString p) = Some p"
| "any_cast _ = None"

text \<open>
  A node: the service, the contexts of the connections of both ports, and the connections
  \<open>shutdown\<close> was called on.
\<close>

record ('r, 'd) server =
  service :: "('r, 'd) service_state"
  contexts :: "conn \<Rightarrow> any"
  shutdowns :: "conn list"

definition on_service :: "(('r, 'd) service_state, 'a) state \<Rightarrow> (('r, 'd) server, 'a) state" where
  "on_service m = State (\<lambda>v. let (x, s) = run_state m (service v) in (x, v\<lparr>service := s\<rparr>))"

lemma run_on_service [simp]:
  "exec (on_service m) v = v\<lparr>service := exec m (service v)\<rparr>" "result (on_service m) v = result m (service v)"
  by (simp_all add: on_service_def exec_def result_def split_beta)

definition setContext :: "conn \<Rightarrow> any \<Rightarrow> (('r, 'd) server, unit) state" where
  "setContext c ctx = modify (\<lambda>v. v\<lparr>contexts := (contexts v)(c := ctx)\<rparr>)"

definition shutdownConn :: "conn \<Rightarrow> (('r, 'd) server, unit) state" where
  "shutdownConn c = modify (\<lambda>v. v\<lparr>shutdowns := shutdowns v @ [c]\<rparr>)"

lemma exec_connections [simp]:
  "exec (setContext c ctx) v = v\<lparr>contexts := (contexts v)(c := ctx)\<rparr>"
  "exec (shutdownConn c) v = v\<lparr>shutdowns := shutdowns v @ [c]\<rparr>"
  by (simp_all add: setContext_def shutdownConn_def)

section \<open>Receiving\<close>

text \<open>
  The first half of both \<open>onMessage\<close>: find the string in the connection's context, put an
  empty one there when there is none, and append what has arrived.
\<close>

definition appendReceived :: "conn \<Rightarrow> string \<Rightarrow> (('r, 'd) server, string) state" where
  "appendReceived c received = do {
     ctx \<leftarrow> gets (\<lambda>v. contexts v c);
     do_when (ctx = NoValue) (setContext c (AString []));
     found \<leftarrow> gets (\<lambda>v. any_cast (contexts v c));
     do_when (found = None) (setContext c (AString []));
     found \<leftarrow> gets (\<lambda>v. any_cast (contexts v c));
     let pending = (case found of None \<Rightarrow> [] | Some p \<Rightarrow> p) @ received;
     setContext c (AString pending);
     State_Monad.return pending
   }"

definition pendingOf :: "any \<Rightarrow> string" where
  "pendingOf ctx = (case ctx of AString p \<Rightarrow> p | _ \<Rightarrow> [])"

lemma pendingOf_simps [simp]: "pendingOf NoValue = []" "pendingOf (AString p) = p" "pendingOf OtherValue = []"
  by (simp_all add: pendingOf_def)

lemma run_appendReceived [simp]:
  "result (appendReceived c received) v = pendingOf (contexts v c) @ received"
  "exec (appendReceived c received) v = v\<lparr>contexts := (contexts v)(c := AString (pendingOf (contexts v c) @ received))\<rparr>"
  by (cases "contexts v c"; simp add: appendReceived_def Let_def)+

section \<open>The client port\<close>

text \<open>
  One message: parse, look up the handler, run it. A \<open>json::exception\<close> from any of these is
  caught and logged.
\<close>

definition handleText ::
  "('r, 'd, 'e) service_env_scheme \<Rightarrow> conn \<Rightarrow> string \<Rightarrow> (('r, 'd) service_state, unit) state" where
  "handleText E c text =
     (case jparse E text of
        None \<Rightarrow> State_Monad.return ()
      | Some js \<Rightarrow>
          (case jint js ''msgId'' of
             None \<Rightarrow> State_Monad.return ()
           | Some msgId \<Rightarrow> do { getHandler E msgId c js; State_Monad.return () }))"

text \<open>
  The handlers do not look at the context, so the bytes they are taken from may be erased
  after the loop, as \<open>ChatServer::onMessage\<close> does.
\<close>

definition chatServerOnMessage ::
  "('r, 'd, 'e) service_env_scheme \<Rightarrow> conn \<Rightarrow> string \<Rightarrow> (('r, 'd) server, unit) state" where
  "chatServerOnMessage E c received = do {
     pending \<leftarrow> appendReceived c received;
     let (texts, rest) = chatOnMessage pending;
     for_each texts (\<lambda>text. on_service (handleText E c text));
     setContext c (AString rest)
   }"

definition chatServerOnConnection ::
  "('r, 'd, 'e) service_env_scheme \<Rightarrow> conn \<Rightarrow> bool \<Rightarrow> (('r, 'd) server, unit) state" where
  "chatServerOnConnection E c connected =
     (if connected then setContext c (AString [])
      else do {
        on_service (clientCloseException E c);
        shutdownConn c
      })"

section \<open>The cluster port\<close>

definition handleEvent ::
  "('r, 'd, 'e) service_env_scheme \<Rightarrow> cluster_event \<Rightarrow> (('r, 'd) service_state, unit) state" where
  "handleEvent E e =
     (case e of
        OneChatFrame toUser payload \<Rightarrow> handleClusterOneChatFrame E toUser payload
      | JsonText text \<Rightarrow>
          (case jparse E text of
             None \<Rightarrow> State_Monad.return ()
           | Some js \<Rightarrow> do { handleClusterMessage E js; State_Monad.return () }))"

definition clusterServerOnMessage ::
  "('r, 'd, 'e) service_env_scheme \<Rightarrow> conn \<Rightarrow> string \<Rightarrow> (('r, 'd) server, unit) state" where
  "clusterServerOnMessage E c received = do {
     pending \<leftarrow> appendReceived c received;
     let (es, rest) = clusterOnMessageLoop pending;
     for_each es (\<lambda>e. on_service (handleEvent E e));
     setContext c (AString rest)
   }"

definition clusterServerOnConnection :: "conn \<Rightarrow> bool \<Rightarrow> (('r, 'd) server, unit) state" where
  "clusterServerOnConnection c connected = (if connected then setContext c (AString []) else shutdownConn c)"

section \<open>\<open>main\<close>\<close>

text \<open>
  \<open>env\<close> is the process environment after \<open>loadEnvFile\<close>. Whether the servers are started:
  \<open>False\<close> is the exit for want of arguments. The service object is constructed by the first
  call of \<open>instance\<close>, just before \<open>initNode\<close>.
\<close>

definition serverMain ::
  "('r, 'd, 'e) service_env_scheme \<Rightarrow> environment \<Rightarrow> loop_id \<Rightarrow> loop_id list \<Rightarrow> string list \<Rightarrow>
   (('r, 'd) service_state, bool) state" where
  "serverMain E env base pool argv =
     (case addressesOf env argv of
        None \<Rightarrow> State_Monad.return False
      | Some a \<Rightarrow> do {
          service_init env;
          initNode E env base pool (sa_ip a) (sa_port a) (sa_interIp a) (sa_interPort a);
          State_Monad.return True
        })"

text \<open>\<open>resetHandler\<close>: the numbers printed before the process exits.\<close>

definition resetHandler ::
  "('r, 'd, 'e) service_env_scheme \<Rightarrow> (('r, 'd) server, (string \<times> int) list) state" where
  "resetHandler E = on_service (reset E)"

section \<open>Requests\<close>

lemma exec_on_service_all:
  "exec (for_each xs (\<lambda>x. on_service (f x))) v = v\<lparr>service := exec (for_each xs f) (service v)\<rparr>"
  by (induction xs arbitrary: v) simp_all

lemma exec_chatServerOnMessage:
  "exec (chatServerOnMessage E c received) v =
     (let (texts, rest) = chatOnMessage (pendingOf (contexts v c) @ received)
      in v\<lparr>service := exec (for_each texts (handleText E c)) (service v), contexts := (contexts v)(c := AString rest)\<rparr>)"
  by (simp add: chatServerOnMessage_def split_beta Let_def exec_on_service_all del: exec_for_each)

lemma exec_clusterServerOnMessage:
  "exec (clusterServerOnMessage E c received) v =
     (let (es, rest) = clusterOnMessageLoop (pendingOf (contexts v c) @ received)
      in v\<lparr>service := exec (for_each es (handleEvent E)) (service v), contexts := (contexts v)(c := AString rest)\<rparr>)"
  by (simp add: clusterServerOnMessage_def split_beta Let_def exec_on_service_all del: exec_for_each)

lemma fold_for_each_append:
  "exec (for_each (xs @ ys) f) s = exec (for_each ys f) (exec (for_each xs f) s)"
  by simp

text \<open>What was received on one connection.\<close>

definition on_conn :: "conn \<Rightarrow> (conn \<times> string) list \<Rightarrow> string list" where
  "on_conn c sched = map snd (filter (\<lambda>p. fst p = c) sched)"

lemma on_conn_simps [simp]:
  "on_conn c [] = []" "on_conn c (p # ps) = (if fst p = c then snd p # on_conn c ps else on_conn c ps)"
  "on_conn c (ps @ qs) = on_conn c ps @ on_conn c qs" "on_conn c (map (Pair d) texts) = (if d = c then texts else [])"
  by (simp_all add: on_conn_def filter_map o_def)

text \<open>
  C8. The client port as a whole. However the bytes of any number of clients arrive, cut and
  interleaved, the node does exactly the requests they contain: the service ends as if the
  requests had been handled one after the other, each connection's requests are its
  NUL-terminated texts, all of them and in the order they were sent, and each connection's
  context holds what is still unterminated. A request that cannot be parsed, or has no
  handler, or whose handler throws, does not keep the next ones from being handled.
\<close>

theorem client_requests:
  fixes v :: "('r, 'd) server" and E :: "('r, 'd, 'e) service_env_scheme"
  assumes "\<And>c. NUL \<notin> set (pendingOf (contexts v c))"
    and "v' = exec (for_each sched (\<lambda>(c, bytes). chatServerOnMessage E c bytes)) v"
  shows "\<exists>trace. service v' = exec (for_each trace (\<lambda>(c, text). handleText E c text)) (service v) \<and>
    (\<forall>c. (on_conn c trace, pendingOf (contexts v' c)) = nul_split (pendingOf (contexts v c)) (concat (on_conn c sched)))"
  using assms
proof (induction sched arbitrary: v)
  case Nil
  then show ?case by (intro exI [of _ "[]"]) (simp add: nul_split_no_nul)
next
  case (Cons p sched)
  obtain c bytes where p: "p = (c, bytes)" by fastforce
  obtain texts rest where cut: "nul_split (pendingOf (contexts v c)) bytes = (texts, rest)" by fastforce
  define v1 where "v1 = exec (chatServerOnMessage E c bytes) v"
  have "chatOnMessage (pendingOf (contexts v c) @ bytes) = (texts, rest)"
    using cut by (simp add: chatOnMessage_split nul_split_pending [OF Cons.prems(1)])
  then have v1: "service v1 = exec (for_each texts (handleText E c)) (service v)"
    "contexts v1 = (contexts v)(c := AString rest)" by (simp_all add: v1_def exec_chatServerOnMessage)
  have "NUL \<notin> set rest" using nul_split_rest [OF Cons.prems(1), of c bytes] cut by simp
  then have clean: "\<And>d. NUL \<notin> set (pendingOf (contexts v1 d))" using Cons.prems(1) by (simp add: v1(2))
  have "v' = exec (for_each sched (\<lambda>(c, bytes). chatServerOnMessage E c bytes)) v1"
    using Cons.prems(2) by (simp add: p v1_def)
  from Cons.IH [OF clean this] obtain trace where
    run: "service v' = exec (for_each trace (\<lambda>(c, text). handleText E c text)) (service v1)" and
    all: "\<And>d. (on_conn d trace, pendingOf (contexts v' d)) = nul_split (pendingOf (contexts v1 d)) (concat (on_conn d sched))"
    by auto
  show ?case
  proof (intro exI [of _ "map (Pair c) texts @ trace"] conjI allI)
    show "service v' = exec (for_each (map (Pair c) texts @ trace) (\<lambda>(c, text). handleText E c text)) (service v)"
      by (simp add: run v1(1) fold_map o_def)
    fix d
    show "(on_conn d (map (Pair c) texts @ trace), pendingOf (contexts v' d)) =
        nul_split (pendingOf (contexts v d)) (concat (on_conn d (p # sched)))"
      using all [of d] cut by (auto simp: p v1(2) nul_split_append split: prod.splits)
  qed
qed

section \<open>Frames from other nodes\<close>

lemma exec_cluster_reads:
  assumes "contexts v c = AString p"
  shows "exec (for_each reads (clusterServerOnMessage E c)) v =
    (let (es, rest) = feed clusterOnMessageLoop p reads
     in v\<lparr>service := exec (for_each es (handleEvent E)) (service v), contexts := (contexts v)(c := AString rest)\<rparr>)"
  using assms
proof (induction reads arbitrary: v p)
  case Nil
  then have "(contexts v)(c := AString p) = contexts v" by (simp add: fun_upd_idem)
  then have "v\<lparr>contexts := (contexts v)(c := AString p)\<rparr> = v" by (simp only:) simp
  then show ?case by (simp del: fun_upd_apply)
next
  case (Cons r reads)
  obtain es rest where cut: "clusterOnMessageLoop (p @ r) = (es, rest)" by fastforce
  define w where "w = v\<lparr>service := exec (for_each es (handleEvent E)) (service v), contexts := (contexts v)(c := AString rest)\<rparr>"
  have "exec (clusterServerOnMessage E c r) v = w"
    using Cons.prems cut by (simp add: exec_clusterServerOnMessage w_def)
  moreover have "contexts w c = AString rest" by (simp add: w_def)
  ultimately show ?case using Cons.IH [of w rest] cut
    by (simp add: w_def split_beta Let_def del: fun_upd_apply)
qed

text \<open>A sequence of messages, each settled before the next.\<close>

lemma settled_chain:
  fixes s :: "('r, 'd, 'x) service_state_scheme" and E :: "('r, 'd, 'e) service_env_scheme"
    and ms :: "(cint \<times> string) list"
  assumes inv: "delivery_inv s"
  defines "after i \<equiv> exec (for_each (take i ms) (\<lambda>(u, m). handleClusterOneChatFrame E u m)) s"
  shows "i \<le> length ms \<Longrightarrow> delivery_inv (after i)"
    and "i < length ms \<Longrightarrow> settled E (fst (ms ! i)) (snd (ms ! i)) (after i) (after (Suc i))"
proof -
  have step: "after (Suc i) = exec (handleClusterOneChatFrame E (fst (ms ! i)) (snd (ms ! i))) (after i)" if "i < length ms" for i
    using that by (simp add: after_def take_Suc_conv_app_nth split_beta)
  have inv': "i \<le> length ms \<Longrightarrow> delivery_inv (after i)" for i
  proof (induction i)
    case 0
    then show ?case using inv by (simp add: after_def)
  next
    case (Suc i)
    then have "i < length ms" "delivery_inv (after i)" by simp_all
    from frame_effect(2) [OF this(2) step [OF this(1)]] show ?case .
  qed
  show "i \<le> length ms \<Longrightarrow> delivery_inv (after i)" by (rule inv')
  show "i < length ms \<Longrightarrow> settled E (fst (ms ! i)) (snd (ms ! i)) (after i) (after (Suc i))"
    using frame_effect(1) [OF inv' step] by simp
qed

text \<open>
  C6. From node to node, end to end. Any messages for receivers of one shard that a node's
  router accepts while the channel to another node is still connecting are all accepted.
  When the connection comes up, and its bytes reach the other node in whatever pieces TCP
  makes of them, that node settles each message, in the order they were sent: it hands it to
  its receiver's connection when the receiver is connected there and the queue has room, and
  stores it for the receiver otherwise. No bytes are left over.
\<close>

theorem node_to_node:
  fixes s :: "('q, 'y) router_state_scheme" and A :: "('q, 'f) router_env_scheme"
    and v :: "('r, 'd) server" and B :: "('r, 'd, 'e) service_env_scheme"
  assumes "valid meta" and "waiting s meta k i" and "pending (channels s ! i) = []"
    and "\<forall>m \<in> set ms. pickShard (rc_shardCount (routerConfig s)) (fst m) = k"
    and "length ms \<le> pendingLimit (channels s ! i)"
    and "c \<notin> fst ` set (outbox s)"
    and "s' = router_run A (ConnectionEvent i c True) (exec (sendAll A meta ms) s)"
    and small: "\<forall>m \<in> set ms. kOneChatFrameBodyPrefixBytes + length (snd m) < 2 ^ 32"
    and reads: "concat reads = concat (map snd (filter (\<lambda>p. fst p = c) (outbox s')))"
    and ctx: "contexts v d = AString []" and inv: "delivery_inv (service v)"
    and v': "v' = exec (for_each reads (clusterServerOnMessage B d)) v"
  defines "after n \<equiv> exec (for_each (take n ms) (\<lambda>(u, m). handleClusterOneChatFrame B u m)) (service v)"
  shows "result (sendAll A meta ms) s \<and> service v' = after (length ms) \<and> contexts v' = contexts v \<and>
    list_all (\<lambda>n. settled B (fst (ms ! n)) (snd (ms ! n)) (after n) (after (Suc n))) [0..<length ms]"
proof -
  note link = link_stream [OF assms(1-7)]
  have "list_all sendable_event (map (\<lambda>(u, p). OneChatFrame u p) ms)"
    using small by (auto simp: list_all_iff)
  moreover have "concat reads = stream_of encodeEvent (map (\<lambda>(u, p). OneChatFrame u p) ms)"
    using reads link(2) by simp
  ultimately have "feed clusterOnMessageLoop [] reads = (map (\<lambda>(u, p). OneChatFrame u p) ms, [])"
    by (rule cluster_wire.feed_stream)
  then have "service v' = after (length ms)" "contexts v' = contexts v"
    using exec_cluster_reads [OF ctx, of reads B] ctx
    by (simp_all add: v' after_def fold_map o_def handleEvent_def split_beta fun_upd_idem)
  moreover have "list_all (\<lambda>n. settled B (fst (ms ! n)) (snd (ms ! n)) (after n) (after (Suc n))) [0..<length ms]"
    using settled_chain(2) [OF inv, of _ ms B] by (simp add: list_all_iff after_def)
  ultimately show ?thesis using link(1) by blast
qed

section \<open>Witnesses\<close>

text \<open>A node on which client connection 2 and cluster connection 9 have just been accepted.\<close>

definition sampleServer :: "(sample_redis, sample_db) server" where
  "sampleServer = \<lparr>service = sampleService, contexts = (\<lambda>_. NoValue)(2 := AString [], 9 := AString []), shutdowns = []\<rparr>"

theorem client_requests_witness:
  "\<exists>v'. v' = exec (for_each [(2, ''{''), (4, ''[]''), (2, ''}'' @ [NUL])] (\<lambda>(c, bytes). chatServerOnMessage sampleServiceEnv c bytes))
      sampleServer \<and> pendingOf (contexts v' 2) = [] \<and> pendingOf (contexts v' 4) = ''[]''"
proof -
  let ?sched = "[(2, ''{''), (4, ''[]''), (2, ''}'' @ [NUL])]"
  define v' where "v' = exec (for_each ?sched (\<lambda>(c, bytes). chatServerOnMessage sampleServiceEnv c bytes)) sampleServer"
  have "NUL \<notin> set (pendingOf (contexts sampleServer c))" for c by (simp add: sampleServer_def)
  from client_requests [OF this v'_def] obtain trace where
    "\<And>c. (on_conn c trace, pendingOf (contexts v' c)) =
      nul_split (pendingOf (contexts sampleServer c)) (concat (on_conn c ?sched))" by auto
  from this [of 2] this [of 4] have "pendingOf (contexts v' 2) = []" "pendingOf (contexts v' 4) = ''[]''"
    by (simp_all add: sampleServer_def NUL_def)
  then show ?thesis by (intro exI [of _ v']) (simp add: v'_def del: exec_for_each)
qed

theorem node_to_node_witness:
  "\<exists>reads. sqlLog (service (exec (for_each reads (clusterServerOnMessage sampleServiceEnv 9)) sampleServer)) =
     [c_str (insertOfflineSql 5 ''a''), c_str (insertOfflineSql (-5) ''bc'')]"
proof -
  let ?ms = "[(5, ''a''), (-5, ''bc'')] :: (cint \<times> string) list"
  define s' where "s' = router_run sampleRouterEnv (ConnectionEvent 0 3 True) (exec (sendAll sampleRouterEnv sampleNode ?ms) sampleLink)"
  define reads where "reads = [concat (map snd (filter (\<lambda>p. fst p = 3) (outbox s')))]"
  define after where "after n = exec (for_each (take n ?ms) (\<lambda>(u, m). handleClusterOneChatFrame sampleServiceEnv u m)) sampleService"
    for n :: nat
  define v' where "v' = exec (for_each reads (clusterServerOnMessage sampleServiceEnv 9)) sampleServer"
  have ctx: "contexts sampleServer 9 = AString []" and sv: "service sampleServer = sampleService"
    by (simp_all add: sampleServer_def)
  have small: "\<forall>m \<in> set ?ms. kOneChatFrameBodyPrefixBytes + length (snd m) < 2 ^ 32"
    by (simp add: kOneChatFrameBodyPrefixBytes_def)
  have inv: "delivery_inv (service sampleServer)" by (simp add: sv sampleService_inv(1))
  have reads: "concat reads = concat (map snd (filter (\<lambda>p. fst p = 3) (outbox s')))" by (simp add: reads_def)
  have "service v' = after (length ?ms)" "list_all (\<lambda>n. settled sampleServiceEnv (fst (?ms ! n)) (snd (?ms ! n)) (after n) (after (Suc n)))
      [0..<length ?ms]"
    using node_to_node [OF sampleLink_facts s'_def small reads ctx inv v'_def] by (simp_all only: after_def sv)
  then have v': "service v' = after 2" and settled: "settled sampleServiceEnv 5 ''a'' (after 0) (after 1)"
    "settled sampleServiceEnv (-5) ''bc'' (after 1) (after 2)"
    by (simp_all add: numeral_2_eq_2)

  have "obs_table (after 1) = obs_table sampleService"
    using frame_effect(3) [OF sampleService_inv(1) refl, of sampleServiceEnv 5 "''a''"] by (simp add: after_def)
  then have "tableOf (after 1) u = None" "tableOf (after 0) u = None" for u
    using tableOf_cong [of "after 1" sampleService]
    by (simp_all add: obs_table_def after_def tableOf_def sampleService_def)
  then have "sqlLog (after 2) = [c_str (insertOfflineSql 5 ''a''), c_str (insertOfflineSql (-5) ''bc'')]"
    using settled by (simp add: settled_def reachable_here_def) (simp add: after_def sampleService_def)
  then show ?thesis using v' by (intro exI [of _ reads]) (simp add: v'_def)
qed

end
