(* ===== verification/StoreAndForward.thy ===== *)
theory StoreAndForward
  imports Servers
begin

text \<open>
  Offline messages across nodes. The nodes share one database: what one node stores for a
  user who is not connected there (\<open>handleClusterOneChatFrame\<close>, \<open>oneChat\<close>) is what another node's
  \<open>login\<close> hands to the user. The database is the documented one of \<open>OfflineStore\<close>; in addition,
  statements on the other tables leave the table of offline messages alone.
\<close>

section \<open>The other tables\<close>

definition offline_isolated :: "(string \<Rightarrow> 'd \<Rightarrow> mysql_reply \<times> 'd) \<Rightarrow> ('d \<Rightarrow> cint \<Rightarrow> string multiset) \<Rightarrow> bool" where
  "offline_isolated q view \<longleftrightarrow>
     (\<forall>i d. view (snd (q (c_str (queryUserSql i)) d)) = view d) \<and>
     (\<forall>i d. view (snd (q (c_str (queryFriendsSql i)) d)) = view d) \<and>
     (\<forall>i d. view (snd (q (c_str (queryGroupsSql i)) d)) = view d) \<and>
     (\<forall>i d. view (snd (q (c_str (queryMembersSql i)) d)) = view d) \<and>
     (\<forall>i d. view (snd (q (c_str (updateStateSql (makeUser i '''' '''' ''online''))) d)) = view d) \<and>
     (\<forall>i d. view (snd (q (c_str (updateStateSql (makeUser i '''' '''' ''offline''))) d)) = view d)"

text \<open>The offline messages of a state, and that an operation keeps them.\<close>

definition offline_of ::
  "('d \<Rightarrow> cint \<Rightarrow> string multiset) \<Rightarrow> ('r, 'd, 'x) service_state_scheme \<Rightarrow> cint \<Rightarrow> string multiset" where
  "offline_of view s = view (database s)"

lemma offline_cong: "database s = database t \<Longrightarrow> offline_of view s = offline_of view t"
  by (simp add: offline_of_def)

lemma offline_keeps_db:
  fixes m :: "(('r, 'd, 'x) service_state_scheme, 'a) state"
  shows "keeps obs_db m \<Longrightarrow> keeps (offline_of view) m"
  by (auto simp: keeps_def obs_db_def intro: offline_cong)

lemma updateState_sql: "updateStateSql (u\<lparr>user_state := st\<rparr>) = updateStateSql (makeUser (user_id u) '''' '''' st)"
  by (simp add: updateStateSql_def makeUser_def)

lemma offline_db_after:
  fixes s :: "('r, 'd, 'x) service_state_scheme"
  assumes "offline_isolated (mysqlQuery E) view"
  shows "offline_of view (db_after E (queryUserSql i) s) = offline_of view s"
    "offline_of view (db_after E (queryFriendsSql i) s) = offline_of view s"
    "offline_of view (db_after E (queryGroupsSql i) s) = offline_of view s"
    "offline_of view (db_after E (queryMembersSql i) s) = offline_of view s"
    "offline_of view (db_after E (updateStateSql (makeUser i '''' '''' ''online'')) s) = offline_of view s"
    "offline_of view (db_after E (updateStateSql (makeUser i '''' '''' ''offline'')) s) = offline_of view s"
  using assms by (simp_all add: offline_isolated_def offline_of_def db_after_def)

text \<open>The parts of \<open>login\<close> around the two statements on offline messages.\<close>

lemma admitUser_offline:
  fixes E :: "('r, 'd, 'e) service_env_scheme"
  assumes "offline_isolated (mysqlQuery E) view"
  shows "keeps (offline_of view :: ('r, 'd, 'x) service_state_scheme \<Rightarrow> _) (admitUser E c u pwd)"
proof -
  note sql = offline_db_after [OF assms]
  have steps: "keeps (offline_of view :: ('r, 'd, 'x) service_state_scheme \<Rightarrow> _) (queryUserNode E u)"
    "keeps (offline_of view :: ('r, 'd, 'x) service_state_scheme \<Rightarrow> _) (bindUser E u)"
    "keeps (offline_of view :: ('r, 'd, 'x) service_state_scheme \<Rightarrow> _) (addLocalConnection u c)"
    "keeps (offline_of view :: ('r, 'd, 'x) service_state_scheme \<Rightarrow> _) (removeLocalConnection u)"
    "keeps (offline_of view :: ('r, 'd, 'x) service_state_scheme \<Rightarrow> _) (increment k)" for k
    by (rule offline_keeps_db, intro service_keeps)+
  have users: "keeps (offline_of view :: ('r, 'd, 'x) service_state_scheme \<Rightarrow> _) (UserModel_query E u)"
    "keeps (offline_of view :: ('r, 'd, 'x) service_state_scheme \<Rightarrow> _) (UserModel_updateState E (w\<lparr>user_state := ''online''\<rparr>))"
    "keeps (offline_of view :: ('r, 'd, 'x) service_state_scheme \<Rightarrow> _) (UserModel_updateState E (w\<lparr>user_state := ''offline''\<rparr>))" for w
    by (rule keepsI, simp add: sql updateState_sql)+
  show ?thesis
    unfolding admitUser_def registered_def by (intro keeps steps users)

qed

lemma friends_groups_offline:
  fixes E :: "('r, 'd, 'e) service_env_scheme"
  assumes "offline_isolated (mysqlQuery E) view"
  shows "keeps (offline_of view :: ('r, 'd, 'x) service_state_scheme \<Rightarrow> _) (FriendModel_query E u)"
    and "keeps (offline_of view :: ('r, 'd, 'x) service_state_scheme \<Rightarrow> _) (GroupModel_queryGroups E u)"
proof -
  show "keeps (offline_of view :: ('r, 'd, 'x) service_state_scheme \<Rightarrow> _) (FriendModel_query E u)"
    by (rule keepsI) (simp add: offline_db_after [OF assms])
  have "offline_of view (exec (fillGroups E gs) s) = offline_of view s" for gs and s :: "('r, 'd, 'x) service_state_scheme"
    by (induction gs arbitrary: s) (simp_all add: Let_def offline_db_after [OF assms])
  then show "keeps (offline_of view :: ('r, 'd, 'x) service_state_scheme \<Rightarrow> _) (GroupModel_queryGroups E u)"
    by (intro keepsI) (simp add: GroupModel_queryGroups_def offline_db_after [OF assms])
qed

lemma loginReply_offline:
  fixes E :: "('r, 'd, 'e) service_env_scheme" and s :: "('r, 'd, 'x) service_state_scheme"
  assumes doc: "offline_documented (mysqlQuery E) view users" and iso: "offline_isolated (mysqlQuery E) view"
  shows "mset (result (OfflineMsgModel_query E u) s) = offline_of view s u"
    and "offline_of view (exec (loginReply E c user u) s) = (offline_of view s)(u := {#})"
proof -
  show offl: "mset (result (OfflineMsgModel_query E u) s) = offline_of view s u"
    using offline_store.fetch_stored [OF doc] by (simp add: offline_of_def)
  let ?offl = "result (OfflineMsgModel_query E u) s"
  define t where "t = exec (do { offl \<leftarrow> OfflineMsgModel_query E u; do_when (offl \<noteq> []) (OfflineMsgModel_remove E u) }) s"
  define rest :: "(('r, 'd, 'x) service_state_scheme, outcome) state" where "rest = do {
     friends \<leftarrow> FriendModel_query E u;
     with_value (all_some (map (\<lambda>u. jdump E (friendJson u)) friends)) (\<lambda>friendTexts. do {
       groups \<leftarrow> GroupModel_queryGroups E u;
       with_value (all_some (map (groupText E) groups)) (\<lambda>groupTexts.
         sendJson E c (loginAck user ?offl friendTexts groupTexts))
     }) }"
  have fetch: "offline_of view (exec (OfflineMsgModel_query E u) s') = offline_of view s'"
    and clear: "offline_of view (exec (OfflineMsgModel_remove E u) s') = (offline_of view s')(u := {#})"
    for s' :: "('r, 'd, 'x) service_state_scheme"
    using offline_store.fetch_same [OF doc, of u s'] offline_store.clear_stored [OF doc, of u s']
    unfolding offline_of_def by blast+
  have "offline_of view t = (offline_of view s)(u := {#})"
  proof (cases "?offl = []")
    case True
    then have "offline_of view s u = {#}" using offl by simp
    then have "(offline_of view s)(u := {#}) = offline_of view s" by (metis fun_upd_triv)
    then show ?thesis using True fetch by (simp add: t_def del: exec_models)
  next
    case False
    then show ?thesis using fetch clear by (simp add: t_def del: exec_models)
  qed
  moreover have "keeps (offline_of view :: ('r, 'd, 'x) service_state_scheme \<Rightarrow> _) rest"
  proof -
    have "keeps (offline_of view :: ('r, 'd, 'x) service_state_scheme \<Rightarrow> _) (sendJson E c js)" for js
      by (rule keepsI) (simp add: sendJson_def with_value_def finish_def offline_of_def split: option.split)
    then show ?thesis unfolding rest_def with_value_def by (intro keeps friends_groups_offline [OF iso])
  qed
  moreover have "exec (loginReply E c user u) s = exec rest t"
    by (simp add: loginReply_def rest_def t_def)
  ultimately show "offline_of view (exec (loginReply E c user u) s) = (offline_of view s)(u := {#})"
    using keepsD by metis
qed

section \<open>Storing\<close>

text \<open>
  A frame for a user who is not connected here adds one message to the database, if the user
  is in the table \<open>user\<close>.
\<close>

lemma frame_stored:
  fixes E :: "('r, 'd, 'e) service_env_scheme" and s :: "('r, 'd, 'x) service_state_scheme"
  assumes doc: "offline_documented (mysqlQuery E) view users" and fit: "fits u msg" and away: "tableOf s u = None"
    and inv: "delivery_inv s" and s': "s' = exec (handleClusterOneChatFrame E u msg) s"
  shows "offline_of view s' =
      (if u \<in> users (database s) then (offline_of view s)(u := add_mset msg (offline_of view s u))
       else offline_of view s) \<and> users (database s') = users (database s)"
proof -
  let ?s = "exec (readSteadyNs E) s"
  define t where "t = exec (do {
      increment OneChatRemoteHandle;
      now \<leftarrow> readSteadyNs E;
      add_metric OneChatRemoteHandleNs (now - result (readSteadyNs E) s) }) (exec (deliverToLocalUser E u msg) ?s)"
  have q: "quiet ?s = quiet s" by simp
  have "reachable_here E s u = None" using away by (simp add: reachable_here_def)
  then have r: "reachable_here E ?s u = None" by (simp only: quiet_for [OF q])
  have inv': "delivery_inv ?s" using inv delivery_inv_quiet [OF q] by simp
  note eff = deliver_effect [OF inv' refl, of E u msg]
  have "s' = exec (fallBack E u msg) (exec (releaseStray E u) t)"
    using eff(1) r by (simp add: s' handleClusterOneChatFrame_def t_def)
  moreover have db: "obs_db (exec (releaseStray E u) t) = obs_db s"
  proof -
    have "keeps obs_db (do {
      increment OneChatRemoteHandle;
      now \<leftarrow> readSteadyNs E;
      add_metric OneChatRemoteHandleNs (now - result (readSteadyNs E) s) })" by (intro keeps service_keeps)
    then have "obs_db t = obs_db (exec (deliverToLocalUser E u msg) ?s)" unfolding t_def by (rule keepsD)
    then show ?thesis using keepsD [OF releaseStray_keeps(1), of E u t] eff(3)
        keepsD [OF clock_service(1), of E s] by simp
  qed
  moreover have insert: "offline_of view (exec (fallBack E u msg) r) =
      (if u \<in> users (database r) then (offline_of view r)(u := add_mset msg (offline_of view r u))
       else offline_of view r) \<and> users (database (exec (fallBack E u msg) r)) = users (database r)"
    for r :: "('r, 'd, 'x) service_state_scheme"
  proof -
    have "exec (fallBack E u msg) r = exec (OfflineMsgModel_insert E u msg) (exec (increment OfflineFallback) r)"
      unfolding fallBack_def by (rule exec_bind)
    moreover have "database (exec (increment OfflineFallback) r) = database r" by simp
    ultimately show ?thesis
      using insert_documented [OF doc fit, of "exec (increment OfflineFallback) r"]
      unfolding offline_of_def by simp
  qed
  ultimately show ?thesis
    using insert [of "exec (releaseStray E u) t"] obs_dbD [OF db] by (simp add: offline_of_def)
qed

text \<open>The same for a sequence of frames for users none of whom is connected here.\<close>

lemma frames_stored:
  fixes E :: "('r, 'd, 'e) service_env_scheme" and s :: "('r, 'd, 'x) service_state_scheme"
  assumes doc: "offline_documented (mysqlQuery E) view users"
    and ms: "list_all (\<lambda>(u, m). fits u m \<and> tableOf s u = None) ms" and inv: "delivery_inv s"
    and s': "s' = exec (for_each ms (\<lambda>(u, m). handleClusterOneChatFrame E u m)) s"
  shows "offline_of view s' u = offline_of view s u +
      (if u \<in> users (database s) then mset (map snd (filter (\<lambda>p. fst p = u) ms)) else {#})"
  using ms inv s'
proof (induction ms arbitrary: s)
  case Nil
  then show ?case by simp
next
  case (Cons p ms)
  obtain v m where p: "p = (v, m)" by fastforce
  define t where "t = exec (handleClusterOneChatFrame E v m) s"
  have fit: "fits v m" "tableOf s v = None" using Cons.prems(1) p by simp_all
  note eff = frame_effect [OF Cons.prems(2) t_def]
  have "tableOf t = tableOf s" using eff(3) by (intro tableOf_cong) (simp add: obs_table_def)
  then have "list_all (\<lambda>(u, m). fits u m \<and> tableOf t u = None) ms" using Cons.prems(1) by simp
  from Cons.IH [OF this eff(2)] have "offline_of view s' u = offline_of view t u +
      (if u \<in> users (database t) then mset (map snd (filter (\<lambda>p. fst p = u) ms)) else {#})"
    using Cons.prems(3) by (simp add: p t_def)
  then show ?case using frame_stored [OF doc fit Cons.prems(2) t_def] by (simp add: p)
qed

section \<open>Properties\<close>

text \<open>
  C7. Store and forward, across nodes. The conditions are those of \<open>fits\<close> and of the schema:
  every message is plain ASCII without quote, backslash and NUL and its statement fits the
  1024-byte buffer, and MySQL answers as documented, an insert failing for an id that is not in
  the table \<open>user\<close>. One node gets frames with such messages for users who are not connected to
  it; then a user logs in, on any node of the cluster, and is admitted. The answer to the login
  carries the messages stored for the user before and, when the user was in the table \<open>user\<close>,
  every message of these frames for that user, each exactly once, and no other; and the
  database then holds no message for the user, so the next login does not see them again. The
  exception is an answer that cannot be printed: then nothing is sent, and the messages are
  gone all the same.
\<close>

theorem offline_then_login:
  fixes B :: "('q, 'd, 'f) service_env_scheme" and E :: "('r, 'd, 'e) service_env_scheme"
    and b :: "('q, 'd, 'y) service_state_scheme" and s :: "('r, 'd, 'x) service_state_scheme"
  assumes same: "mysqlQuery E = mysqlQuery B" and doc: "offline_documented (mysqlQuery B) view users"
    and iso: "offline_isolated (mysqlQuery B) view"
    and ms: "list_all (\<lambda>(u, m). fits u m \<and> tableOf b u = None) ms" and inv: "delivery_inv b"
    and db: "database s = database (exec (for_each ms (\<lambda>(u, m). handleClusterOneChatFrame B u m)) b)"
    and js: "jint js ''id'' = Some u" "jstr js ''password'' = Some pwd"
    and adm: "run_state (admitUser E c u pwd) s = ((user, Admitted), t)" and s': "s' = exec (login E c js) s"
  shows "view (database s') u = {#} \<and>
    (result (login E c js) s = JsonThrew \<and> outbox s' = outbox t \<or>
     (\<exists>offline friends groups answer. jdump E (loginAck user offline friends groups) = Some answer \<and>
        outbox s' = outbox t @ [(c, answer)] \<and>
        mset offline = view (database b) u +
          (if u \<in> users (database b) then mset (map snd (filter (\<lambda>p. fst p = u) ms)) else {#})))"
proof -
  let ?added = "if u \<in> users (database b) then mset (map snd (filter (\<lambda>p. fst p = u) ms)) else {#}"
  have docE: "offline_documented (mysqlQuery E) view users" and isoE: "offline_isolated (mysqlQuery E) view"
    using doc iso same by simp_all
  have run: "run_state (login E c js) s = run_state (loginReply E c user u) t"
    using login_run [OF js adm] by simp
  have "t = exec (admitUser E c u pwd) s" using adm by (simp add: exec_def)
  then have "offline_of view t = offline_of view s" using keepsD [OF admitUser_offline [OF isoE]] by metis
  moreover have "offline_of view s u = offline_of view b u + ?added"
    using frames_stored [OF doc ms inv refl, of u] db by (simp add: offline_of_def)
  ultimately have offl: "mset (result (OfflineMsgModel_query E u) t) = view (database b) u + ?added"
    using loginReply_offline(1) [OF docE isoE, where u = u and s = t] unfolding offline_of_def by simp
  have s'_t: "s' = exec (loginReply E c user u) t" "result (login E c js) s = result (loginReply E c user u) t"
    unfolding s' exec_def result_def run by (rule refl)+
  have gone: "view (database s') u = {#}"
    using loginReply_offline(2) [OF docE isoE, where u = u and s = t and user = user and c = c]
    unfolding s'_t(1) offline_of_def by simp

  show ?thesis
  proof (cases "result (loginReply E c user u) t")
    case Finished
    then obtain friends groups answer where
      "jdump E (loginAck user (result (OfflineMsgModel_query E u) t) friends groups) = Some answer"
      "outbox s' = outbox t @ [(c, answer)]"
      using loginReply_effect(3) [of E c user u t] unfolding s'_t(1) by auto
    then show ?thesis using offl gone by blast
  next
    case JsonThrew
    then show ?thesis using loginReply_effect(3) [of E c user u t] gone unfolding s'_t by simp
  qed
qed

section \<open>Witnesses\<close>

text \<open>The database of the other witnesses, with one user in it: number 9, password \<open>x\<close>.\<close>

definition selectUser :: string where
  "selectUser = ''select * from user where id = ''"

definition sampleUserQuery :: "string \<Rightarrow> sample_db \<Rightarrow> mysql_reply \<times> sample_db" where
  "sampleUserQuery sql d =
     (if take 30 sql = selectUser then (Rows [[''9'', ''bob'', ''x'', ''offline'']], d) else sampleQuery sql d)"

definition sampleUserEnv :: "(sample_redis, sample_db) service_env" where
  "sampleUserEnv = sampleServiceEnv\<lparr>mysqlQuery := sampleUserQuery\<rparr>"

lemma take_sql:
  assumes "NUL \<notin> set s" and "k < 1000"
  shows "take k (c_str (snprintf sqlBuffer s)) = take k s"
  using assms by (simp add: snprintf_def c_str_take sqlBuffer_def min_def)

lemma no_nul_sql [simp]:
  "NUL \<notin> set (to_string i)" "NUL \<notin> set (quoted m)"
  by (rule to_string_no_nul) (rule quoted_no_nul)

lemma sampleUser_isolated: "offline_isolated sampleUserQuery sampleStored"
proof -
  have keep: "snd (sampleUserQuery (c_str (snprintf sqlBuffer s)) d) = d"
    if "NUL \<notin> set s" "take 34 s \<noteq> ''insert into offlinemessage values(''"
      "take 50 s \<noteq> ''select message from offlinemessage where userid = ''"
      "take 42 s \<noteq> ''delete from offlinemessage where userid = ''" for s d
    using that by (simp add: sampleUserQuery_def sampleQuery_def take_sql)
  show ?thesis
    unfolding offline_isolated_def queryUserSql_def queryFriendsSql_def queryGroupsSql_def queryMembersSql_def
      updateStateSql_def
    by (intro conjI allI arg_cong [of _ _ sampleStored] keep) (simp_all add: NUL_def [symmetric], simp_all add: NUL_def)
qed

lemma sampleUser_documented: "offline_documented sampleUserQuery sampleStored sampleUsers"
proof -
  have other: "sampleUserQuery (insertOfflineText u m) d = sampleQuery (insertOfflineText u m) d"
    "sampleUserQuery (queryOfflineSql u) d = sampleQuery (queryOfflineSql u) d"
    "sampleUserQuery (removeOfflineSql u) d = sampleQuery (removeOfflineSql u) d" for u m d
  proof -
    show "sampleUserQuery (insertOfflineText u m) d = sampleQuery (insertOfflineText u m) d"
      by (simp add: sampleUserQuery_def selectUser_def insertOfflineText_def)
    have "queryOfflineSql u = ''select message from offlinemessage where userid = '' @ to_string u"
      "removeOfflineSql u = ''delete from offlinemessage where userid = '' @ to_string u"
      unfolding queryOfflineSql_def removeOfflineSql_def using length_to_string [of u]
      by (simp_all add: sqlBuffer_fits)
    then show "sampleUserQuery (queryOfflineSql u) d = sampleQuery (queryOfflineSql u) d"
      "sampleUserQuery (removeOfflineSql u) d = sampleQuery (removeOfflineSql u) d"
      by (simp_all add: sampleUserQuery_def selectUser_def)

  qed
  show ?thesis using sample_offline_documented unfolding offline_documented_def other .
qed

lemma sampleUser_admitted:
  "snd (result (admitUser sampleUserEnv 2 9 ''x'') (sampleService\<lparr>database := d\<rparr>)) = Admitted"
proof -
  have "take 30 (c_str (queryUserSql 9)) = selectUser"
    unfolding queryUserSql_def by (subst take_sql) (simp_all add: selectUser_def, simp add: NUL_def)
  then have user: "mysqlQuery sampleUserEnv (c_str (queryUserSql 9)) e = (Rows [[''9'', ''bob'', ''x'', ''offline'']], e)" for e
    by (simp add: sampleUserEnv_def sampleUserQuery_def)
  have row: "atoi ''9'' = 9" "c_str ''bob'' = ''bob''" "c_str ''x'' = ''x''" "c_str ''offline'' = ''offline''" by code_simp+
  define s where "s = db_after sampleUserEnv (queryUserSql 9) (sampleService\<lparr>database := d\<rparr>)"
  have redis: "redisCommand sampleUserEnv = sampleRedis" "redisSrv s = sampleStart" "userRouteCache s = Map.empty"
    "selfNode s = sampleNode" by (simp_all add: s_def sampleUserEnv_def sampleServiceEnv_def sampleService_def)
  have free: "result (queryUserNode sampleUserEnv 9) s = None"
    by (simp add: queryUserNode_def getCachedUserNode_def getUserSession_def redis sampleRedis_def sampleStart_def)
  have same: "redisSrv (exec (queryUserNode sampleUserEnv 9) s) = sampleStart"
    by (simp add: queryUserNode_def getCachedUserNode_def getUserSession_def redis sampleRedis_def sampleStart_def)
  have bound: "result (bindUser sampleUserEnv 9) t" if "redisSrv t = sampleStart" for t :: "(sample_redis, sample_db) service_state"
    using that by (simp add: bindUser_def bindUserNode_def redis sampleRedis_def sampleStart_def c_str_OK)
  have table: "redisSrv (exec (addLocalConnection 9 2) t) = redisSrv t" for t :: "(sample_redis, sample_db) service_state"
    by (simp add: addLocalConnection_def Let_def)
  show ?thesis
    using free same bound sampleService_facts(3)
    by (simp add: admitUser_def UserModel_query_def mysql_query_def user row registered_def makeUser_def table s_def)

qed

theorem offline_then_login_witness:
  "\<exists>b' s'. b' = exec (for_each [(9, ''a''), (7, ''b''), (9, ''c'')] (\<lambda>(u, m). handleClusterOneChatFrame sampleUserEnv u m)) sampleService \<and>
     s' = exec (login sampleUserEnv 2 sampleLogin) (sampleService\<lparr>database := database b'\<rparr>) \<and>
     sampleStored (database s') 9 = {#}"
proof -
  let ?ms = "[(9, ''a''), (7, ''b''), (9, ''c'')] :: (cint \<times> string) list"
  define b' where "b' = exec (for_each ?ms (\<lambda>(u, m). handleClusterOneChatFrame sampleUserEnv u m)) sampleService"
  define s where "s = sampleService\<lparr>database := database b'\<rparr>"
  have q: "mysqlQuery sampleUserEnv = sampleUserQuery" by (simp add: sampleUserEnv_def)
  have doc: "offline_documented (mysqlQuery sampleUserEnv) sampleStored sampleUsers"
    "offline_isolated (mysqlQuery sampleUserEnv) sampleStored"
    unfolding q by (rule sampleUser_documented sampleUser_isolated)+
  have ms: "list_all (\<lambda>(u, m). fits u m \<and> tableOf sampleService u = None) ?ms"
    by (simp add: fits_short plain_text_def ascii_text_def NUL_def sampleService_facts(4))
  have js: "jint sampleLogin ''id'' = Some 9" "jstr sampleLogin ''password'' = Some ''x''"
    by (simp_all add: sampleLogin_def jint_def jstr_def jmember_def)
  obtain user t where adm: "run_state (admitUser sampleUserEnv 2 9 ''x'') s = ((user, Admitted), t)"
    using sampleUser_admitted [of "database b'"] by (metis result_def s_def surj_pair snd_conv fst_conv)
  have db: "database s = database (exec (for_each ?ms (\<lambda>(u, m). handleClusterOneChatFrame sampleUserEnv u m)) sampleService)"
    unfolding s_def b'_def by simp
  show ?thesis
    using offline_then_login [OF refl doc ms sampleService_inv(1) db js adm refl] b'_def unfolding s_def by blast
qed

end
