(* ===== verification/ClientSession.thy ===== *)
theory ClientSession
  imports Client StoreAndForward
begin

text \<open>
  What the user of the client gets: commands that reach the server as typed, answers to a login
  that the client understands as the server meant them, and the inputs on which the client
  stops working.
\<close>

section \<open>Answers to a login\<close>

text \<open>The line an offline message is shown as; \<open>None\<close> when reading it throws.\<close>

definition lineOf :: "client_env \<Rightarrow> string \<Rightarrow> shown option" where
  "lineOf E str =
     Option.bind (c_parse E str) (\<lambda>js.
     Option.bind (jint js ''msgId'') (\<lambda>msgId.
     Option.bind (jstr js ''time'') (\<lambda>time.
     Option.bind (jstr js ''name'') (\<lambda>name.
     map_option (\<lambda>msg. if msg_code ONE_CHAT_MSG = msgId then ChatLine time (jshown js ''id'') name msg
                       else GroupLine (jshown js ''groupid'') time (jshown js ''id'') name msg)
       (jstr js ''msg'')))))"

lemma showOffline_line: "showOffline E str = with_value (lineOf E str) (\<lambda>x. finish (say x))"
  by (auto simp: showOffline_def showOneChat_def showGroupChat_def lineOf_def with_value_def split: option.split)

text \<open>A friend and a group as the client keeps them.\<close>

definition friendOf :: "User \<Rightarrow> User" where
  "friendOf u = defaultUser\<lparr>user_id := user_id u, user_name := user_name u, user_state := user_state u\<rparr>"

definition memberOf :: "GroupUser \<Rightarrow> GroupUser" where
  "memberOf u = User.extend (defaultUser\<lparr>user_id := user_id u, user_name := user_name u, user_state := user_state u\<rparr>)
     \<lparr>user_role = user_role u\<rparr>"

definition groupOf :: "Group \<Rightarrow> Group" where
  "groupOf g = (makeGroup (group_id g) (group_name g) (group_desc g))\<lparr>group_users := map memberOf (group_users g)\<rparr>"

text \<open>\<open>reads_back S E js\<close>: the client parses what the server printed for \<open>js\<close>.\<close>

definition reads_back :: "('r, 'd, 'e) service_env_scheme \<Rightarrow> client_env \<Rightarrow> json \<Rightarrow> bool" where
  "reads_back S E js \<longleftrightarrow> (\<forall>text. jdump S js = Some text \<longrightarrow> c_parse E text = Some js)"

definition groupJson :: "Group \<Rightarrow> string list \<Rightarrow> json" where
  "groupJson g users = JObj [(''groupdesc'', JStr (group_desc g)), (''groupname'', JStr (group_name g)),
     (''id'', JI (group_id g)), (''users'', JStrs users)]"

lemma groupText_json:
  "groupText S g = Option.bind (all_some (map (\<lambda>u. jdump S (groupUserJson u)) (group_users g))) (\<lambda>users. jdump S (groupJson g users))"
  by (simp add: groupText_def groupJson_def)

lemma jstrs_JStrs: "jmember js k = Some (JStrs xs) \<Longrightarrow> jstrs js k = Some xs"
  by (simp add: jstrs_def JStrs_def o_def)

lemmas json_fields = jint_def jstr_def jmember_def jcontains_def

lemma friend_fields:
  "jint (friendJson u) ''id'' = Some (user_id u)" "jstr (friendJson u) ''name'' = Some (user_name u)"
  "jstr (friendJson u) ''state'' = Some (user_state u)"
  by (simp_all add: json_fields friendJson_def)

lemma member_fields:
  "jint (groupUserJson u) ''id'' = Some (user_id u)" "jstr (groupUserJson u) ''name'' = Some (user_name u)"
  "jstr (groupUserJson u) ''state'' = Some (user_state u)" "jstr (groupUserJson u) ''role'' = Some (user_role u)"
  by (simp_all add: json_fields groupUserJson_def)

lemma group_fields:
  "jint (groupJson g users) ''id'' = Some (group_id g)" "jstr (groupJson g users) ''groupname'' = Some (group_name g)"
  "jstr (groupJson g users) ''groupdesc'' = Some (group_desc g)" "jstrs (groupJson g users) ''users'' = Some users"
  by (simp_all add: json_fields groupJson_def jstrs_JStrs)

lemma ack_fields:
  "jint (loginAck u offl fs gs) ''errno'' = Some 0" "jint (loginAck u offl fs gs) ''id'' = Some (user_id u)"
  "jstr (loginAck u offl fs gs) ''name'' = Some (user_name u)" "jint (loginAck u offl fs gs) ''msgId'' = Some (msg_code LOGIN_MSG_ACK)"
  "jcontains (loginAck u offl fs gs) ''friends'' = (fs \<noteq> [])" "jcontains (loginAck u offl fs gs) ''groups'' = (gs \<noteq> [])"
  "jcontains (loginAck u offl fs gs) ''offlinemsg'' = (offl \<noteq> [])"
  "fs \<noteq> [] \<Longrightarrow> jstrs (loginAck u offl fs gs) ''friends'' = Some fs"
  "gs \<noteq> [] \<Longrightarrow> jstrs (loginAck u offl fs gs) ''groups'' = Some gs"
  "offl \<noteq> [] \<Longrightarrow> jstrs (loginAck u offl fs gs) ''offlinemsg'' = Some offl"
  by (simp_all add: json_fields loginAck_def jstrs_JStrs)

lemma all_some_Cons: "all_some (x # xs) = Some ys \<longleftrightarrow> (\<exists>y zs. x = Some y \<and> all_some xs = Some zs \<and> ys = y # zs)"
  by (cases x) auto

text \<open>A loop that shows or stores one thing per text, none of which throws.\<close>

lemma each_finishes:
  assumes "\<And>x s. x \<in> set xs \<Longrightarrow> run_state (f x) s = (Finished, g x s)"
  shows "run_state (each_or_throw xs f) s = (Finished, fold g xs s)"
  using assms by (induction xs arbitrary: s) simp_all

text \<open>A loop that stops at the first text that throws.\<close>

lemma each_throws:
  assumes "\<And>x s. x \<in> set xs \<Longrightarrow> run_state (f x) s = (Finished, g x s)" and "\<And>s. run_state (f y) s = (JsonThrew, s)"
  shows "run_state (each_or_throw (xs @ y # ys) f) s = (JsonThrew, fold g xs s)"
  using assms by (induction xs arbitrary: s) simp_all

lemma fold_display: "fold (\<lambda>x s. s\<lparr>display := display s @ [h x]\<rparr>) xs s = s\<lparr>display := display s @ map h xs\<rparr>"
  by (induction xs arbitrary: s) simp_all

lemma each_takeFriend:
  assumes "all_some (map (\<lambda>u. jdump S (friendJson u)) fs) = Some texts" and "\<And>u. u \<in> set fs \<Longrightarrow> reads_back S E (friendJson u)"
  shows "run_state (each_or_throw texts (takeFriend E)) s = (Finished, s\<lparr>friendList := friendList s @ map friendOf fs\<rparr>)"
  using assms
proof (induction fs arbitrary: texts s)
  case (Cons u fs)
  from Cons.prems(1) obtain t ts where t: "jdump S (friendJson u) = Some t" "texts = t # ts"
    and ts: "all_some (map (\<lambda>u. jdump S (friendJson u)) fs) = Some ts"
    by (auto simp: all_some_Cons)
  have "c_parse E t = Some (friendJson u)" using Cons.prems(2) t(1) by (simp add: reads_back_def)
  then have "run_state (takeFriend E t) s = (Finished, s\<lparr>friendList := friendList s @ [friendOf u]\<rparr>)" for s
    by (simp add: takeFriend_def friend_fields with_value_def finish_def friendOf_def)
  moreover have "run_state (each_or_throw ts (takeFriend E)) s = (Finished, s\<lparr>friendList := friendList s @ map friendOf fs\<rparr>)" for s
    using Cons.prems(2) by (intro Cons.IH [OF ts]) auto
  ultimately show ?case by (simp add: t(2))
qed simp

lemma members_read:
  assumes "all_some (map (\<lambda>u. jdump S (groupUserJson u)) us) = Some texts"
    and "\<And>u. u \<in> set us \<Longrightarrow> reads_back S E (groupUserJson u)"
  shows "all_some (map (groupUserOf E) texts) = Some (map memberOf us)"
  using assms
proof (induction us arbitrary: texts)
  case (Cons u us)
  from Cons.prems(1) obtain t ts where t: "jdump S (groupUserJson u) = Some t" "texts = t # ts"
    and ts: "all_some (map (\<lambda>u. jdump S (groupUserJson u)) us) = Some ts"
    by (auto simp: all_some_Cons)
  have "c_parse E t = Some (groupUserJson u)" using Cons.prems(2) t(1) by (simp add: reads_back_def)
  then have "groupUserOf E t = Some (memberOf u)" by (simp add: groupUserOf_def member_fields memberOf_def)
  moreover have "all_some (map (groupUserOf E) ts) = Some (map memberOf us)"
    using Cons.prems(2) by (intro Cons.IH [OF ts]) auto
  ultimately show ?case by (simp add: t(2))
qed simp

lemma each_takeGroup:
  assumes "all_some (map (groupText S) gs) = Some texts"
    and "\<And>g users. g \<in> set gs \<Longrightarrow> reads_back S E (groupJson g users)"
    and "\<And>g u. g \<in> set gs \<Longrightarrow> u \<in> set (group_users g) \<Longrightarrow> reads_back S E (groupUserJson u)"
  shows "run_state (each_or_throw texts (takeGroup E)) s = (Finished, s\<lparr>groupList := groupList s @ map groupOf gs\<rparr>)"
  using assms
proof (induction gs arbitrary: texts s)
  case (Cons g gs)
  from Cons.prems(1) obtain t ts where t: "groupText S g = Some t" "texts = t # ts"
    and ts: "all_some (map (groupText S) gs) = Some ts"
    by (auto simp: all_some_Cons)
  from t(1) obtain users where users: "all_some (map (\<lambda>u. jdump S (groupUserJson u)) (group_users g)) = Some users"
    and printed: "jdump S (groupJson g users) = Some t"
    by (auto simp: groupText_json bind_eq_Some_conv)
  have "c_parse E t = Some (groupJson g users)" using Cons.prems(2) printed by (simp add: reads_back_def)
  moreover have "all_some (map (groupUserOf E) users) = Some (map memberOf (group_users g))"
    by (rule members_read [OF users]) (use Cons.prems(3) in auto)
  ultimately have "run_state (takeGroup E t) s = (Finished, s\<lparr>groupList := groupList s @ [groupOf g]\<rparr>)" for s
    by (simp add: takeGroup_def group_fields with_value_def finish_def groupOf_def)
  moreover have "run_state (each_or_throw ts (takeGroup E)) s = (Finished, s\<lparr>groupList := groupList s @ map groupOf gs\<rparr>)" for s
    using Cons.prems(2,3) by (intro Cons.IH [OF ts]) auto
  ultimately show ?case by (simp add: t(2))
qed simp

text \<open>The answer up to the offline messages.\<close>

definition understood :: "User \<Rightarrow> User list \<Rightarrow> Group list \<Rightarrow> client_state \<Rightarrow> client_state" where
  "understood user fs gs s =
     (let u = (currentUser s)\<lparr>user_id := user_id user, user_name := user_name user\<rparr>;
          friends = (if fs = [] then friendList s else map friendOf fs);
          groups = (if gs = [] then groupList s else map groupOf gs)
      in s\<lparr>isLoginSuccess := True, currentUser := u, friendList := friends, groupList := groups,
           display := display s @ [UserData u friends groups]\<rparr>)"

lemma doLoginResponse_ack:
  assumes fs: "all_some (map (\<lambda>u. jdump S (friendJson u)) fs) = Some ftexts" "\<And>u. u \<in> set fs \<Longrightarrow> reads_back S E (friendJson u)"
    and gs: "all_some (map (groupText S) gs) = Some gtexts"
      "\<And>g users. g \<in> set gs \<Longrightarrow> reads_back S E (groupJson g users)"
      "\<And>g u. g \<in> set gs \<Longrightarrow> u \<in> set (group_users g) \<Longrightarrow> reads_back S E (groupUserJson u)"
  shows "run_state (doLoginResponse E (loginAck user offl ftexts gtexts)) s =
    run_state (if offl = [] then State_Monad.return Finished else each_or_throw offl (showOffline E)) (understood user fs gs s)"
proof -
  let ?ack = "loginAck user offl ftexts gtexts"
  have f: "ftexts = [] \<longleftrightarrow> fs = []" and g: "gtexts = [] \<longleftrightarrow> gs = []"
    using fs(1) gs(1) by (cases fs; cases gs; auto simp: all_some_Cons)+
  have friends: "run_state (takeFriends E ?ack) s' = (Finished, if fs = [] then s' else s'\<lparr>friendList := map friendOf fs\<rparr>)" for s'
    using each_takeFriend [OF fs, where s = "s'\<lparr>friendList := []\<rparr>"] f
    by (auto simp: takeFriends_def ack_fields with_value_def)
  have groups: "run_state (takeGroups E ?ack) s' = (Finished, if gs = [] then s' else s'\<lparr>groupList := map groupOf gs\<rparr>)" for s'
    using each_takeGroup [OF gs, where s = "s'\<lparr>groupList := []\<rparr>"] g
    by (auto simp: takeGroups_def ack_fields with_value_def)
  show ?thesis
    by (simp add: doLoginResponse_def ack_fields with_value_def and_then_def friends groups showOfflines_def
        showCurrentUserData_def say_def understood_def Let_def split: if_splits)
qed

text \<open>
  C27. The client understands what \<open>login\<close> answers. Whatever user, friends and groups the server
  puts into its answer, the client, when the printed texts parse to what was printed and every
  offline message is a chat message, takes over exactly these: the user's id and name, the
  friends and the groups with their members and roles, and it shows one line for each
  offline message, in order. But a list that is empty is left out of the answer, and then the
  client keeps and shows the list of whoever was logged in before.
\<close>

theorem login_understood:
  assumes "all_some (map (\<lambda>u. jdump S (friendJson u)) fs) = Some ftexts" and "\<And>u. u \<in> set fs \<Longrightarrow> reads_back S E (friendJson u)"
    and "all_some (map (groupText S) gs) = Some gtexts"
    and "\<And>g users. g \<in> set gs \<Longrightarrow> reads_back S E (groupJson g users)"
    and "\<And>g u. g \<in> set gs \<Longrightarrow> u \<in> set (group_users g) \<Longrightarrow> reads_back S E (groupUserJson u)"
    and lines: "map (lineOf E) offl = map Some ls"
    and r: "(r, s') = run_state (doLoginResponse E (loginAck user offl ftexts gtexts)) s"
  shows "r = Finished \<and> isLoginSuccess s' \<and>
    currentUser s' = (currentUser s)\<lparr>user_id := user_id user, user_name := user_name user\<rparr> \<and>
    friendList s' = (if fs = [] then friendList s else map friendOf fs) \<and>
    groupList s' = (if gs = [] then groupList s else map groupOf gs) \<and>
    display s' = display s @ UserData (currentUser s') (friendList s') (groupList s') # ls"
proof -
  have line: "run_state (showOffline E t) s0 = (Finished, s0\<lparr>display := display s0 @ [the (lineOf E t)]\<rparr>)" if "t \<in> set offl" for t s0
  proof -
    from that have "lineOf E t \<in> Some ` set ls" using arg_cong [OF lines, of set] by auto
    then show ?thesis by (auto simp: showOffline_line with_value_def finish_def run_state_pair)
  qed
  have ls: "map (\<lambda>t. the (lineOf E t)) offl = ls"
    using arg_cong [OF lines, of "map the"] by (simp add: o_def)
  have "run_state (each_or_throw offl (showOffline E)) s0 = (Finished, s0\<lparr>display := display s0 @ ls\<rparr>)" for s0
    using each_finishes [where f = "showOffline E" and xs = offl, OF line] by (simp add: fold_display ls)
  moreover have "run_state (doLoginResponse E (loginAck user offl ftexts gtexts)) s =
      run_state (if offl = [] then State_Monad.return Finished else each_or_throw offl (showOffline E)) (understood user fs gs s)"
    by (rule doLoginResponse_ack) (fact assms)+
  ultimately have "(r, s') = (Finished, (understood user fs gs s)\<lparr>display := display (understood user fs gs s) @ ls\<rparr>)"
    using r ls by auto
  then show ?thesis by (simp add: understood_def Let_def)
qed

section \<open>What an answer leaves alone\<close>

text \<open>The parts of the state that handling an answer never touches, and those it touches only for a login or a registration.\<close>

definition reader_part :: "client_state \<Rightarrow> istream \<times> bool \<times> string" where
  "reader_part s = (stdin s, isMainMenuRunning s, sentBytes s)"

definition acknowledges :: "client_env \<Rightarrow> string \<Rightarrow> bool" where
  "acknowledges E answer \<longleftrightarrow>
     (case Option.bind (c_parse E answer) (\<lambda>js. jint js ''msgId'') of
        None \<Rightarrow> False | Some m \<Rightarrow> m = msg_code LOGIN_MSG_ACK \<or> m = msg_code REG_MSG_ACK)"

lemma keeps_answers:
  fixes f :: "client_state \<Rightarrow> 'a"
  assumes "\<And>s x. f (s\<lparr>display := x\<rparr>) = f s" "\<And>s x. f (s\<lparr>friendList := x\<rparr>) = f s" "\<And>s x. f (s\<lparr>groupList := x\<rparr>) = f s"
    "\<And>s x. f (s\<lparr>isLoginSuccess := x\<rparr>) = f s" "\<And>s x. f (s\<lparr>currentUser := x\<rparr>) = f s"
  shows "keeps f (say x)" "keeps f (showOneChat js)" "keeps f (showGroupChat js)" "keeps f (doRegResponse js)"
    "keeps f (doLoginResponse E js)"
proof -
  have say: "keeps f (say x)" for x by (simp add: keeps_def assms)
  then show "keeps f (say x)" .
  have upd: "keeps f (modify (\<lambda>s. s\<lparr>friendList := a s\<rparr>))" "keeps f (modify (\<lambda>s. s\<lparr>groupList := g s\<rparr>))"
    "keeps f (modify (\<lambda>s. s\<lparr>isLoginSuccess := b\<rparr>))" "keeps f (modify (\<lambda>s. s\<lparr>currentUser := u s\<rparr>))"
    "keeps f showCurrentUserData" for a g b u
    by (rule keeps_modify, simp add: assms)+ (simp add: keeps_def showCurrentUserData_def assms)
  have show_: "keeps f (showOneChat js)" "keeps f (showGroupChat js)" "keeps f (doRegResponse js)" for js
    unfolding showOneChat_def showGroupChat_def doRegResponse_def by (intro keeps say)+
  then show "keeps f (showOneChat js)" "keeps f (showGroupChat js)" "keeps f (doRegResponse js)" .
  have offl: "keeps f (showOffline E t)" for t
    unfolding showOffline_def by (intro keeps show_)
  have lists: "keeps f (takeFriends E js)" "keeps f (takeGroups E js)" "keeps f (showOfflines E js)" for js
    unfolding takeFriends_def takeGroups_def showOfflines_def takeFriend_def takeGroup_def by (intro keeps upd offl)+
  show "keeps f (doLoginResponse E js)"
    unfolding doLoginResponse_def by (intro keeps upd lists say)
qed

lemma keeps_reader: "keeps reader_part (handleAnswer E answer)"
proof -
  have upd: "reader_part (s\<lparr>display := x\<rparr>) = reader_part s" "reader_part (s\<lparr>friendList := a\<rparr>) = reader_part s"
    "reader_part (s\<lparr>groupList := b\<rparr>) = reader_part s" "reader_part (s\<lparr>isLoginSuccess := c\<rparr>) = reader_part s"
    "reader_part (s\<lparr>currentUser := d\<rparr>) = reader_part s" for s x a b c d
    by (simp_all add: reader_part_def)
  have post: "keeps reader_part sem_post" by (simp add: keeps_def sem_post_def reader_part_def)
  show ?thesis unfolding handleAnswer_def dispatchAnswer_def by (intro keeps post keeps_answers [OF upd])
qed

lemma keeps_unanswered:
  assumes "\<not> acknowledges E answer"
  shows "keeps rwSem (handleAnswer E answer)"
proof -
  have upd: "rwSem (s\<lparr>display := x\<rparr>) = rwSem s" "rwSem (s\<lparr>friendList := a\<rparr>) = rwSem s"
    "rwSem (s\<lparr>groupList := b\<rparr>) = rwSem s" "rwSem (s\<lparr>isLoginSuccess := c\<rparr>) = rwSem s"
    "rwSem (s\<lparr>currentUser := d\<rparr>) = rwSem s" for s x a b c d
    by simp_all
  have "keeps rwSem (dispatchAnswer E js)" if "c_parse E answer = Some js" for js
  proof (cases "jint js ''msgId''")
    case (Some m)
    then have "m \<noteq> msg_code LOGIN_MSG_ACK" "m \<noteq> msg_code REG_MSG_ACK"
      using assms that by (auto simp: acknowledges_def)
    then show ?thesis
      unfolding dispatchAnswer_def with_value_def Some option.case
      by (auto intro!: keeps keeps_answers [OF upd])
  qed (simp add: dispatchAnswer_def with_value_def keeps)
  then show ?thesis unfolding handleAnswer_def by (intro keeps keeps_answers [OF upd])
qed

lemma readTask_parts:
  "reader_part (exec (readTaskTurn E received) s) = reader_part s"
  "list_all (\<lambda>t. \<not> acknowledges E t) (fst (clientReceive (recvBuf s @ bytes))) \<Longrightarrow>
   rwSem (exec (readTaskTurn E (Some bytes)) s) = rwSem s"
proof -
  have upd: "keeps reader_part (modify (\<lambda>s. s\<lparr>recvBuf := b\<rparr>))" "keeps rwSem (modify (\<lambda>s. s\<lparr>recvBuf := b\<rparr>))" for b
    by (rule keeps_modify, simp add: reader_part_def)+
  have "keeps reader_part (readTaskTurn E received)"
    unfolding readTaskTurn_def Let_def by (intro keeps keeps_reader upd)
  then show "reader_part (exec (readTaskTurn E received) s) = reader_part s" by (rule keepsD)
  assume none: "list_all (\<lambda>t. \<not> acknowledges E t) (fst (clientReceive (recvBuf s @ bytes)))"
  have "keeps rwSem (for_each (fst (clientReceive (recvBuf s @ bytes))) (handleAnswer E))"
    using none by (intro keeps keeps_unanswered) (simp add: list_all_iff)
  then have "rwSem (exec (for_each (fst (clientReceive (recvBuf s @ bytes))) (handleAnswer E)) s) = rwSem s" by (rule keepsD)
  then show "rwSem (exec (readTaskTurn E (Some bytes)) s) = rwSem s"
    by (simp add: readTaskTurn_def split_beta Let_def)
qed

section \<open>A message that cannot be read\<close>

text \<open>
  The steps of the client while no answer to a login or a registration arrives.
\<close>

inductive unanswered_step :: "client_env \<Rightarrow> main_at \<times> client_state \<Rightarrow> main_at \<times> client_state \<Rightarrow> bool" for E where
  main: "mainStep E c = Some c' \<Longrightarrow> unanswered_step E c c'"
| receive: "at \<noteq> Crashed \<Longrightarrow> at \<noteq> Left \<Longrightarrow>
    list_all (\<lambda>t. \<not> acknowledges E t) (fst (clientReceive (recvBuf s @ bytes))) \<Longrightarrow>
    unanswered_step E (at, s) (at, exec (readTaskTurn E (Some bytes)) s)"
| closed: "at \<noteq> Crashed \<Longrightarrow> unanswered_step E (at, s) (Left, s)"

lemma unanswered_waits:
  assumes "(unanswered_step E)\<^sup>*\<^sup>* (AwaitLogin, s) (at, t)" and "rwSem s = 0"
  shows "(at = AwaitLogin \<or> at = Left) \<and> rwSem t = 0 \<and> reader_part t = reader_part s"
  using assms(1)
proof (induction "(at, t)" arbitrary: at t rule: rtranclp_induct)
  case base
  then show ?case using assms(2) by simp
next
  case (step y)
  obtain a r where y: "y = (a, r)" by fastforce
  have IH: "a = AwaitLogin \<or> a = Left" "rwSem r = 0" "reader_part r = reader_part s" using step.hyps(3) [OF y] by blast+
  from step.hyps(2) [unfolded y] show ?case
  proof cases
    case main
    then show ?thesis using IH by (auto simp: sem_wait_def)
  next
    case (receive bytes)
    then show ?thesis using IH readTask_parts by simp
  qed (use IH in simp)
qed

text \<open>The answer the server prints, with the lists it reads for it.\<close>

definition answeredFriends ::
  "('r, 'd, 'e) service_env_scheme \<Rightarrow> cint \<Rightarrow> ('r, 'd, 'x) service_state_scheme \<Rightarrow> User list" where
  "answeredFriends S u b =
     result (FriendModel_query S u) (exec (do { OfflineMsgModel_query S u; OfflineMsgModel_remove S u }) b)"

definition answeredGroups ::
  "('r, 'd, 'e) service_env_scheme \<Rightarrow> cint \<Rightarrow> ('r, 'd, 'x) service_state_scheme \<Rightarrow> Group list" where
  "answeredGroups S u b =
     result (GroupModel_queryGroups S u)
       (exec (do { OfflineMsgModel_query S u; OfflineMsgModel_remove S u; FriendModel_query S u }) b)"

lemma loginReply_lists:
  fixes b :: "('r, 'd, 'x) service_state_scheme"
  assumes fin: "result (loginReply S c user u) b = Finished" and offl: "result (OfflineMsgModel_query S u) b = offl" "offl \<noteq> []"
  obtains ftexts gtexts answer where
    "all_some (map (\<lambda>u. jdump S (friendJson u)) (answeredFriends S u b)) = Some ftexts"
    "all_some (map (groupText S) (answeredGroups S u b)) = Some gtexts"
    "jdump S (loginAck user offl ftexts gtexts) = Some answer"
    "outbox (exec (loginReply S c user u) b) = outbox b @ [(c, answer)]"
proof -
  let ?b3 = "exec (do { OfflineMsgModel_query S u; OfflineMsgModel_remove S u; FriendModel_query S u }) b"
  have run: "run_state (loginReply S c user u) b =
      run_state (with_value (all_some (map (\<lambda>u. jdump S (friendJson u)) (answeredFriends S u b)))
        (\<lambda>ftexts. do {
           groups \<leftarrow> GroupModel_queryGroups S u;
           with_value (all_some (map (groupText S) groups)) (\<lambda>gtexts. sendJson S c (loginAck user offl ftexts gtexts))
         })) ?b3"
    using offl by (simp add: loginReply_def answeredFriends_def run_state_pair)
  obtain ftexts where f: "all_some (map (\<lambda>u. jdump S (friendJson u)) (answeredFriends S u b)) = Some ftexts"
    using fin unfolding result_def run
    by (cases "all_some (map (\<lambda>u. jdump S (friendJson u)) (answeredFriends S u b))") (auto simp: with_value_def)
  have groups: "answeredGroups S u b = result (GroupModel_queryGroups S u) ?b3" by (simp add: answeredGroups_def)
  let ?b4 = "exec (GroupModel_queryGroups S u) ?b3"
  have run2: "run_state (loginReply S c user u) b =
      run_state (with_value (all_some (map (groupText S) (answeredGroups S u b)))
        (\<lambda>gtexts. sendJson S c (loginAck user offl ftexts gtexts))) ?b4"
    unfolding run f groups by (simp add: with_value_def run_state_pair)
  obtain gtexts where g: "all_some (map (groupText S) (answeredGroups S u b)) = Some gtexts"
    using fin unfolding result_def run2
    by (cases "all_some (map (groupText S) (answeredGroups S u b))") (auto simp: with_value_def)
  have run3: "run_state (loginReply S c user u) b = run_state (sendJson S c (loginAck user offl ftexts gtexts)) ?b4"
    unfolding run2 g by (simp add: with_value_def)
  obtain answer where ack: "jdump S (loginAck user offl ftexts gtexts) = Some answer"
    using fin unfolding result_def run3
    by (cases "jdump S (loginAck user offl ftexts gtexts)") (auto simp: sendJson_def with_value_def)
  have "outbox ?b4 = outbox b"
    using keepsD [OF keeps_queryGroups [of outbox S u], of ?b3] by simp
  then have "outbox (exec (loginReply S c user u) b) = outbox b @ [(c, answer)]"
    unfolding exec_def [of "loginReply _ _ _ _"] run3 using ack
    by (simp add: sendJson_def with_value_def finish_def run_state_pair)
  from that [OF f g ack this] show thesis .
qed

lemma unreadable_answer:
  assumes fs: "all_some (map (\<lambda>u. jdump S (friendJson u)) fs) = Some ftexts" "\<And>u. u \<in> set fs \<Longrightarrow> reads_back S E (friendJson u)"
    and gs: "all_some (map (groupText S) gs) = Some gtexts"
      "\<And>g users. g \<in> set gs \<Longrightarrow> reads_back S E (groupJson g users)"
      "\<And>g u. g \<in> set gs \<Longrightarrow> u \<in> set (group_users g) \<Longrightarrow> reads_back S E (groupUserJson u)"
    and lines: "map (lineOf E) good = map Some ls" and bad: "c_parse E t = None"
    and ack: "c_parse E answer = Some (loginAck user (good @ t # rest) ftexts gtexts)"
  shows "exec (handleAnswer E answer) s = (understood user fs gs s)
    \<lparr>display := display (understood user fs gs s) @ ls @ [ErrorText ''JSON parse error: '']\<rparr>"
proof -
  have line: "run_state (showOffline E x) s0 = (Finished, s0\<lparr>display := display s0 @ [the (lineOf E x)]\<rparr>)" if "x \<in> set good" for x s0
  proof -
    from that have "lineOf E x \<in> Some ` set ls" using arg_cong [OF lines, of set] by auto
    then show ?thesis by (auto simp: showOffline_line with_value_def finish_def run_state_pair)
  qed
  have ls: "map (\<lambda>x. the (lineOf E x)) good = ls"
    using arg_cong [OF lines, of "map the"] by (simp add: o_def)
  have "run_state (showOffline E t) s0 = (JsonThrew, s0)" for s0
    using bad by (simp add: showOffline_def with_value_def)
  then have "run_state (each_or_throw (good @ t # rest) (showOffline E)) s0 = (JsonThrew, s0\<lparr>display := display s0 @ ls\<rparr>)" for s0
    using each_throws [where f = "showOffline E" and xs = good, OF line] by (simp add: fold_display ls)
  moreover have "run_state (doLoginResponse E (loginAck user (good @ t # rest) ftexts gtexts)) s =
      run_state (if good @ t # rest = [] then State_Monad.return Finished else each_or_throw (good @ t # rest) (showOffline E))
        (understood user fs gs s)"
    by (rule doLoginResponse_ack) (fact fs gs)+
  ultimately have "run_state (doLoginResponse E (loginAck user (good @ t # rest) ftexts gtexts)) s =
      (JsonThrew, (understood user fs gs s)\<lparr>display := display (understood user fs gs s) @ ls\<rparr>)"
    by simp
  then have "result (doLoginResponse E (loginAck user (good @ t # rest) ftexts gtexts)) s = JsonThrew"
    "exec (doLoginResponse E (loginAck user (good @ t # rest) ftexts gtexts)) s =
      (understood user fs gs s)\<lparr>display := display (understood user fs gs s) @ ls\<rparr>"
    unfolding result_def exec_def by simp_all
  then show ?thesis
    by (simp add: handleAnswer_def ack dispatchAnswer_def with_value_def ack_fields and_then_def)
qed

text \<open>
  C36. An offline message that is not JSON stops the client. The server answers a login with
  offline messages, one of which, stored by whatever way, the client's parser rejects; the
  conditions are a documented database, an answer the server can print, and a client that
  parses what the server printed and whose semaphore is at 0. Then the server has removed all
  the messages of the user from the database, and the answer is sent. When the client handles
  it, the login is noted as successful and the messages before the unreadable one are shown,
  none after it; and as long as no further answer to a login or a registration arrives,
  whatever else does, the main thread stays at the semaphore, so that it reads nothing from
  the keyboard and sends nothing, and so never asks for such an answer, until the connection
  is closed.
\<close>

theorem unreadable_offline_hangs:
  fixes S :: "('r, 'd, 'e) service_env_scheme" and b :: "('r, 'd, 'x) service_state_scheme"
  assumes doc: "offline_documented (mysqlQuery S) view users" and iso: "offline_isolated (mysqlQuery S) view"
    and served: "result (loginReply S c user u) b = Finished" and b': "b' = exec (loginReply S c user u) b"
    and stored: "result (OfflineMsgModel_query S u) b = good @ t # rest"
    and fs: "\<And>w. w \<in> set (answeredFriends S u b) \<Longrightarrow> reads_back S E (friendJson w)"
    and gs: "\<And>g users. g \<in> set (answeredGroups S u b) \<Longrightarrow> reads_back S E (groupJson g users)"
      "\<And>g w. g \<in> set (answeredGroups S u b) \<Longrightarrow> w \<in> set (group_users g) \<Longrightarrow> reads_back S E (groupUserJson w)"
    and ack: "\<And>ftexts gtexts. reads_back S E (loginAck user (good @ t # rest) ftexts gtexts)"
    and lines: "map (lineOf E) good = map Some ls" and bad: "c_parse E t = None" and idle: "rwSem s = 0"
  shows "view (database b') u = {#} \<and>
    (\<exists>answer s'. outbox b' = outbox b @ [(c, answer)] \<and> s' = exec (handleAnswer E answer) s \<and> isLoginSuccess s' \<and>
       display s' = display s @ UserData (currentUser s') (friendList s') (groupList s') # ls @ [ErrorText ''JSON parse error: ''] \<and>
       (\<forall>at t. (unanswered_step E)\<^sup>*\<^sup>* (AwaitLogin, s') (at, t) \<longrightarrow>
          (at = AwaitLogin \<or> at = Left) \<and> mainStep E (at, t) = None \<and> stdin t = stdin s \<and> sentBytes t = sentBytes s))"
proof -
  have "offline_of view b' = (offline_of view b)(u := {#})" unfolding b' by (rule loginReply_offline(2) [OF doc iso])
  then have gone: "view (database b') u = {#}" by (simp add: offline_of_def)
  obtain ftexts gtexts answer where printed:
    "all_some (map (\<lambda>u. jdump S (friendJson u)) (answeredFriends S u b)) = Some ftexts"
    "all_some (map (groupText S) (answeredGroups S u b)) = Some gtexts"
    "jdump S (loginAck user (good @ t # rest) ftexts gtexts) = Some answer"
    "outbox b' = outbox b @ [(c, answer)]"
    unfolding b' by (rule loginReply_lists [OF served stored]) auto
  define s' where "s' = exec (handleAnswer E answer) s"
  have "c_parse E answer = Some (loginAck user (good @ t # rest) ftexts gtexts)"
    using ack printed(3) by (auto simp: reads_back_def)
  note s'_eq = unreadable_answer [where s = s, OF printed(1) fs printed(2) gs lines bad this, folded s'_def]
  have client: "isLoginSuccess s'" "rwSem s' = 0" "stdin s' = stdin s" "sentBytes s' = sentBytes s"
    "display s' = display s @ UserData (currentUser s') (friendList s') (groupList s') # ls @ [ErrorText ''JSON parse error: '']"
    using idle by (simp_all add: s'_eq understood_def Let_def)
  have waits: "(at = AwaitLogin \<or> at = Left) \<and> mainStep E (at, r) = None \<and> stdin r = stdin s \<and> sentBytes r = sentBytes s"
    if "(unanswered_step E)\<^sup>*\<^sup>* (AwaitLogin, s') (at, r)" for at r
    using unanswered_waits [OF that client(2)] client(3,4) by (auto simp: reader_part_def sem_wait_def)
  show ?thesis using gone printed(4) s'_def client(1,5) waits by blast
qed

section \<open>Commands\<close>

text \<open>The request of the command \<open>chat\<close>.\<close>

definition chatJson :: "User \<Rightarrow> string \<Rightarrow> cint \<Rightarrow> string \<Rightarrow> json" where
  "chatJson u time target message =
     JObj [(''id'', JI (user_id u)), (''msg'', JStr message), (''msgId'', JI (msg_code ONE_CHAT_MSG)),
           (''name'', JStr (user_name u)), (''time'', JStr time), (''to'', JI target)]"

definition chatRequest :: "client_env \<Rightarrow> client_state \<Rightarrow> cint \<Rightarrow> string \<Rightarrow> json" where
  "chatRequest E s = chatJson (currentUser s) (timeText (c_localtime E (timeCalls s)))"

lemma chatJson_fields:
  "jint (chatJson u time target message) ''msgId'' = Some (msg_code ONE_CHAT_MSG)"
  "jint (chatJson u time target message) ''to'' = Some target"
  "jint (chatJson u time target message) ''id'' = Some (user_id u)"
  "jstr (chatJson u time target message) ''msg'' = Some message"
  by (simp_all add: chatJson_def json_fields)

lemma getline_line:
  assumes "in_good inp" and "in_text inp = line @ newline # rest" and "newline \<notin> set line" and "NUL \<notin> set line"
    and "length line < n"
  shows "cin_getline n inp = (line, \<lparr>in_text = rest, in_good = True\<rparr>)"
proof -
  have "takeWhile (\<lambda>c. c \<noteq> newline) (in_text inp) = line"
    unfolding assms(2) by (rule takeWhile_append_stop) (use assms(3) in auto)
  then show ?thesis using assms by (simp add: cin_getline_def Let_def c_str_id)
qed

lemma trimCopy_id: "s \<noteq> [] \<Longrightarrow> \<not> is_space (hd s) \<Longrightarrow> \<not> is_space (last s) \<Longrightarrow> trimCopy s = s"
proof -
  assume s: "s \<noteq> []" "\<not> is_space (hd s)" "\<not> is_space (last s)"
  have "dropWhile is_space s = s" using s(1,2) by (cases s) simp_all
  moreover have "dropWhile is_space (rev s) = rev s" using s(1,3) by (cases s rule: rev_cases) simp_all
  ultimately show ?thesis by (simp add: trimCopy_def)
qed

lemma splitArgs_colon: "CHR '':'' \<notin> set a \<Longrightarrow> splitArgs (a @ CHR '':'' # b) = Some (a, b)"
  by (simp add: splitArgs_def str_find_append substr_def)

lemma to_string_no_char:
  assumes "\<not> is_digit c" and "c \<noteq> CHR ''-''"
  shows "c \<notin> set (to_string u)"
  using assms show_nat_digits by (auto simp: to_string_def show_int_def)

lemma handlerOf_chat: "map_of (handlerOf S) (msg_code ONE_CHAT_MSG) = Some (oneChat S)"
  by (simp add: handlerOf_def)

lemma chat_typed:
  assumes good: "in_good (stdin s)" and typed: "in_text (stdin s) = ''chat:'' @ to_string u @ '':'' @ msg @ newline # rest"
    and msg: "newline \<notin> set msg" "NUL \<notin> set msg" "length (''chat:'' @ to_string u @ '':'' @ msg) < 1024"
    and up: "c_send E (sendCalls s)" and dump: "c_dump E (chatRequest E s u msg) = Some printed"
    and r: "(r, s') = run_state (menuTurn E) s"
  shows "r = Returned" and "sentBytes s' = sentBytes s @ printed @ [NUL]" and "stdin s' = \<lparr>in_text = rest, in_good = True\<rparr>"
    and "display s' = display s"
proof -
  define line where "line = ''chat'' @ CHR '':'' # to_string u @ CHR '':'' # msg"
  have ascii: "newline \<notin> set (to_string u)" "CHR '':'' \<notin> set (to_string u)"
    by (rule to_string_no_char; simp add: is_digit_def newline_def)+
  have read: "cin_getline 1024 (stdin s) = (line, \<lparr>in_text = rest, in_good = True\<rparr>)"
    using good typed msg ascii to_string_no_nul [of u]
    by (intro getline_line) (auto simp: line_def newline_def NUL_def)
  have "trimCopy ''chat'' = ''chat''" by (rule trimCopy_id) (simp_all add: is_space_def)
  moreover have "str_find (CHR '':'') line = Some 4" by (simp add: line_def)
  ultimately have split: "splitCommand line = (''chat'', to_string u @ CHR '':'' # msg)"
    by (simp add: splitCommand_def) (simp add: line_def)
  have cmd: "commandHandler E ''chat'' = Some (chat E)" by (simp add: commandHandler_def)
  have json: "chatRequest E s u msg = JObj [(''id'', JI (user_id (currentUser s))), (''msg'', JStr msg),
      (''msgId'', JI (msg_code ONE_CHAT_MSG)), (''name'', JStr (user_name (currentUser s))),
      (''time'', JStr (timeText (c_localtime E (timeCalls s)))), (''to'', JI u)]"
    by (simp add: chatRequest_def chatJson_def)
  show "r = Returned" "sentBytes s' = sentBytes s @ printed @ [NUL]" "stdin s' = \<lparr>in_text = rest, in_good = True\<rparr>"
    "display s' = display s"
    using r dump up unfolding json
    by (simp_all add: menuTurn_def read split cmd chat_def splitArgs_colon [OF ascii(2)] sendRequest_def run_state_pair)
qed

lemma chat_handled:
  fixes S :: "('r, 'd, 'e) service_env_scheme"
  assumes "jparse S printed = Some (chatRequest E s u msg)"
  shows "handleText S c printed = do { oneChat S c (chatRequest E s u msg); State_Monad.return () }"
  by (simp add: handleText_def assms chatRequest_def chatJson_fields getHandler_def handlerOf_chat [simplified])

text \<open>
  What is typed is what is asked for. The line \<open>chat:<id>:<message>\<close>, for any user id and
  any message that fits the line, colons included, makes the client send exactly one request,
  closed by a NUL, and read on behind the line; and a server that parses the printed text to
  what was printed runs \<open>oneChat\<close> on it with that receiver, this sender and this message.
\<close>

theorem chat_command:
  fixes S :: "('r, 'd, 'e) service_env_scheme"
  assumes good: "in_good (stdin s)" and typed: "in_text (stdin s) = ''chat:'' @ to_string u @ '':'' @ msg @ newline # rest"
    and msg: "newline \<notin> set msg" "NUL \<notin> set msg" "length (''chat:'' @ to_string u @ '':'' @ msg) < 1024"
    and up: "c_send E (sendCalls s)" and dump: "c_dump E (chatRequest E s u msg) = Some printed"
    and parse: "jparse S printed = Some (chatRequest E s u msg)"
    and r: "(r, s') = run_state (menuTurn E) s"
  shows "r = Returned \<and> sentBytes s' = sentBytes s @ printed @ [NUL] \<and>
    stdin s' = \<lparr>in_text = rest, in_good = True\<rparr> \<and> display s' = display s \<and>
    handleText S c printed = do { oneChat S c (chatRequest E s u msg); State_Monad.return () } \<and>
    jint (chatRequest E s u msg) ''to'' = Some u \<and> jint (chatRequest E s u msg) ''id'' = Some (user_id (currentUser s)) \<and>
    jstr (chatRequest E s u msg) ''msg'' = Some msg"
  using chat_typed [OF good typed msg up dump r] chat_handled [OF parse, of c]
  by (simp add: chatRequest_def chatJson_fields)

text \<open>
  The full-width colon. \<open>mainMenu\<close> accepts it after the name of a command, but the commands
  with two arguments look for the ASCII colon only: a line without an ASCII colon never makes
  \<open>chat\<close>, \<open>creategroup\<close> or \<open>groupchat\<close> send anything.
\<close>

theorem fullwidth_rejected:
  assumes good: "in_good (stdin s)" and typed: "in_text (stdin s) = cmd @ fullColon @ args @ newline # rest"
    and cmd: "cmd \<in> {''chat'', ''creategroup'', ''groupchat''}"
    and args: "newline \<notin> set args" "NUL \<notin> set args" "CHR '':'' \<notin> set args" "length args < 1000"
    and r: "(r, s') = run_state (menuTurn E) s"
  shows "r = Returned \<and> sentBytes s' = sentBytes s \<and> sendCalls s' = sendCalls s \<and>
    display s' = display s @ [ErrorText (cmd @ '' command invalid!'')]"
proof -
  let ?line = "cmd @ fullColon @ args"
  have line: "cin_getline 1024 (stdin s) = (?line, \<lparr>in_text = rest, in_good = True\<rparr>)"
    using good typed cmd args by (intro getline_line) (auto simp: newline_def NUL_def fullColon_def)
  have "trimCopy cmd = cmd" using cmd by (intro trimCopy_id) (auto simp: is_space_def)
  moreover have "str_find (CHR '':'') ?line = None" "find_text fullColon ?line = Some (length cmd)"
    using cmd args(3) by (auto simp: str_find_None fullColon_def)
  ultimately have split: "splitCommand ?line = (cmd, args)" by (simp add: splitCommand_def)
  have none: "splitArgs args = None" using args(3) by (simp add: splitArgs_def str_find_None)
  show ?thesis
    using cmd r none
    by (auto simp: menuTurn_def line split commandHandler_def chat_def creategroup_def groupchat_def run_state_pair)
qed

section \<open>The menu loop\<close>

lemma menuTurn_at_end:
  assumes "\<not> in_good (stdin s)"
  shows "run_state (menuTurn E) s = (Returned, s)"
proof -
  have "trimCopy [] = []" by (simp add: trimCopy_def)
  then have "splitCommand [] = ([], [])" by (simp add: splitCommand_def fullColon_def)
  then show ?thesis using assms
    by (simp add: menuTurn_def run_state_pair cin_getline_def)
qed

lemma keeps_commands:
  fixes f :: "client_state \<Rightarrow> 'a"
  assumes "\<And>s x. f (s\<lparr>display := x\<rparr>) = f s" "\<And>s x y. f (s\<lparr>sendCalls := x, sentBytes := y\<rparr>) = f s"
    "\<And>s x. f (s\<lparr>timeCalls := x\<rparr>) = f s" "\<And>s x. f (s\<lparr>isMainMenuRunning := x\<rparr>) = f s"
    and handler: "commandHandler E cmd = Some handler"
  shows "keeps f (handler args)"
proof -
  have basic: "keeps f (say x)" "keeps f (sendBytes E bytes)" "keeps f (getCurrentTime E)" for x bytes
    by (simp_all add: keeps_def assms)
  have stop: "keeps f (modify (\<lambda>s. s\<lparr>isMainMenuRunning := v\<rparr>))" for v
    by (rule keeps_modify) (simp add: assms)
  have send: "keeps f (sendRequest E complaint js)" for complaint js
    unfolding sendRequest_def by (intro keeps basic)
  have each: "keeps f (addfriend E args)" "keeps f (chat E args)" "keeps f (creategroup E args)"
    "keeps f (addgroup E args)" "keeps f (groupchat E args)" "keeps f (client_logout E)"
    unfolding addfriend_def chat_def creategroup_def addgroup_def groupchat_def client_logout_def
    by (intro keeps basic send stop)+
  show ?thesis using handler each by (auto simp: commandHandler_def split: if_splits intro!: keeps basic)
qed

lemma menuTurn_stdin: "stdin (exec (menuTurn E) s) = snd (cin_getline 1024 (stdin s))"
proof -
  have upd: "stdin (s\<lparr>display := x\<rparr>) = stdin s" "stdin (s\<lparr>sendCalls := n, sentBytes := y\<rparr>) = stdin s"
    "stdin (s\<lparr>timeCalls := n\<rparr>) = stdin s" "stdin (s\<lparr>isMainMenuRunning := b\<rparr>) = stdin s" for s x n y b
    by simp_all
  have "keeps stdin (handler args)" if "commandHandler E cmd = Some handler" for cmd handler args
    by (rule keeps_commands [OF upd that])
  then show ?thesis by (simp add: menuTurn_def split_beta Let_def keepsD split: option.split)
qed

lemma getline_fails:
  assumes "\<not> in_good inp \<or> newline \<notin> set (in_text inp) \<or> 1024 \<le> length (takeWhile (\<lambda>c. c \<noteq> newline) (in_text inp))"
  shows "\<not> in_good (snd (cin_getline 1024 inp))"
proof -
  consider "\<not> in_good inp" | "newline \<notin> set (in_text inp)" | "1024 \<le> length (takeWhile (\<lambda>c. c \<noteq> newline) (in_text inp))"
    using assms by blast
  then show ?thesis
  proof cases
    case 2
    then have "takeWhile (\<lambda>c. c \<noteq> newline) (in_text inp) = in_text inp"
      unfolding takeWhile_eq_all_conv by blast
    then have "length (takeWhile (\<lambda>c. c \<noteq> newline) (in_text inp)) = length (in_text inp)" by (rule arg_cong)
    then show ?thesis by (simp add: cin_getline_def Let_def)
  qed (simp_all add: cin_getline_def Let_def)
qed

lemma menu_stays:
  assumes run: "(client_step E)\<^sup>*\<^sup>* (InMenu, s) (at, t)" and "\<not> in_good (stdin s)" and "isMainMenuRunning s"
  shows "(at = InMenu \<or> at = Left) \<and> reader_part t = reader_part s"
  using run
proof (induction "(at, t)" arbitrary: at t rule: rtranclp_induct)
  case (step y)
  obtain a r where y: "y = (a, r)" by fastforce
  have IH: "a = InMenu \<or> a = Left" "reader_part r = reader_part s" using step.hyps(3) [OF y] by blast+
  then have r: "\<not> in_good (stdin r)" "isMainMenuRunning r" using assms(2,3) by (simp_all add: reader_part_def)
  from step.hyps(2) [unfolded y] show ?case
  proof cases
    case main
    then show ?thesis using IH r menuTurn_at_end [OF r(1)] by auto
  next
    case (receive bytes)
    then show ?thesis using IH readTask_parts(1) by simp
  qed (use IH in simp)
qed simp

text \<open>
  C37. The menu at the end of the input. A turn of the menu whose line is not there any more, is
  the last one and not ended by a newline, or has 1024 characters or more, leaves the standard
  input failed. If the command of this line, cut to what fits the buffer, has not left the menu
  or terminated the client, \<open>mainMenu\<close> does not return from there: whatever the server sends, the
  client stays in the menu, in which it reads nothing and sends nothing, until the
  connection is closed and the process exits.
\<close>

theorem menu_spins:
  assumes line: "\<not> in_good (stdin s) \<or> newline \<notin> set (in_text (stdin s)) \<or>
      1024 \<le> length (takeWhile (\<lambda>c. c \<noteq> newline) (in_text (stdin s)))"
    and turn: "run_state (menuTurn E) s = (Returned, t)" and menu: "isMainMenuRunning t"
  shows "\<not> in_good (stdin t) \<and> mainMenu E t = None \<and> mainStep E (InMenu, t) = Some (InMenu, t) \<and>
    (\<forall>at r. (client_step E)\<^sup>*\<^sup>* (InMenu, t) (at, r) \<longrightarrow>
       (at = InMenu \<or> at = Left) \<and> stdin r = stdin t \<and> sentBytes r = sentBytes t \<and> isMainMenuRunning r)"
proof -
  have t: "t = exec (menuTurn E) s" using turn by (simp add: exec_def)
  have dead: "\<not> in_good (stdin t)" unfolding t menuTurn_stdin by (rule getline_fails [OF line])
  have "\<not> (\<not> in_good (stdin s) \<and> isMainMenuRunning s)" if "menuLoop E s = Some r" for s r
  proof (rule menuLoop.raw_induct [where P = "\<lambda>F s r. \<not> (\<not> in_good (stdin s) \<and> isMainMenuRunning s)", OF _ that])
    fix loop F s r
    assume IH: "\<And>F s r. loop F s = Some r \<Longrightarrow> \<not> (\<not> in_good (stdin s) \<and> isMainMenuRunning s)"
      and eq: "(if isMainMenuRunning s then
        (let (r, s') = run_state (menuTurn F) s in if r = Terminated then Some (Terminated, s') else loop F s')
      else Some (Returned, s)) = Some r"
    show "\<not> (\<not> in_good (stdin s) \<and> isMainMenuRunning s)"
      using IH [of F s r] eq by (auto simp: menuTurn_at_end)
  qed
  from this [of "exec (say HelpText) t"] have "mainMenu E t = None"
    using dead menu by (cases "mainMenu E t") (auto simp: mainMenu_def)
  moreover have "(at = InMenu \<or> at = Left) \<and> stdin r = stdin t \<and> sentBytes r = sentBytes t \<and> isMainMenuRunning r"
    if "(client_step E)\<^sup>*\<^sup>* (InMenu, t) (at, r)" for at r
    using menu_stays [OF that dead menu] menu by (auto simp: reader_part_def)
  ultimately show ?thesis using dead menu menuTurn_at_end [OF dead] by simp
qed

section \<open>Everything the client sends\<close>

text \<open>A request, and the texts of a list of requests as they are put on the wire.\<close>

definition is_request :: "json \<Rightarrow> bool" where
  "is_request js \<longleftrightarrow> (\<exists>k \<in> set [LOGIN_MSG, LOGOUT_MSG, REG_MSG, ONE_CHAT_MSG, ADD_FRIEND_MSG, CREATE_GROUP_MSG, ADD_GROUP_MSG,
     GROUP_CHAT_MSG]. jint js ''msgId'' = Some (msg_code k))"

definition sent_requests :: "client_env \<Rightarrow> client_state \<Rightarrow> bool" where
  "sent_requests E s \<longleftrightarrow> (\<exists>texts. sentBytes s = stream_of (\<lambda>text. text @ [NUL]) texts \<and>
     list_all (\<lambda>text. \<exists>js. is_request js \<and> c_dump E js = Some text) texts)"

lemma sent_keeps: "keeps sentBytes m \<Longrightarrow> preserves (sent_requests E) m"
  by (simp add: keeps_def preserves_def sent_requests_def)

lemma keeps_client [keeps]:
  "keeps sentBytes (say x)" "keeps sentBytes (readLine n)" "keeps sentBytes readInt" "keeps sentBytes (getCurrentTime E)"
  "keeps sentBytes sem_post" "keeps sentBytes showCurrentUserData"
  by (simp_all add: keeps_def sem_post_def showCurrentUserData_def)

lemma sent_append:
  assumes "sent_requests E s" and "is_request js" and "c_dump E js = Some printed" and "sentBytes s' = sentBytes s @ printed @ [NUL]"
  shows "sent_requests E s'"
proof -
  from assms(1) obtain texts where "sentBytes s = stream_of (\<lambda>text. text @ [NUL]) texts"
    "list_all (\<lambda>text. \<exists>js. is_request js \<and> c_dump E js = Some text) texts" unfolding sent_requests_def by blast
  then show ?thesis using assms(2-4) unfolding sent_requests_def by (intro exI [of _ "texts @ [printed]"]) auto
qed

lemma sent_sendBytes:
  "is_request js \<Longrightarrow> c_dump E js = Some printed \<Longrightarrow> preserves (sent_requests E) (sendBytes E (printed @ [NUL]))"
proof (rule preservesI)
  fix s
  assume req: "is_request js" "c_dump E js = Some printed" and s: "sent_requests E s"
  show "sent_requests E (exec (sendBytes E (printed @ [NUL])) s)"
  proof (cases "c_send E (sendCalls s)")
    case True
    then show ?thesis by (intro sent_append [OF s req]) simp
  next
    case False
    then show ?thesis using s by (simp add: sent_requests_def)
  qed
qed

lemmas sent_basic = keeps_client [THEN sent_keeps]

lemma sent_sendRequest: "is_request js \<Longrightarrow> preserves (sent_requests E) (sendRequest E complaint js)"
  unfolding sendRequest_def by (intro preserves sent_basic sent_sendBytes)

lemma sent_commands:
  "preserves (sent_requests E) (addfriend E args)" "preserves (sent_requests E) (chat E args)"
  "preserves (sent_requests E) (creategroup E args)" "preserves (sent_requests E) (addgroup E args)"
  "preserves (sent_requests E) (groupchat E args)" "preserves (sent_requests E) (client_logout E)"
proof -
  have upd: "preserves (sent_requests E) (modify (\<lambda>s. s\<lparr>isMainMenuRunning := b\<rparr>))" for b
    by (rule sent_keeps, rule keeps_modify) simp
  show "preserves (sent_requests E) (addfriend E args)" "preserves (sent_requests E) (chat E args)"
    "preserves (sent_requests E) (creategroup E args)" "preserves (sent_requests E) (addgroup E args)"
    "preserves (sent_requests E) (groupchat E args)"
    unfolding addfriend_def chat_def creategroup_def addgroup_def groupchat_def
    by (intro preserves sent_basic sent_sendRequest; simp add: is_request_def json_fields)+
  show "preserves (sent_requests E) (client_logout E)"
    unfolding client_logout_def
    by (intro preserves sent_basic upd, rule sent_sendBytes) (simp_all add: is_request_def json_fields)
qed

lemma sent_menuTurn: "preserves (sent_requests E) (menuTurn E)"
proof -
  have "preserves (sent_requests E) (handler args)" if "commandHandler E cmd = Some handler" for cmd handler args
    using that sent_commands
    by (auto simp: commandHandler_def split: if_splits intro!: preserves sent_basic)
  then show ?thesis
    unfolding menuTurn_def by (intro preserves sent_basic) auto
qed

lemma sent_choiceTurn: "preserves (sent_requests E) (choiceTurn E)"
proof -
  have upd: "preserves (sent_requests E) (modify (\<lambda>s. s\<lparr>isLoginSuccess := b\<rparr>))" for b
    by (rule sent_keeps, rule keeps_modify) simp
  have "preserves (sent_requests E) (loginPrompt E)" unfolding loginPrompt_def
    by (intro preserves sent_basic upd, erule sent_sendBytes [rotated]) (simp add: is_request_def json_fields)
  moreover have "preserves (sent_requests E) (registerPrompt E)" unfolding registerPrompt_def
    by (intro preserves sent_basic upd, erule sent_sendBytes [rotated]) (simp add: is_request_def json_fields)
  ultimately show ?thesis unfolding choiceTurn_def by (intro preserves sent_basic) auto
qed

lemma sent_readTask: "preserves (sent_requests E) (readTaskTurn E received)"
  using readTask_parts(1) [of E received] by (simp add: preserves_def sent_requests_def reader_part_def)

lemma sent_step: "client_step E (a, s) (b, t) \<Longrightarrow> sent_requests E s \<Longrightarrow> sent_requests E t"
proof (induction "(a, s)" "(b, t)" arbitrary: a s b t rule: client_step.induct)
  case (main a s c)
  have wait: "sent_requests E w" if "sem_wait s = Some w" for w
    using that main.prems by (auto simp: sem_wait_def sent_requests_def split: if_splits)
  have upd: "keeps sentBytes afterLogin"
    unfolding afterLogin_def by (intro keeps; rule keeps_modify) simp
  show ?case
  proof (cases a)
    case AtChoice
    then show ?thesis using main preservesD [OF sent_choiceTurn main.prems] by (simp add: run_state_pair)
  next
    case AwaitLogin
    then show ?thesis using main wait preservesD [OF sent_keeps [OF upd]] by (auto simp: run_state_pair)
  next
    case InMenu
    then show ?thesis using main preservesD [OF sent_menuTurn main.prems] by (auto simp: run_state_pair split: if_splits)
  qed (use main wait in auto)
next
  case (receive s bytes)
  then show ?case using preservesD [OF sent_readTask] by blast
qed simp

lemma handler_known: "k \<in> set [LOGIN_MSG, LOGOUT_MSG, REG_MSG, ONE_CHAT_MSG, ADD_FRIEND_MSG, CREATE_GROUP_MSG, ADD_GROUP_MSG,
     GROUP_CHAT_MSG] \<Longrightarrow> map_of (handlerOf S) (msg_code k) \<noteq> None"
  by (auto simp: handlerOf_def)

text \<open>
  C26. Everything the client ever sends is a request the server knows. From its start on, whatever the user types and
  whatever the server answers, and however the two threads of the client take turns, the bytes
  the client has sent, in whatever pieces they arrive, are cut by the client port of the server
  into whole texts with nothing left over, and each is the printed form of a request that the
  server has a handler for.
\<close>

theorem client_stream:
  fixes S :: "('r, 'd, 'e) service_env_scheme"
  assumes start: "client_main N argv input = Running c0" and run: "(client_step E)\<^sup>*\<^sup>* c0 (at, s)"
    and printed: "\<forall>js. case c_dump E js of None \<Rightarrow> True | Some text' \<Rightarrow> sendable_text text'" and reads: "concat reads = sentBytes s"
  shows "\<exists>texts. feed chatOnMessage [] reads = (texts, []) \<and>
    list_all (\<lambda>t. \<exists>js m. c_dump E js = Some t \<and> jint js ''msgId'' = Some m \<and>
      map_of (handlerOf S :: (_ \<times> (_ \<Rightarrow> _ \<Rightarrow> (('r, 'd) service_state, _) state)) list) m \<noteq> None) texts"
proof -
  have reach: "(client_step E)\<^sup>*\<^sup>* (AtChoice, client_init input) (at, s)"
    using run client_main_Running [OF start] by simp
  then have "sent_requests E s"
  proof (induction "(at, s)" arbitrary: at s rule: rtranclp_induct)
    case base
    then show ?case by (auto simp: client_init_def sent_requests_def intro: exI [of _ "[]"])
  next
    case (step y)
    then show ?case by (cases y) (auto intro: sent_step)
  qed
  then obtain texts where sent: "sentBytes s = stream_of (\<lambda>t. t @ [NUL]) texts"
    and each: "list_all (\<lambda>t. \<exists>js. is_request js \<and> c_dump E js = Some t) texts"
    unfolding sent_requests_def by blast
  have "list_all sendable_text texts" using each printed by (fastforce simp: list_all_iff split: option.splits)
  then have "feed chatOnMessage [] reads = (texts, [])"
    by (rule chat_wire.feed_stream) (simp add: reads sent)
  moreover have "list_all (\<lambda>t. \<exists>js m. c_dump E js = Some t \<and> jint js ''msgId'' = Some m \<and>
      map_of (handlerOf S :: (_ \<times> (_ \<Rightarrow> _ \<Rightarrow> (('r, 'd) service_state, _) state)) list) m \<noteq> None) texts"
    using each unfolding list_all_iff is_request_def by (metis handler_known)
  ultimately show ?thesis by blast
qed

section \<open>Witnesses\<close>

definition sampleFriend :: User where
  "sampleFriend = makeUser 4 ''amy'' '''' ''online''"

definition sampleMessage :: json where
  "sampleMessage = JObj [(''id'', JInt 4), (''msg'', JStr ''hi''), (''msgId'', JInt 6), (''name'', JStr ''amy''), (''time'', JStr ''now'')]"

text \<open>A client for whom \<open>{}\<close> is the friend, \<open>m\<close> a message and \<open>a\<close> an answer with an unreadable message.\<close>

definition sampleAck :: json where
  "sampleAck = loginAck defaultUser [''m'', ''x'', ''m''] [] []"

definition sampleClientEnv :: client_env where
  "sampleClientEnv = \<lparr>c_dump = (\<lambda>_. Some ''{}''),
     c_parse = (\<lambda>t. if t = ''{}'' then Some (friendJson sampleFriend) else if t = ''m'' then Some sampleMessage
                    else if t = ''a'' then Some sampleAck else None),
     c_send = (\<lambda>_. True), c_localtime = (\<lambda>_. \<lparr>tm_year = 125, tm_mon = 0, tm_mday = 2, tm_hour = 3, tm_min = 4, tm_sec = 5\<rparr>)\<rparr>"

lemma sampleClient_facts:
  "all_some (map (\<lambda>u. jdump sampleServiceEnv (friendJson u)) [sampleFriend]) = Some [''{}'']"
  "u \<in> set [sampleFriend] \<Longrightarrow> reads_back sampleServiceEnv sampleClientEnv (friendJson u)"
  "all_some (map (groupText sampleServiceEnv) []) = Some []"
  "map (lineOf sampleClientEnv) [''m''] = map Some [ChatLine ''now'' (JInt 4) ''amy'' ''hi'']"
  by (simp_all add: reads_back_def sampleClientEnv_def sampleServiceEnv_def lineOf_def sampleMessage_def json_fields jshown_def)

text \<open>A server whose database has the rows \<open>m\<close>, \<open>x\<close>, \<open>m\<close> for user 9 and that prints only the answer with them.\<close>

definition sampleHangServer :: "(sample_redis, sample_db) service_env" where
  "sampleHangServer = sampleUserEnv\<lparr>jdump := (\<lambda>js. if js = sampleAck then Some ''a'' else None)\<rparr>"

definition sampleHangState :: "(sample_redis, sample_db) service_state" where
  "sampleHangState = sampleService\<lparr>database := [(9, ''m''), (9, ''x''), (9, ''m'')]\<rparr>"

lemma sampleHang_rows:
  "result (OfflineMsgModel_query sampleHangServer 9) sampleHangState = [''m''] @ ''x'' # [''m'']"
proof -
  have "sampleUserQuery (c_str (queryOfflineSql 9)) [(9, ''m''), (9, ''x''), (9, ''m'')] =
      (Rows [[''m''], [''x''], [''m'']], [(9, ''m''), (9, ''x''), (9, ''m'')])" by code_simp
  moreover have "c_str ''m'' = ''m''" "c_str ''x'' = ''x''" by code_simp+
  ultimately show ?thesis
    by (simp add: OfflineMsgModel_query_def mysql_query_def sampleHangServer_def sampleUserEnv_def sampleHangState_def)
qed

lemma sampleHang_lists:
  "result (FriendModel_query sampleHangServer 9) s = []" "result (GroupModel_queryGroups sampleHangServer 9) s = []"
proof -
  have "sampleUserQuery (c_str (queryFriendsSql 9)) d = (Done 1, d)" "sampleUserQuery (c_str (queryGroupsSql 9)) d = (Done 1, d)" for d
    by code_simp+
  then show "result (FriendModel_query sampleHangServer 9) s = []" "result (GroupModel_queryGroups sampleHangServer 9) s = []"
    by (simp_all add: FriendModel_query_def GroupModel_queryGroups_def mysql_query_def sampleHangServer_def sampleUserEnv_def)
qed

theorem login_understood_witness:
  "display (exec (doLoginResponse sampleClientEnv (loginAck defaultUser [''m''] [''{}''] [])) (client_init [])) =
     [UserData defaultUser [friendOf sampleFriend] [], ChatLine ''now'' (JInt 4) ''amy'' ''hi'']"
proof -
  let ?s = "exec (doLoginResponse sampleClientEnv (loginAck defaultUser [''m''] [''{}''] [])) (client_init [])"
  obtain r where r: "(r, ?s) = run_state (doLoginResponse sampleClientEnv (loginAck defaultUser [''m''] [''{}''] [])) (client_init [])"
    by (simp add: run_state_pair)
  have "currentUser (client_init []) = defaultUser" by (simp add: client_init_def)
  moreover have "defaultUser\<lparr>user_id := user_id defaultUser, user_name := user_name defaultUser\<rparr> = defaultUser"
    by simp
  ultimately show ?thesis
    using login_understood [OF sampleClient_facts(1,2,3) _ _ sampleClient_facts(4) r]
    by (simp add: client_init_def)
qed

theorem unreadable_offline_hangs_witness:
  "\<exists>b' s' answer. b' = exec (loginReply sampleHangServer 2 defaultUser 9) sampleHangState \<and> sampleStored (database b') 9 = {#} \<and>
     outbox b' = [(2, answer)] \<and> s' = exec (handleAnswer sampleClientEnv answer) (client_init []) \<and> isLoginSuccess s' \<and>
     mainStep sampleClientEnv (AwaitLogin, s') = None"
proof -
  let ?S = sampleHangServer and ?E = sampleClientEnv and ?b = sampleHangState
  have q: "mysqlQuery ?S = sampleUserQuery" by (simp add: sampleHangServer_def sampleUserEnv_def)
  have doc: "offline_documented (mysqlQuery ?S) sampleStored sampleUsers" "offline_isolated (mysqlQuery ?S) sampleStored"
    unfolding q by (rule sampleUser_documented sampleUser_isolated)+
  have lists: "answeredFriends ?S 9 ?b = []" "answeredGroups ?S 9 ?b = []"
    by (simp_all add: answeredFriends_def answeredGroups_def sampleHang_lists)
  have ack: "loginAck defaultUser ([''m''] @ ''x'' # [''m'']) [] [] = sampleAck" "jdump ?S sampleAck = Some ''a''"
    by (simp_all add: sampleHangServer_def sampleAck_def)
  have served: "result (loginReply ?S 2 defaultUser 9) ?b = Finished"
    unfolding loginReply_def
    by (simp only: result_bind sampleHang_rows sampleHang_lists with_value_def list.map all_some.simps option.case ack sendJson_def finish_def)
      simp
  have reads: "reads_back ?S ?E (loginAck defaultUser ([''m''] @ ''x'' # [''m'']) fs gs)" for fs gs
    by (simp add: reads_back_def sampleHangServer_def sampleClientEnv_def sampleAck_def)
  have bad: "c_parse ?E ''x'' = None" "rwSem (client_init []) = 0" by (simp_all add: sampleClientEnv_def client_init_def)
  have out: "outbox ?b = []" by (simp add: sampleHangState_def sampleService_def)
  note hangs = unreadable_offline_hangs [OF doc served refl sampleHang_rows _ _ _ reads sampleClient_facts(4) bad]
  obtain answer where "outbox (exec (loginReply ?S 2 defaultUser 9) ?b) = [(2, answer)]"
    "isLoginSuccess (exec (handleAnswer ?E answer) (client_init []))"
    "mainStep ?E (AwaitLogin, exec (handleAnswer ?E answer) (client_init [])) = None"
    using hangs unfolding lists out by (auto simp only: list.set empty_iff append_Nil rtranclp.rtrancl_refl)
  moreover have "sampleStored (database (exec (loginReply ?S 2 defaultUser 9) ?b)) 9 = {#}" using hangs by (simp add: lists)
  ultimately show ?thesis by blast
qed

definition sampleTyping :: "string \<Rightarrow> client_state" where
  "sampleTyping line = (client_init (line @ [newline]))\<lparr>isMainMenuRunning := True\<rparr>"

lemma sampleTyping_simps [simp]:
  "in_good (stdin (sampleTyping line))" "in_text (stdin (sampleTyping line)) = line @ [newline]"
  "sentBytes (sampleTyping line) = []"
  by (simp_all add: sampleTyping_def client_init_def)

theorem chat_command_witness:
  "sentBytes (exec (menuTurn sampleClientEnv) (sampleTyping (''chat:'' @ to_string 7 @ '':'' @ ''hi''))) = ''{}'' @ [NUL]"
proof -
  let ?s = "sampleTyping (''chat:'' @ to_string 7 @ '':'' @ ''hi'')"
  let ?S = "sampleServiceEnv\<lparr>jparse := (\<lambda>_. Some (chatRequest sampleClientEnv ?s 7 ''hi''))\<rparr>"
  have *: "newline \<notin> set ''hi''" "NUL \<notin> set ''hi''" by (simp_all add: newline_def NUL_def)
  have l: "length (''chat:'' @ to_string 7 @ '':'' @ ''hi'') < 1024" using length_to_string [of 7] by simp
  have t: "in_text (stdin ?s) = ''chat:'' @ to_string 7 @ '':'' @ ''hi'' @ newline # []" by simp
  have e: "c_send sampleClientEnv (sendCalls ?s)" "c_dump sampleClientEnv (chatRequest sampleClientEnv ?s 7 ''hi'') = Some ''{}''"
    by (simp_all add: sampleClientEnv_def)
  have p: "jparse ?S ''{}'' = Some (chatRequest sampleClientEnv ?s 7 ''hi'')" by simp
  show ?thesis
    using chat_command [OF sampleTyping_simps(1) t * l e p run_state_pair [symmetric]] by (simp only: sampleTyping_simps(3)) simp
qed

theorem fullwidth_rejected_witness:
  "sentBytes (exec (menuTurn sampleClientEnv) (sampleTyping (''chat'' @ fullColon @ ''7'' @ fullColon @ ''hi''))) = []"
proof -
  let ?args = "''7'' @ fullColon @ ''hi''"
  let ?s = "sampleTyping (''chat'' @ fullColon @ ?args)"
  have args: "newline \<notin> set ?args" "NUL \<notin> set ?args" "CHR '':'' \<notin> set ?args" "length ?args < 1000"
    by (simp_all add: newline_def NUL_def fullColon_def)
  have typed: "in_text (stdin ?s) = ''chat'' @ fullColon @ ?args @ newline # []" by simp
  have cmd: "''chat'' \<in> {''chat'', ''creategroup'', ''groupchat''}" by simp
  show ?thesis
    using fullwidth_rejected [OF sampleTyping_simps(1) typed cmd args run_state_pair [symmetric]]
    by (simp only: sampleTyping_simps(3))
qed


theorem menu_spins_witness:
  "\<exists>t. run_state (menuTurn sampleClientEnv) ((client_init [])\<lparr>isMainMenuRunning := True\<rparr>) = (Returned, t) \<and> mainMenu sampleClientEnv t = None"
proof -
  let ?s = "(client_init [])\<lparr>isMainMenuRunning := True\<rparr>"
  have "trimCopy [] = []" "splitCommand [] = ([], [])" by (simp_all add: trimCopy_def splitCommand_def fullColon_def)
  then obtain t where turn: "run_state (menuTurn sampleClientEnv) ?s = (Returned, t)" and menu: "isMainMenuRunning t"
    by (simp add: menuTurn_def run_state_pair cin_getline_def client_init_def)
  have "newline \<notin> set (in_text (stdin ?s))" by (simp add: client_init_def)
  then show ?thesis using menu_spins [OF _ turn menu] turn by blast
qed

theorem client_stream_witness:
  "\<exists>texts. feed chatOnMessage [] [sentBytes (exec (choiceTurn sampleClientEnv) (client_init (''2'' @ newline # ''bob'' @ newline # ''x'' @ [newline])))] =
     (texts, [])"
proof -
  let ?s = "client_init (''2'' @ newline # ''bob'' @ newline # ''x'' @ [newline])"
  have "client_step sampleClientEnv (AtChoice, ?s) (result (choiceTurn sampleClientEnv) ?s, exec (choiceTurn sampleClientEnv) ?s)"
    by (rule client_step.main) (simp add: run_state_pair)
  then have reach: "(client_step sampleClientEnv)\<^sup>*\<^sup>* (AtChoice, ?s) (result (choiceTurn sampleClientEnv) ?s, exec (choiceTurn sampleClientEnv) ?s)"
    by (rule r_into_rtranclp)
  have printed: "\<forall>js. case c_dump sampleClientEnv js of None \<Rightarrow> True | Some t \<Rightarrow> sendable_text t"
    by (simp add: sampleClientEnv_def sendable_text_def NUL_def)
  have "client_main \<lparr>cs_socket = True, cs_connect = (\<lambda>ip port. True)\<rparr> [''ChatClient'', ''127.0.0.1'', ''8000'']
      (''2'' @ newline # ''bob'' @ newline # ''x'' @ [newline]) = Running (AtChoice, ?s)" by (simp add: client_main_def Let_def)
  from client_stream [OF this reach printed, where S = sampleServiceEnv and reads = "[sentBytes (exec (choiceTurn sampleClientEnv) ?s)]"]
  show ?thesis by (auto simp del: feed.simps)

qed

end
