(* ===== verification/RedisChannel.thy ===== *)
theory RedisChannel
  imports MessageRouting
begin

text \<open>
  The connection side of the class \<open>Redis\<close> (\<open>src/server/redis/redis.cpp\<close>): \<open>connect\<close>, and the
  thread that sends the queued subscriptions and hands published messages to
  \<open>handleRedisSubscribeMessage\<close>. hiredis is not part of the repository: what its calls return
  are arguments here.
\<close>

section \<open>Connecting\<close>

text \<open>The three contexts; \<open>redisConnect\<close> is called with this host and port for each.\<close>

record redis_contexts =
  publish_ctx :: bool
  subscribe_ctx :: bool
  command_ctx :: bool

definition redisTargetOf :: "environment \<Rightarrow> string \<times> cint" where
  "redisTargetOf env = (c_str (getEnvOrDefault env ''CHAT_REDIS_HOST'' ''127.0.0.1''), getEnvIntOrDefault env ''CHAT_REDIS_PORT'' 6379)"

text \<open>
  \<open>opens k\<close>: the \<open>k\<close>-th call of \<open>redisConnect\<close> does not return null. The result says whether
  \<open>connect\<close> succeeds, and so starts the observing thread.
\<close>

definition redis_connect :: "(nat \<Rightarrow> bool) \<Rightarrow> bool \<times> redis_contexts" where
  "redis_connect opens =
     (let ctx = \<lparr>publish_ctx = False, subscribe_ctx = False, command_ctx = False\<rparr> in
      if \<not> opens 0 then (False, ctx)
      else let ctx = ctx\<lparr>publish_ctx := True\<rparr> in
      if \<not> opens 1 then (False, ctx)
      else let ctx = ctx\<lparr>subscribe_ctx := True\<rparr> in
      if \<not> opens 2 then (False, ctx)
      else (True, ctx\<lparr>command_ctx := True\<rparr>))"

text \<open>
  The destructor: the contexts that are freed, by their place in the class. Those that
  \<open>connect\<close> has opened are freed, also when it gave up half way.
\<close>

definition redis_destroy :: "redis_contexts \<Rightarrow> nat list" where
  "redis_destroy ctx =
     (if publish_ctx ctx then [0] else []) @ (if subscribe_ctx ctx then [1] else []) @ (if command_ctx ctx then [2] else [])"

lemma destroy_connected: "redis_destroy (snd (redis_connect opens)) = takeWhile opens [0, 1, 2]"
  by (simp add: redis_destroy_def redis_connect_def)

section \<open>The observing thread\<close>

text \<open>
  What is done with one reply of the subscribing connection. Its third element is read without
  looking at the type or the number of elements, so another kind of reply, an error for
  instance, is read out of bounds: \<open>Fault\<close>.
\<close>

datatype reply_use = Notify cint string | Ignore | Fault

fun useReply :: "redis_reply \<Rightarrow> reply_use" where
  "useReply (RArray elements) =
     (if length elements < 3 then Fault
      else
        case reply_str (elements ! 2) of
          None \<Rightarrow> Ignore
        | Some payload \<Rightarrow>
            (case reply_str (elements ! 1) of
               None \<Rightarrow> Fault
             | Some channel \<Rightarrow> Notify (atoi channel) payload))"
| "useReply _ = Fault"

text \<open>What \<open>poll\<close> and \<open>redisBufferRead\<close> give: an error, nothing in 200 ms, or replies.\<close>

datatype poll_event = PollError | PollTimeout | ReadError | Arrived "redis_reply list"

datatype observe_end = Again | Quit | Crash

primrec useReplies ::
  "('r, 'd, 'e) service_env_scheme \<Rightarrow> redis_reply list \<Rightarrow> (('r, 'd, 'x) service_state_scheme, observe_end) state" where
  "useReplies E [] = State_Monad.return Again"
| "useReplies E (r # rs) =
     (case useReply r of
        Notify channel payload \<Rightarrow> do { handleRedisSubscribeMessage E channel payload; useReplies E rs }
      | Ignore \<Rightarrow> useReplies E rs
      | Fault \<Rightarrow> State_Monad.return Crash)"

text \<open>
  One turn of the loop. \<open>writes\<close>: \<open>redisBufferWrite\<close> gets the commands out. Returned with the
  end of the turn are the commands appended to the connection.
\<close>

definition observeTurn ::
  "('r, 'd, 'e) service_env_scheme \<Rightarrow> bool \<Rightarrow> poll_event \<Rightarrow>
   (('r, 'd, 'x) service_state_scheme, observe_end \<times> string list) state" where
  "observeTurn E writes event = do {
     commands \<leftarrow> gets cmdQueue;
     modify (\<lambda>s. s\<lparr>cmdQueue := []\<rparr>);
     r \<leftarrow> (if \<not> writes then State_Monad.return Quit
          else case event of
            PollError \<Rightarrow> State_Monad.return Quit
          | PollTimeout \<Rightarrow> State_Monad.return Again
          | ReadError \<Rightarrow> State_Monad.return Quit
          | Arrived replies \<Rightarrow> useReplies E replies);
     State_Monad.return (r, commands)
   }"

section \<open>Published messages\<close>

lemma subscribe_settled:
  fixes s :: "('r, 'd, 'x) service_state_scheme"
  assumes inv: "delivery_inv s" and s': "s' = exec (handleRedisSubscribeMessage E u msg) s"
  shows "settled E u msg s s'" and "delivery_inv s'"
proof -
  define t where "t = exec (deliverToLocalUser E u msg) s"
  note eff = deliver_effect [OF inv t_def]
  have "settled E u msg s s' \<and> delivery_inv s'"
  proof (cases "reachable_here E s u")
    case None
    then have s'_t: "s' = exec (fallBack E u msg) t" using eff(1) by (simp add: s' handleRedisSubscribeMessage_def t_def)
    then show ?thesis using None eff fallBack_effect [of E u msg t] obs_dbD [OF eff(3)]
        delivery_inv_service [of t s'] by (simp add: settled_def)
  next
    case (Some c)
    then have "s' = exec (increment LocalDelivery) t" using eff(1) by (simp add: s' handleRedisSubscribeMessage_def t_def)
    then have q: "quiet s' = quiet t" by simp
    show ?thesis using Some eff obs_dbD [OF eff(3)] quiet_obs [OF q] handed_quiet_after [OF q, of E c msg s]
        delivery_inv_quiet [OF q] by (simp add: settled_def)
  qed
  then show "settled E u msg s s'" "delivery_inv s'" by blast+
qed

text \<open>The push of a published message, as Redis documents it.\<close>

definition push :: "cint \<Rightarrow> string \<Rightarrow> redis_reply" where
  "push u msg = RArray [RString ''message'', RString (to_string u), RString msg]"

lemma useReply_push: "NUL \<notin> set msg \<Longrightarrow> useReply (push u msg) = Notify u msg"
  by (simp add: push_def c_str_id)

lemma observe_pushes:
  fixes s :: "('r, 'd, 'x) service_state_scheme"
  assumes "list_all (\<lambda>(u, msg). NUL \<notin> set msg) ms"
  shows "run_state (observeTurn E True (Arrived (map (\<lambda>(u, msg). push u msg) ms))) s =
    ((Again, cmdQueue s), exec (for_each ms (\<lambda>(u, msg). handleRedisSubscribeMessage E u msg)) (s\<lparr>cmdQueue := []\<rparr>))"
proof -
  have "run_state (useReplies E (map (\<lambda>(u, msg). push u msg) ms)) t =
      (Again, exec (for_each ms (\<lambda>(u, msg). handleRedisSubscribeMessage E u msg)) t)" for t :: "('r, 'd, 'x) service_state_scheme"
    using assms by (induction ms arbitrary: t) (auto simp: useReply_push run_state_pair split_beta)
  then show ?thesis by (simp add: observeTurn_def run_state_pair)
qed

end
