(* ===== verification/NodeLoop.thy ===== *)
theory NodeLoop
  imports Servers RedisChannel
begin

text \<open>
  A running node: the callbacks that \<open>ChatServer\<close>, \<open>ClusterServer\<close> and \<open>ClusterRouter\<close>
  register with their event loops (\<open>src/server/chatserver.cpp\<close>,
  \<open>src/server/clusterserver.cpp\<close>, \<open>src/server/clusterrouter.cpp\<close>), the functors they queue
  there, the heartbeat thread of the registry and the interrupt handler, as one step relation.
  A callback is one step: what happens between the blocks of callbacks on different threads
  is in \<open>ChannelThreads\<close> and \<open>DispatchThreads\<close>.

  The locale \<open>node_law\<close> says what a predicate on the service must withstand to be an invariant
  of a node; the one pass over all handlers is done in it.
\<close>

section \<open>The steps of a node\<close>

text \<open>A callback on the thread \<open>l\<close>, and a step of the service on it.\<close>

definition on_thread :: "loop_id \<Rightarrow> (('r, 'd) server, 'a) state \<Rightarrow> (('r, 'd) server, 'a) state" where
  "on_thread l m = do {
     on_service (modify (\<lambda>s. s\<lparr>currentLoop := l\<rparr>));
     m
   }"

lemma exec_on_thread [simp]:
  "exec (on_thread l m) v = exec m (v\<lparr>service := (service v)\<lparr>currentLoop := l\<rparr>\<rparr>)"
  by (simp add: on_thread_def)

text \<open>The flush functor of the loop \<open>l\<close>, once the loop has taken it from its queue.\<close>

definition runFlush :: "('r, 'd, 'e) service_env_scheme \<Rightarrow> loop_id \<Rightarrow> (('r, 'd, 'x) service_state_scheme, unit) state" where
  "runFlush E l = do {
     modify (\<lambda>s. s\<lparr>flushQueue := remove1 l (flushQueue s)\<rparr>);
     drainLocalDeliveriesInLoop E l
   }"

text \<open>The \<open>n\<close>-th of the functors the router has queued on its loops.\<close>

definition runQueued :: "nat \<Rightarrow> (('r, 'x) router_state_scheme, unit) state" where
  "runQueued n = do {
     queue \<leftarrow> gets loopQueue;
     modify (\<lambda>s. s\<lparr>loopQueue := take n queue @ drop (Suc n) queue\<rparr>);
     runFunctor (snd (queue ! n))
   }"

text \<open>The connection callback of a channel, and what the socket has become.\<close>

definition channelEvent :: "nat \<Rightarrow> conn \<Rightarrow> bool \<Rightarrow> (('r, 'x) router_state_scheme, unit) state" where
  "channelEvent i c connected = do {
     modify (\<lambda>s. s\<lparr>connUp := (connUp s)(c := connected)\<rparr>);
     handleConnection i c
   }"

text \<open>
  \<open>isClient c\<close>: the connection was accepted by \<open>ChatServer\<close>, not by \<open>ClusterServer\<close>. A loop
  takes the functors queued on it in their order. The heartbeat, the thread that reads from
  Redis and the interrupt handler run on threads of their own.
\<close>

inductive node_act ::
  "('r, 'd, 'e) service_env_scheme \<Rightarrow> (conn \<Rightarrow> bool) \<Rightarrow> ('r, 'd) server \<Rightarrow> ('r, 'd) server \<Rightarrow> bool"
  for E isClient where
  client_event: "isClient c \<Longrightarrow>
    node_act E isClient v (exec (on_thread (connLoop E c) (chatServerOnConnection E c connected)) v)"
| client_read: "isClient c \<Longrightarrow>
    node_act E isClient v (exec (on_thread (connLoop E c) (chatServerOnMessage E c bytes)) v)"
| peer_event: "\<not> isClient c \<Longrightarrow>
    node_act E isClient v (exec (on_thread (connLoop E c) (clusterServerOnConnection c connected)) v)"
| peer_read: "\<not> isClient c \<Longrightarrow>
    node_act E isClient v (exec (on_thread (connLoop E c) (clusterServerOnMessage E c bytes)) v)"
| flush: "l \<in> set (flushQueue (service v)) \<Longrightarrow> node_act E isClient v (exec (on_thread l (on_service (runFlush E l))) v)"
| queued: "n < length (loopQueue (service v)) \<Longrightarrow> fst (loopQueue (service v) ! n) = l \<Longrightarrow>
    l \<notin> fst ` set (take n (loopQueue (service v))) \<Longrightarrow>
    node_act E isClient v (exec (on_thread l (on_service (runQueued n))) v)"
| channel_event: "node_act E isClient v (exec (on_thread l (on_service (channelEvent i c connected))) v)"
| written: "node_act E isClient v (exec (on_thread l (on_service (handleWriteComplete i))) v)"
| high_water: "node_act E isClient v (exec (on_thread l (on_service (handleHighWaterMark i))) v)"
| published: "l \<notin> range (connLoop E) \<Longrightarrow>
    node_act E isClient v (exec (on_thread l (on_service (observeTurn E writes event))) v)"
| heartbeat: "l \<notin> range (connLoop E) \<Longrightarrow> node_act E isClient v (exec (on_thread l (on_service (heartbeatTick E))) v)"
| interrupt: "node_act E isClient v (exec (on_thread l (resetHandler E)) v)"

text \<open>A node shares Redis and the database with others, who change them between its own steps.\<close>

inductive node_step ::
  "('r, 'd, 'e) service_env_scheme \<Rightarrow> (conn \<Rightarrow> bool) \<Rightarrow> ('r, 'd) server \<Rightarrow> ('r, 'd) server \<Rightarrow> bool"
  for E isClient where
  own: "node_act E isClient v v' \<Longrightarrow> node_step E isClient v v'"
| others: "node_step E isClient v (v\<lparr>service := (service v)\<lparr>redisSrv := r, database := d\<rparr>\<rparr>)"

text \<open>The states a node can be in: \<open>main\<close> has started it, and then it ran.\<close>

definition started_node ::
  "('r, 'd, 'e) service_env_scheme \<Rightarrow> environment \<Rightarrow> loop_id \<Rightarrow> loop_id list \<Rightarrow> string list \<Rightarrow>
   ('r, 'd) service_state \<Rightarrow> ('r, 'd) server" where
  "started_node E env base pool argv s =
     \<lparr>service = exec (serverMain E env base pool argv) s, contexts = (\<lambda>_. NoValue), shutdowns = []\<rparr>"

inductive node_reachable ::
  "('r, 'd, 'e) service_env_scheme \<Rightarrow> (conn \<Rightarrow> bool) \<Rightarrow> ('r, 'd) server \<Rightarrow> bool" for E isClient where
  started: "result (serverMain E env base pool argv) s \<Longrightarrow> node_reachable E isClient (started_node E env base pool argv s)"
| stepped: "node_reachable E isClient v \<Longrightarrow> node_step E isClient v v' \<Longrightarrow> node_reachable E isClient v'"

text \<open>
  The start of a node up to the point where the registry knows who it is; from there on it
  registers, lists the other nodes and warms the channels to them up.
\<close>

definition bootMeta ::
  "('r, 'd, 'e) service_env_scheme \<Rightarrow> environment \<Rightarrow> server_addresses \<Rightarrow> ('r, 'd, 'x) service_state_scheme \<Rightarrow> NodeMeta" where
  "bootMeta E env a s =
     (let nid = sa_interIp a @ '':'' @ show_int (uint (sa_interPort a));
          now = result (readSystemMs E) (exec (service_init env) s)
      in \<lparr>nodeId = nid, instanceId = nid @ ''#'' @ show_int now, clientIp = sa_ip a, clientPort = sa_port a,
          interIp = sa_interIp a, interPort = sa_interPort a, heartbeatMs = now\<rparr>)"

definition bootState ::
  "('r, 'd, 'e) service_env_scheme \<Rightarrow> environment \<Rightarrow> loop_id \<Rightarrow> loop_id list \<Rightarrow> server_addresses \<Rightarrow>
   ('r, 'd, 'x) service_state_scheme \<Rightarrow> ('r, 'd, 'x) service_state_scheme" where
  "bootState E env base pool a s =
     (let interval = sint (getEnvIntOrDefault env ''CHAT_HEARTBEAT_INTERVAL_MS'' 3000)
      in (exec (router_init env base pool) ((exec (readSystemMs E) (exec (service_init env) s))
        \<lparr>serviceNode := bootMeta E env a s, hasRegistry := True, hasRouter := True, running := False,
         userRouteCache := Map.empty, nodeMetaCache := Map.empty\<rparr>))
        \<lparr>selfNode := bootMeta E env a s, heartbeatIntervalMs := interval,
         heartbeatTimeoutMs := sint (getEnvIntOrDefault env ''CHAT_HEARTBEAT_TIMEOUT_MS'' 10000),
         routeCacheTtlMs := clampTtl interval\<rparr>)"

lemma exec_serverMain:
  fixes E :: "('r, 'd, 'e) service_env_scheme" and s :: "('r, 'd) service_state"
  assumes "addressesOf env argv = Some a"
  defines "self \<equiv> bootMeta E env a s"
  shows "exec (serverMain E env base pool argv) s =
    exec (do {
      cacheNode E self;
      ok \<leftarrow> registerNode E self (c_div (sint (getEnvIntOrDefault env ''CHAT_HEARTBEAT_TIMEOUT_MS'' 10000)) 1000 + 2);
      ok \<leftarrow> (if ok then do { modify (\<lambda>s. s\<lparr>running := True\<rparr>); State_Monad.return True } else State_Monad.return False);
      do_when ok (do {
        nodes \<leftarrow> listNodes E;
        for_each nodes (\<lambda>meta. do {
          isSelf \<leftarrow> gets (\<lambda>s. isSelfNode s (nodeId meta));
          router \<leftarrow> gets hasRouter;
          do_when (\<not> isSelf \<and> router) (prewarmNode E meta)
        })
      })
    }) (bootState E env base pool a s)"
  by (simp add: serverMain_def assms initNode_def registry_init_def bootState_def bootMeta_def Let_def)

section \<open>What a node asks of Redis\<close>

text \<open>The commands of a node: it binds users to itself only.\<close>

inductive node_command :: "NodeMeta \<Rightarrow> string list \<Rightarrow> bool" for self where
  set: "node_command self [''SET'', sessionKey u, c_str (sessionValue (nodeId self) (instanceId self)), ''NX'']"
| get: "node_command self [''GET'', k]"
| del: "node_command self [''DEL'', k]"
| sadd: "node_command self [''SADD'', k, x]"
| srem: "node_command self [''SREM'', k, x]"
| smembers: "node_command self [''SMEMBERS'', k]"
| hmset: "node_command self (''HMSET'' # k # fvs)"
| hgetall: "node_command self [''HGETALL'', k]"
| expire: "node_command self [''EXPIRE'', k, n]"

section \<open>The laws of an invariant\<close>

text \<open>The part of the service that is more than clocks, caches, counters and logs.\<close>

definition node_core :: "('r, 'd, 'x) service_state_scheme \<Rightarrow> 'r \<times> NodeMeta \<times> ShardChannel list \<times> (string \<times> nat) list \<times>
    (cint \<times> conn) list list \<times> (loop_id \<rightharpoonup> LocalLoopDispatcher) \<times> nat \<times> loop_id list \<times> bool \<times> bool \<times> (conn \<times> string) list" where
  "node_core s = (redisSrv s, selfNode s, channels s, connMap s, connBuckets s, localDispatchers s,
     localDeliveryQueueLimit s, flushQueue s, hasRegistry s, hasRouter s, outbox s)"

named_theorems node_rules "operations that keep an invariant of a node"

locale node_law =
  fixes E :: "('r, 'd, 'e) service_env_scheme"
    and P :: "('r, 'd) service_state \<Rightarrow> bool"
  assumes core: "P s \<Longrightarrow> node_core t = node_core s \<Longrightarrow> P t"
    and redis: "P s \<Longrightarrow> node_command (selfNode s) argv \<Longrightarrow> P (s\<lparr>redisSrv := snd (redisCommand E argv (redisSrv s))\<rparr>)"
    and beat: "P s \<Longrightarrow> P (s\<lparr>selfNode := (selfNode s)\<lparr>heartbeatMs := now\<rparr>\<rparr>)"
    and send: "preserves P (connSend c m)"
    and table: "preserves P (addLocalConnection u c)" "preserves P (removeLocalConnection u)"
          "preserves P (removeLocalConnectionByConn c)"
    and enqueue: "preserves P (enqueueLocalDelivery E c m)"
    and route: "preserves P (prewarmNode E meta)" "preserves P (sendOneChat E meta self u m trace)"
          "preserves P (sendGroupChat E meta self us m trace)" "preserves P closeAll"
    and callback: "preserves P (handleConnection i c)" "preserves P (handleWriteComplete i)"
          "preserves P (handleHighWaterMark i)" "preserves P (runFunctor f)"
    and flushing: "P s \<Longrightarrow> l \<in> set (flushQueue s) \<Longrightarrow> P (exec (runFlush E l) s)"
begin

lemmas [node_rules] = send table enqueue route callback

lemma core_only [node_rules]:
  "preserves P (add_metric k v)" "preserves P (increment k)" "preserves P (readSteadyNs E)" "preserves P (readSystemMs E)"
  "preserves P (noteRouted n us m)" "preserves P stop" "preserves P (eraseCachedUserNode u)" "preserves P (eraseCachedNode n)"
  "preserves P (modify (\<lambda>s. s\<lparr>userRouteCache := Map.empty, nodeMetaCache := Map.empty\<rparr>))"
  "preserves P (modify (\<lambda>s. s\<lparr>userRouteCache := (userRouteCache s)(u := a)\<rparr>))"
  "preserves P (modify (\<lambda>s. s\<lparr>nodeMetaCache := (nodeMetaCache s)(n := b)\<rparr>))"
  "preserves P (modify (\<lambda>s. s\<lparr>running := r\<rparr>))" "preserves P (modify (\<lambda>s. s\<lparr>cmdQueue := q\<rparr>))"
  "preserves P (modify (\<lambda>s. s\<lparr>loopQueue := lq\<rparr>))" "preserves P (modify (\<lambda>s. s\<lparr>connUp := g s\<rparr>))"
  "preserves P (modify (\<lambda>s. s\<lparr>currentLoop := l\<rparr>))"
  by (rule preservesI, erule core, simp add: node_core_def noteRouted_def stop_def eraseCachedUserNode_def eraseCachedNode_def)+

lemma sql: "P s \<Longrightarrow> P (db_after E q s)"
  by (erule core) (simp add: node_core_def db_after_def)

lemma models [node_rules]:
  "preserves P (UserModel_insert E u)" "preserves P (UserModel_query E i)" "preserves P (UserModel_updateState E u)"
  "preserves P (UserModel_resetState E)" "preserves P (FriendModel_insert E i j)" "preserves P (FriendModel_query E i)"
  "preserves P (GroupModel_createGroup E g)" "preserves P (GroupModel_addGroup E i j role)"
  "preserves P (GroupModel_queryGroupUsers E i j)" "preserves P (OfflineMsgModel_insert E i m)"
  "preserves P (OfflineMsgModel_remove E i)" "preserves P (OfflineMsgModel_query E i)"
  "preserves P (GroupModel_queryGroups E i)"
proof -
  have "preserves P (fillGroups E gs)" for gs
  proof (rule preservesI)
    fix s
    assume "P s"
    then show "P (exec (fillGroups E gs) s)" by (induction gs arbitrary: s) (simp_all add: sql Let_def)
  qed
  then show "preserves P (GroupModel_queryGroups E i)" by (simp add: preserves_def GroupModel_queryGroups_def sql)
qed (rule preservesI, simp add: sql)+

text \<open>The registry.\<close>

lemma command: "(\<And>self. node_command self argv) \<Longrightarrow> preserves P (redisCmd E argv)"
  by (rule preservesI) (simp add: redis)

lemma redis_ops [node_rules]:
  "preserves P (registerNode E meta ttl)" "preserves P (unregisterNode E n)" "preserves P (getNode E n)"
  "preserves P (getNodeIds E)" "preserves P (unbindUserNode E u n)" "preserves P (getUserSession E u)"
  "preserves P (getNodeUsers E n)"
  unfolding registerNode_def unregisterNode_def getNode_def getNodeIds_def unbindUserNode_def getUserSession_def getNodeUsers_def
  by (intro preserves node_rules command node_command.intros)+

lemma caches [node_rules]:
  "preserves P (getCachedUserNode E u)" "preserves P (cacheUserNode E u n i)" "preserves P (getCachedNode E n)"
  "preserves P (cacheNode E meta)"
proof -
  have "node_core (exec (getCachedUserNode E u) s) = node_core s" "node_core (exec (cacheUserNode E u n i) s) = node_core s"
    "node_core (exec (getCachedNode E n) s) = node_core s" "node_core (exec (cacheNode E meta) s) = node_core s"
    for s :: "('r, 'd) service_state"
    by (simp_all add: exec_getCachedUserNode exec_getCachedNode node_core_def split: option.split)
  then show "preserves P (getCachedUserNode E u)" "preserves P (cacheUserNode E u n i)" "preserves P (getCachedNode E n)"
    "preserves P (cacheNode E meta)"
    by (auto intro!: preservesI elim: core)
qed

lemma lookups [node_rules]:
  "preserves P (queryNode E n)" "preserves P (dropStaleSession E u n)" "preserves P (queryUserNode E u)"
  "preserves P (resolveUserNode E u)" "preserves P (queryNodes E ns)" "preserves P (listNodes E)"
proof -
  show node: "preserves P (queryNode E n)" for n
    unfolding queryNode_def by (intro preserves node_rules)
  show drop: "preserves P (dropStaleSession E u n)" for u n
    unfolding dropStaleSession_def by (intro preserves node_rules)
  show user: "preserves P (queryUserNode E u)"
    unfolding queryUserNode_def by (intro preserves node_rules node drop)
  show "preserves P (resolveUserNode E u)"
    unfolding resolveUserNode_def by (intro preserves node_rules node user)
  show nodes: "preserves P (queryNodes E ns)" for ns
  proof (induction ns)
    case (Cons n ns)
    show ?case unfolding queryNodes.simps by (intro preserves node_rules node Cons.IH)
  qed (simp add: preserves_return)
  show "preserves P (listNodes E)"
    unfolding listNodes_def by (intro preserves node_rules nodes)
qed

lemma bindings [node_rules]:
  "preserves P (bindUser E u)" "preserves P (unbindUser E u)" "preserves P (cleanupSelf E)" "preserves P (heartbeatTick E)"
proof -
  show "preserves P (bindUser E u)"
  proof (rule preservesI)
    fix s
    assume "P s"
    let ?self = "selfNode s"
    let ?s = "exec (redisCmd E [''SET'', sessionKey u, c_str (sessionValue (nodeId ?self) (instanceId ?self)), ''NX'']) s"
    have "P ?s" using redis [OF \<open>P s\<close> node_command.set] by simp
    then have "P (exec (bindUserNode E u (nodeId ?self) (instanceId ?self)) s)"
      unfolding bindUserNode_def exec_bind
      by (rule preservesD [rotated]) (intro preserves command node_command.intros)
    then show "P (exec (bindUser E u) s)"
      unfolding bindUser_def exec_bind result_gets exec_gets
      by (rule preservesD [rotated]) (intro preserves node_rules)
  qed
  show "preserves P (unbindUser E u)" "preserves P (cleanupSelf E)"
    unfolding unbindUser_def cleanupSelf_def by (intro preserves node_rules)+
  have "preserves P (modify (\<lambda>s. s\<lparr>selfNode := (selfNode s)\<lparr>heartbeatMs := now\<rparr>\<rparr>))" for now
    by (rule preservesI) (simp add: beat)
  then show "preserves P (heartbeatTick E)" unfolding heartbeatTick_def by (intro preserves node_rules)
qed

text \<open>The handlers.\<close>

lemma deliver [node_rules]: "preserves P (getLocalConnection u)" "preserves P (deliverToLocalUser E u msg)"
  unfolding deliverToLocalUser_def getLocalConnection_def by (intro preserves node_rules)+

lemma wrapped [node_rules]:
  "preserves P m \<Longrightarrow> preserves P (registered b m x)" "(\<And>z. preserves P (f z)) \<Longrightarrow> preserves P (with_value y f)"
  "preserves P n \<Longrightarrow> preserves P (finish n)"
  by (auto simp: registered_def with_value_def finish_def preserves_def split: option.split)

lemma basics [node_rules]:
  "preserves P (buildTraceId E u)" "preserves P (fallBack E u m)" "preserves P (releaseUser E u)" "preserves P (setOffline E u)"
  "preserves P (releaseStray E u)" "preserves P (resolveTimed E u)" "preserves P (sendJson E c v)"
  unfolding buildTraceId_def fallBack_def releaseUser_def setOffline_def releaseStray_def resolveTimed_def sendJson_def
  by (intro preserves node_rules)+

lemma accounts [node_rules]:
  "preserves P (login E c js)" "preserves P (reg E c js)" "preserves P (logout E c js)"
  "preserves P (clientCloseException E c)" "preserves P (addFriend E c js)"
  "preserves P (createGroup E c js)" "preserves P (addGroup E c js)"
  unfolding login_def admitUser_def loginReply_def reg_def logout_def clientCloseException_def addFriend_def createGroup_def
    addGroup_def
  by (intro preserves node_rules)+

lemma one_chat [node_rules]: "preserves P (oneChat E c js)"
  unfolding oneChat_def routeOneChat_def tryRemote_def sendRemote_def Let_def
  by (intro preserves node_rules)

lemma members [node_rules]: "preserves P (splitLocal us)" "preserves P (resolveMembers E us nodes off)"
proof -
  show "preserves P (splitLocal us)"
  proof (induction us)
    case (Cons u us)
    show ?case unfolding splitLocal.simps by (intro preserves node_rules Cons.IH)
  qed (simp add: preserves_return)
  show "preserves P (resolveMembers E us nodes off)"
  proof (induction us arbitrary: nodes off)
    case (Cons u us)
    show ?case unfolding resolveMembers.simps resolveMember_def by (intro preserves node_rules Cons.IH)
  qed (simp add: preserves_return)
qed

lemma to_nodes [node_rules]: "preserves P (sendToNodes E u msg ns off)"
proof (induction ns arbitrary: off)
  case (Cons n ns)
  show ?case unfolding sendToNodes.simps sendToNode_def offerToNode_def by (intro preserves node_rules Cons.IH)
qed (simp add: preserves_return)

lemma group_chat [node_rules]: "preserves P (groupChat E c js)"
  unfolding groupChat_def by (intro preserves node_rules)

lemma cluster [node_rules]:
  "preserves P (handleClusterOneChatFrame E u p)" "preserves P (handleClusterMessage E js)"
  "preserves P (handleRedisSubscribeMessage E u p)"
proof -
  show frame: "preserves P (handleClusterOneChatFrame E u p)" for u p
    unfolding handleClusterOneChatFrame_def by (intro preserves node_rules)
  show "preserves P (handleRedisSubscribeMessage E u p)"
    unfolding handleRedisSubscribeMessage_def by (intro preserves node_rules)
  show "preserves P (handleClusterMessage E js)"
    unfolding handleClusterMessage_def handleClusterOneChat_def handleClusterGroupChat_def deliverOrStore_def
    by (intro preserves node_rules frame)
qed

lemma messages [node_rules]: "preserves P (handleText E c text)" "preserves P (handleEvent E e)"
proof -
  have "preserves P (getHandler E n c js)" for n js
    unfolding getHandler_def handlerOf_def by (simp add: preserves_return node_rules)
  then show "preserves P (handleText E c text)" unfolding handleText_def by (intro preserves)
  show "preserves P (handleEvent E e)"
    unfolding handleEvent_def by (cases e) (simp_all add: node_rules, intro preserves node_rules)
qed

lemma observe [node_rules]: "preserves P (observeTurn E writes event)"
proof -
  have replies: "preserves P (useReplies E rs)" for rs
  proof (induction rs)
    case (Cons r rs)
    show ?case unfolding useReplies.simps
      by (cases "useReply r") (simp_all add: preserves_return Cons.IH, intro preserves node_rules Cons.IH)
  qed (simp add: preserves_return)
  have "preserves P (case event of PollError \<Rightarrow> State_Monad.return Quit | PollTimeout \<Rightarrow> State_Monad.return Again
     | ReadError \<Rightarrow> State_Monad.return Quit | Arrived rs \<Rightarrow> useReplies E rs)"
    by (cases event) (simp_all add: preserves_return replies)
  then show ?thesis unfolding observeTurn_def by (intro preserves node_rules)
qed

lemma shutdown [node_rules]: "preserves P (reset E)"
  unfolding reset_def by (intro preserves node_rules)

lemma functors [node_rules]: "preserves P (runQueued n)" "preserves P (channelEvent i c b)"
  unfolding runQueued_def channelEvent_def by (intro preserves node_rules)+

text \<open>The invariant holds once \<open>main\<close> has run, and every step of a node keeps it.\<close>

lemma boot:
  assumes "addressesOf env argv = Some a" and "P (bootState E env base pool a s)"
  shows "P (exec (serverMain E env base pool argv) s)"
  unfolding exec_serverMain [OF assms(1)]
  by (rule preservesD [where P = P, OF _ assms(2)]) (intro preserves node_rules)

lemma act:
  assumes "node_act E isClient v v'" and s: "P (service v)"
  shows "P (service v')"
proof -
  have t: "P ((service v)\<lparr>currentLoop := k\<rparr>)" for k by (rule core [OF s]) (simp add: node_core_def)
  have each: "P (exec (for_each xs f) ((service v)\<lparr>currentLoop := k\<rparr>))"
    if "\<And>x. preserves P (f x)" for xs and f :: "'z \<Rightarrow> (('r, 'd) service_state, unit) state" and k
    by (rule preservesD [where P = P, OF preserves_for_each t]) (rule that)
  note run = preservesD [where P = P, OF _ t]
  from assms(1) show ?thesis
  proof cases
    case (client_event c connected)
    then show ?thesis by (simp add: chatServerOnConnection_def t run [OF accounts(4)])
  next
    case (client_read c bytes)
    then show ?thesis using each [OF messages(1)] by (simp add: exec_chatServerOnMessage split_beta del: exec_for_each)
  next
    case (peer_event c connected)
    then show ?thesis by (simp add: clusterServerOnConnection_def t)
  next
    case (peer_read c bytes)
    then show ?thesis using each [OF messages(2)]
      by (simp add: exec_clusterServerOnMessage split_beta del: exec_for_each)
  next
    case (flush k)
    then show ?thesis using flushing [OF t] by simp
  next
    case (interrupt k)
    then show ?thesis by (simp add: resetHandler_def run [OF shutdown])
  qed (simp_all add: run node_rules)
qed

end

end
