(* ===== verification/NodeSteps.thy ===== *)
theory NodeSteps
  imports NodeLoop
begin

text \<open>
  Every reachable state of a node is well-formed, and a message that was accepted for a
  connection is never lost on its way there. Both are one invariant in the sense of
  \<open>node_law\<close>: the service is well-formed, and nothing leaves what was written or waits.
\<close>

section \<open>Well-formed services\<close>

text \<open>
  A dispatcher belongs to its loop, holds tasks for connections of that loop only and no more
  than its limit, and is not left with tasks and no flush. A flush is scheduled exactly
  when one functor of the loop is queued.
\<close>

definition dispatcher_ok :: "('r, 'd, 'e) service_env_scheme \<Rightarrow> nat \<Rightarrow> loop_id \<Rightarrow> LocalLoopDispatcher \<Rightarrow> bool" where
  "dispatcher_ok E limit l d \<longleftrightarrow>
     dp_loop d = l \<and> dp_pendingLimit d = limit \<and> length (dp_pending d) \<le> limit \<and>
     (dp_pending d \<noteq> [] \<longrightarrow> flushScheduled d) \<and> list_all (\<lambda>t. connLoop E (ld_conn t) = l) (dp_pending d)"

definition dispatchers_ok :: "('r, 'd, 'e) service_env_scheme \<Rightarrow> ('r, 'd, 'x) service_state_scheme \<Rightarrow> bool" where
  "dispatchers_ok E s \<longleftrightarrow>
     distinct (flushQueue s) \<and>
     (\<forall>l. dispatcher_ok E (localDeliveryQueueLimit s) l (dispatcherFor l s) \<and>
        (flushScheduled (dispatcherFor l s) \<longleftrightarrow> l \<in> set (flushQueue s)))"

definition service_ok :: "('r, 'd, 'e) service_env_scheme \<Rightarrow> ('r, 'd, 'x) service_state_scheme \<Rightarrow> bool" where
  "service_ok E s \<longleftrightarrow> router_inv s \<and> buckets_ok s \<and> dispatchers_ok E s \<and> hasRegistry s \<and> hasRouter s"

text \<open>What was written so far, with what waits for the event loop \<open>l\<close>.\<close>

definition backlog :: "loop_id \<Rightarrow> ('r, 'd, 'x) service_state_scheme \<Rightarrow> (conn \<times> string) multiset" where
  "backlog l s = mset (outbox s) + mset (map task_send (dp_pending (dispatcherFor l s)))"

text \<open>
  Both as one predicate: the service is well-formed, and nothing of \<open>B\<close> is lost.
\<close>

definition steady ::
  "('r, 'd, 'e) service_env_scheme \<Rightarrow> loop_id \<Rightarrow> (conn \<times> string) multiset \<Rightarrow> ('r, 'd, 'x) service_state_scheme \<Rightarrow> bool" where
  "steady E l B s \<longleftrightarrow> service_ok E s \<and> B \<subseteq># backlog l s"

lemma dispatcherFor_cong:
  "localDispatchers t = localDispatchers s \<Longrightarrow> localDeliveryQueueLimit t = localDeliveryQueueLimit s \<Longrightarrow>
   dispatcherFor l t = dispatcherFor l s"
  by (simp add: dispatcherFor_def cong: option.case_cong)

lemma dispatcherFor_put:
  "dispatcherFor k (s\<lparr>localDispatchers := (localDispatchers s)(l \<mapsto> d)\<rparr>) = (if k = l then d else dispatcherFor k s)"
  by (simp add: dispatcherFor_def cong: option.case_cong)

text \<open>A step that leaves all this alone and only adds to the outbox.\<close>

lemma steady_cong:
  assumes "steady E l B s" and "channels t = channels s" "connMap t = connMap s" "connBuckets t = connBuckets s"
    "localDispatchers t = localDispatchers s" "localDeliveryQueueLimit t = localDeliveryQueueLimit s"
    "flushQueue t = flushQueue s" "hasRegistry t = hasRegistry s" "hasRouter t = hasRouter s" "prefix (outbox s) (outbox t)"
  shows "steady E l B t"
proof -
  note same = dispatcherFor_cong [OF assms(5,6)]
  have "B \<subseteq># backlog l s" using assms(1) by (simp add: steady_def)
  also have "backlog l s \<subseteq># backlog l t" using assms(10) by (auto simp: backlog_def same elim!: prefixE)
  finally show ?thesis using assms(1-9)
    by (simp add: steady_def service_ok_def router_inv_def buckets_ok_def dispatchers_ok_def same)
qed

lemma steady_quiet: "quiet t = quiet s \<Longrightarrow> steady E l B s \<Longrightarrow> steady E l B t"
  using quiet_obs [of t s] by (elim steady_cong) simp_all

section \<open>The router only adds to what was sent\<close>

lemma prefix_keeps: "keeps outbox m \<Longrightarrow> preserves (\<lambda>s. prefix p (outbox s)) m"
  by (simp add: keeps_def preserves_def)

lemma prefix_modify:
  "(\<And>s. prefix (outbox s) (outbox (f s))) \<Longrightarrow> preserves (\<lambda>s. prefix p (outbox s)) (modify f)"
  by (auto simp: preserves_def intro: prefix_order.trans)

lemma prefix_enqueueOrSend: "preserves (\<lambda>s. prefix p (outbox s)) (enqueueOrSend i m :: (('r, 'x) router_state_scheme, _) state)"
proof (rule preservesI)
  fix s :: "('r, 'x) router_state_scheme"
  assume "prefix p (outbox s)"
  then show "prefix p (outbox (exec (enqueueOrSend i m) s))"
    by (cases "fst (enqueueLocked (connUp s) m (channels s ! i))")
      (simp_all add: enqueueOrSend_def result_def [of "State _"] exec_def [of "State _"] split_beta)
qed

lemma prefix_drain: "preserves (\<lambda>s. prefix p (outbox s)) (drainPendingInLoop i)"
  unfolding drainPendingInLoop_def by (rule prefix_modify) (simp add: split_beta Let_def)

lemma prefix_sends:
  "preserves (\<lambda>s. prefix p (outbox s)) (sendOneChat E meta fromNode u q t)"
  "preserves (\<lambda>s. prefix p (outbox s)) (sendGroupChat E meta fromNode us q t)"
  "preserves (\<lambda>s. prefix p (outbox s)) (prewarmNode E meta)"
proof -
  have int: "preserves (\<lambda>s. prefix p (outbox s)) (sendInternalMessage E meta k m)" for k m
    unfolding sendInternalMessage_def by (intro preserves prefix_keeps [OF outbox_getOrCreate] prefix_enqueueOrSend)
  show "preserves (\<lambda>s. prefix p (outbox s)) (sendOneChat E meta fromNode u q t)"
    "preserves (\<lambda>s. prefix p (outbox s)) (sendGroupChat E meta fromNode us q t)"
    unfolding sendOneChat_def sendGroupChat_def Let_def by (intro preserves int)+
  show "preserves (\<lambda>s. prefix p (outbox s)) (prewarmNode E meta)" by (rule prefix_keeps [OF outbox_prewarm])
qed

lemma prefix_callbacks:
  "preserves (\<lambda>s. prefix p (outbox s)) (handleConnection i c)" "preserves (\<lambda>s. prefix p (outbox s)) (handleWriteComplete i)"
  "preserves (\<lambda>s. prefix p (outbox s)) (handleHighWaterMark i)" "preserves (\<lambda>s. prefix p (outbox s)) (runFunctor f)"
  "preserves (\<lambda>s. prefix p (outbox s)) closeAll"
proof -
  show "preserves (\<lambda>s. prefix p (outbox s)) (handleConnection i c)" "preserves (\<lambda>s. prefix p (outbox s)) (handleWriteComplete i)"
    "preserves (\<lambda>s. prefix p (outbox s)) (handleHighWaterMark i)"
    unfolding handleConnection_def handleWriteComplete_def handleHighWaterMark_def
    by (intro preserves prefix_drain prefix_modify; simp)+
  show "preserves (\<lambda>s. prefix p (outbox s)) (runFunctor f)"
    by (cases f) (simp_all add: prefix_drain prefix_modify split_beta Let_def)
  have "keeps outbox (stopChannel i :: (('r, 'x) router_state_scheme, _) state)" for i by (simp add: keeps_def)
  then show "preserves (\<lambda>s. prefix p (outbox s)) (closeAll :: (('r, 'x) router_state_scheme, _) state)"
    unfolding closeAll_def by (intro prefix_keeps keeps keeps_modify) simp_all
qed

section \<open>Every operation is steady\<close>

lemma steady_router:
  fixes m :: "(('r, 'd, 'x) service_state_scheme, 'a) state"
  assumes beyond: "keeps obs_service m" and inv: "preserves router_inv m"
    and sends: "\<And>p. preserves (\<lambda>s. prefix p (outbox s)) m"
  shows "preserves (steady E l B) m"
proof (rule preservesI)
  fix s :: "('r, 'd, 'x) service_state_scheme"
  assume s: "steady E l B s"
  let ?t = "exec m s"
  have same: "connBuckets ?t = connBuckets s" "localDispatchers ?t = localDispatchers s" "flushQueue ?t = flushQueue s"
    "localDeliveryQueueLimit ?t = localDeliveryQueueLimit s" "hasRegistry ?t = hasRegistry s" "hasRouter ?t = hasRouter s"
    using keepsD [OF beyond, of s] by (simp_all add: obs_service_def)
  note disp = dispatcherFor_cong [OF same(2,4)]
  have "prefix (outbox s) (outbox ?t)" by (rule preservesD [OF sends]) simp
  then have "backlog l s \<subseteq># backlog l ?t" by (auto simp: backlog_def disp elim!: prefixE)
  moreover have "router_inv ?t" using s by (intro preservesD [OF inv]) (simp add: steady_def service_ok_def)
  ultimately show "steady E l B ?t" using s
    by (auto simp: steady_def service_ok_def buckets_ok_def dispatchers_ok_def disp same)
qed

lemma steady_connSend: "preserves (steady E l B) (connSend c m)"
  by (rule preservesI) (erule steady_cong; simp add: connSend_def)

lemma steady_table:
  "preserves (steady E l B) (addLocalConnection u c)" "preserves (steady E l B) (removeLocalConnection u)"
  "preserves (steady E l B) (removeLocalConnectionByConn c)" "preserves (steady E l B) (getLocalConnection u)"
proof -
  have steady: "steady E l B (s\<lparr>connBuckets := b\<rparr>)" if "steady E l B s" "buckets_ok (s\<lparr>connBuckets := b\<rparr>)" for s b
    using that by (auto simp: steady_def service_ok_def router_inv_def dispatchers_ok_def dispatcherFor_def backlog_def
        cong: option.case_cong)
  have ok: "buckets_ok s" if "steady E l B s" for s using that by (simp add: steady_def service_ok_def)
  show "preserves (steady E l B) (addLocalConnection u c)" "preserves (steady E l B) (removeLocalConnection u)"
    using buckets.ok_add [OF ok, of _ u c] buckets.ok_remove [OF ok, of _ u]
    by (auto simp: preserves_def addLocalConnection_def removeLocalConnection_def Let_def intro: steady)
  show "preserves (steady E l B) (removeLocalConnectionByConn c)"
    using buckets.ok_remove_conn [OF ok, of _ c]
    by (auto simp: preserves_def removeLocalConnectionByConn_def exec_def split_beta intro: steady)
  show "preserves (steady E l B) (getLocalConnection u)" by (simp add: getLocalConnection_def preserves)
qed

text \<open>A step on one dispatcher that writes what it takes out of its queue.\<close>

lemma steady_dispatch:
  fixes s t :: "('r, 'd, 'x) service_state_scheme"
  assumes s: "steady E l B s"
    and t: "quiet t = quiet u"
      "channels u = channels s" "connMap u = connMap s" "connBuckets u = connBuckets s" "hasRegistry u = hasRegistry s"
      "hasRouter u = hasRouter s" "localDeliveryQueueLimit u = localDeliveryQueueLimit s"
      "localDispatchers u = (localDispatchers s)(k \<mapsto> d)" "outbox u = outbox s @ ms"
    and ok: "dispatcher_ok E (localDeliveryQueueLimit s) k d"
    and q: "distinct (flushQueue u)" "\<And>j. j \<noteq> k \<Longrightarrow> j \<in> set (flushQueue u) \<longleftrightarrow> j \<in> set (flushQueue s)"
      "flushScheduled d \<longleftrightarrow> k \<in> set (flushQueue u)"
    and kept: "mset (map task_send (dp_pending (dispatcherFor k s))) \<subseteq># mset ms + mset (map task_send (dp_pending d))"
  shows "steady E l B t"
proof -
  have disp: "dispatcherFor j u = (if j = k then d else dispatcherFor j s)" for j
    using t(7,8) by (simp add: dispatcherFor_def cong: option.case_cong)
  have "backlog l s \<subseteq># backlog l u"
    using kept by (auto simp: backlog_def disp t(9))
  then have "B \<subseteq># backlog l u" using s by (auto simp: steady_def)
  moreover have "dispatchers_ok E u"
    using s ok q by (auto simp: steady_def service_ok_def dispatchers_ok_def disp t(7))
  ultimately have "steady E l B u"
    using s t by (simp add: steady_def service_ok_def router_inv_def buckets_ok_def)
  then show ?thesis by (rule steady_quiet [OF t(1)])
qed

lemma steady_enqueue:
  fixes E :: "('r, 'd, 'e) service_env_scheme"
  shows "preserves (steady E l B) (enqueueLocalDelivery E c msg :: (('r, 'd, 'x) service_state_scheme, _) state)"
proof (rule preservesI)
  fix s :: "('r, 'd, 'x) service_state_scheme"
  assume s: "steady E l B s"
  let ?k = "connLoop E c"
  let ?d = "dispatcherFor ?k s"
  have disp: "dispatcher_ok E (localDeliveryQueueLimit s) ?k ?d" "flushScheduled ?d \<longleftrightarrow> ?k \<in> set (flushQueue s)"
    and dist: "distinct (flushQueue s)"
    using s by (auto simp: steady_def service_ok_def dispatchers_ok_def)
  show "steady E l B (exec (enqueueLocalDelivery E c msg) s)"
  proof (cases "dispatcherFull ?d")
    case True
    show ?thesis by (rule steady_dispatch [OF s enqueue_full(2) [OF True], where ms = "[]"]) (use disp dist in auto)
  next
    case False
    define task where "task = \<lparr>ld_conn = c, ld_msg = msg, ld_enqueueNs = steadyNs E (Suc (ticks s))\<rparr>"
    define d where "d = snd (pushTask task ?d)"
    have d: "dp_pending d = dp_pending ?d @ [task]" "flushScheduled d" "dp_loop d = dp_loop ?d"
      "dp_pendingLimit d = dp_pendingLimit ?d" by (simp_all add: d_def pushTask_def)
    have ok: "dispatcher_ok E (localDeliveryQueueLimit s) ?k d"
      "dispatcher_ok E (localDeliveryQueueLimit s) ?k (d\<lparr>dp_pending := [], flushScheduled := False\<rparr>)"
      using disp(1) False d by (auto simp: dispatcher_ok_def dispatcherFull_def task_def)
    note run = enqueue_room(2) [OF False, of msg, folded task_def d_def]
    show ?thesis
    proof (cases "flushScheduled ?d")
      case True
      show ?thesis by (rule steady_dispatch [OF s, where ms = "[]" and k = ?k and d = d,
        OF run [unfolded if_P [OF True]]]) (use disp dist d ok True in \<open>simp_all flip: d_def\<close>)
    next
      case idle: False
      note run' = run [unfolded if_not_P [OF idle]]
      show ?thesis
      proof (cases "currentLoop s = ?k")
        case True
        show ?thesis by (rule steady_dispatch [OF s, where ms = "map task_send (dp_pending d)" and k = ?k
            and d = "d\<lparr>dp_pending := [], flushScheduled := False\<rparr>",
          OF run' [unfolded if_P [OF True]]]) (use disp dist d ok idle in \<open>simp_all flip: d_def\<close>)
      next
        case False
        show ?thesis by (rule steady_dispatch [OF s, where ms = "[]" and k = ?k and d = d,
          OF run' [unfolded if_not_P [OF False]]]) (use disp dist d ok idle in \<open>auto simp flip: d_def\<close>)
      qed
    qed
  qed
qed

lemma steady_route:
  "preserves (steady E l B) (prewarmNode E' meta)" "preserves (steady E l B) (sendOneChat E' meta from u p t)"
  "preserves (steady E l B) (sendGroupChat E' meta from us p t)" "preserves (steady E l B) closeAll"
  by (rule steady_router, intro service_keeps, intro inv_prewarmNode inv_sendOneChat inv_sendGroupChat inv_closeAll,
      rule prefix_sends prefix_callbacks)+

lemma steady_callbacks:
  "preserves (steady E l B) (handleConnection i c)" "preserves (steady E l B) (handleWriteComplete i)"
  "preserves (steady E l B) (handleHighWaterMark i)" "preserves (steady E l B) (runFunctor f)"
proof -
  have set: "keeps obs_service (modify (\<lambda>s. setChannel i (g s) s))" for i g
    by (rule keeps_modify) (simp add: obs_service_def setChannel_def)
  have drain: "keeps obs_service (drainPendingInLoop i)" for i
    unfolding drainPendingInLoop_def by (rule keeps_modify) (simp add: obs_service_def setChannel_def split_beta Let_def)
  have "keeps obs_service (handleConnection i c)" unfolding handleConnection_def by (intro keeps set drain)
  moreover have "keeps obs_service (handleWriteComplete i)" unfolding handleWriteComplete_def by (intro keeps set drain)
  moreover have "keeps obs_service (handleHighWaterMark i)" unfolding handleHighWaterMark_def by (rule set)
  moreover have "keeps obs_service (runFunctor f)"
    by (cases f) (simp_all add: drain, (rule keeps_modify, simp add: obs_service_def setChannel_def split_beta Let_def)+)
  ultimately show "preserves (steady E l B) (handleConnection i c)" "preserves (steady E l B) (handleWriteComplete i)"
    "preserves (steady E l B) (handleHighWaterMark i)" "preserves (steady E l B) (runFunctor f)"
    by - (rule steady_router, assumption, rule inv_callbacks, rule prefix_callbacks)+
qed

section \<open>The flush of a loop\<close>

lemma steady_flush:
  assumes s: "steady E l B s" and k: "k \<in> set (flushQueue s)"
  shows "steady E l B (exec (runFlush E k) s)"
    and "outbox (exec (runFlush E k) s) = outbox s @ map task_send (dp_pending (dispatcherFor k s))"
    and "dp_pending (dispatcherFor k (exec (runFlush E k) s)) = []"
proof -
  let ?s = "s\<lparr>flushQueue := remove1 k (flushQueue s)\<rparr>"
  have disp: "dispatcher_ok E (localDeliveryQueueLimit s) k (dispatcherFor k s)" "flushScheduled (dispatcherFor k s)"
    and dist: "distinct (flushQueue s)"
    using s k by (auto simp: steady_def service_ok_def dispatchers_ok_def)
  then obtain d where d: "localDispatchers s k = Some d" "dispatcherFor k s = d"
    by (auto simp: dispatcherFor_def split: option.splits)
  have run: "quiet (exec (runFlush E k) s) = quiet (?s\<lparr>outbox := outbox s @ map task_send (dp_pending d),
      localDispatchers := (localDispatchers s)(k \<mapsto> d\<lparr>dp_pending := [], flushScheduled := False\<rparr>)\<rparr>)"
    using drain_run [of ?s k d E] d(1) by (simp add: runFlush_def)
  show "steady E l B (exec (runFlush E k) s)"
    by (rule steady_dispatch [OF s run, where k = k and ms = "map task_send (dp_pending d)"
        and d = "d\<lparr>dp_pending := [], flushScheduled := False\<rparr>"])
      (use disp dist d in \<open>auto simp: dispatcher_ok_def\<close>)
  show "outbox (exec (runFlush E k) s) = outbox s @ map task_send (dp_pending (dispatcherFor k s))"
    "dp_pending (dispatcherFor k (exec (runFlush E k) s)) = []"
    using quiet_obs(1,2) [OF run] d(2) by (simp_all add: dispatcherFor_def)
qed

section \<open>The invariant of a node\<close>

lemma steady_thread: "steady E l B s \<Longrightarrow> steady E l B (s\<lparr>currentLoop := k\<rparr>)"
  by (erule steady_cong; simp)

interpretation steady_law: node_law E "steady E l B" for E :: "('r, 'd, 'e) service_env_scheme" and l B
proof
  fix s t :: "('r, 'd) service_state" and argv :: "string list" and now
  assume s: "steady E l B s"
  show "steady E l B t" if "node_core t = node_core s"
    by (rule steady_cong [OF s]) (use that in \<open>simp_all add: node_core_def\<close>)
  show "steady E l B (s\<lparr>redisSrv := snd (redisCommand E argv (redisSrv s))\<rparr>)"
    "steady E l B (s\<lparr>selfNode := (selfNode s)\<lparr>heartbeatMs := now\<rparr>\<rparr>)"
    by (rule steady_cong [OF s]; simp)+
  show "steady E l B (exec (runFlush E k) s)" if "k \<in> set (flushQueue s)" for k
    by (rule steady_flush(1) [OF s that])
qed (rule steady_connSend steady_table steady_enqueue steady_route steady_callbacks)+

lemma step_steady:
  assumes "node_step E isClient v v'" and s: "steady E l B (service v)"
  shows "steady E l B (service v')"
  using assms(1)
proof cases
  case own
  then show ?thesis by (rule steady_law.act [OF _ s])
next
  case (others r d)
  then show ?thesis by simp (rule steady_cong [OF s]; simp)
qed

lemma start_steady:
  fixes E :: "('r, 'd, 'e) service_env_scheme" and s :: "('r, 'd) service_state"
  assumes "result (serverMain E env base pool argv) s"
  shows "service_ok E (exec (serverMain E env base pool argv) s)"
proof -
  from assms obtain a where a: "addressesOf env argv = Some a" by (auto simp: serverMain_def split: option.splits)
  have "steady E 0 {#} (bootState E env base pool a s)"
    by (simp add: bootState_def Let_def router_init_def service_init_def steady_def service_ok_def router_inv_def buckets_ok_def
        bucket_ok_def dispatchers_ok_def dispatcher_ok_def dispatcherFor_def)
  from steady_law.boot [OF a this] show ?thesis by (simp add: steady_def)
qed

section \<open>What the contexts hold\<close>

lemma cluster_nil: "clusterOnMessageLoop [] = ([], [])"
  by (simp add: clusterOnMessageLoop.simps)

lemma cluster_rest: "clusterOnMessageLoop (snd (clusterOnMessageLoop p)) = ([], snd (clusterOnMessageLoop p))"
proof (induction p rule: clusterOnMessageLoop.induct)
  case (1 p)
  note eq = clusterOnMessageLoop.simps [of p]
  have "snd (clusterOnMessageLoop p) = [] \<or> clusterOnMessageLoop p = ([], p) \<or>
      (\<exists>q. snd (clusterOnMessageLoop p) = snd (clusterOnMessageLoop q) \<and>
         clusterOnMessageLoop (snd (clusterOnMessageLoop q)) = ([], snd (clusterOnMessageLoop q)))"
    using 1 unfolding eq by (simp add: Let_def split_beta split: option.split) blast
  then show ?case by (elim disjE exE) (simp_all add: cluster_nil)
qed

text \<open>No context holds a message that could be handled.\<close>

definition contexts_ok :: "(conn \<Rightarrow> bool) \<Rightarrow> ('r, 'd) server \<Rightarrow> bool" where
  "contexts_ok isClient v \<longleftrightarrow>
     (\<forall>c. if isClient c then NUL \<notin> set (pendingOf (contexts v c))
          else clusterOnMessageLoop (pendingOf (contexts v c)) = ([], pendingOf (contexts v c)))"

lemma contexts_ok_put:
  assumes "contexts_ok isClient v" and "contexts v' = (contexts v)(c := AString p)"
    and "if isClient c then NUL \<notin> set p else clusterOnMessageLoop p = ([], p)"
  shows "contexts_ok isClient v'"
  using assms by (simp add: contexts_ok_def)

lemma contexts_same: "contexts_ok isClient v \<Longrightarrow> contexts w = contexts v \<Longrightarrow> contexts_ok isClient w"
  by (simp add: contexts_ok_def)

lemma act_contexts:
  assumes "node_act E isClient v v'" and ok: "contexts_ok isClient v"
  shows "contexts_ok isClient v'"
proof -
  note same = contexts_same [OF ok]
  show ?thesis using assms(1)
  proof cases
    case (client_event c connected)
    then show ?thesis
      by (cases connected) (auto simp: chatServerOnConnection_def intro: same contexts_ok_put [OF ok, of _ c "[]"])
  next
    case (client_read c bytes)
    have "NUL \<notin> set (pendingOf (contexts v c))" using ok client_read(2) by (auto simp: contexts_ok_def)
    then have "NUL \<notin> set (snd (chatOnMessage (pendingOf (contexts v c) @ bytes)))"
      using nul_split_rest [of "pendingOf (contexts v c)" bytes]
      by (simp add: chatOnMessage_split nul_split_pending)
    then show ?thesis using client_read
      by (intro contexts_ok_put [OF ok, of _ c]) (simp_all add: exec_chatServerOnMessage split_beta)
  next
    case (peer_event c connected)
    then show ?thesis
      by (cases connected) (auto simp: clusterServerOnConnection_def cluster_nil intro: same contexts_ok_put [OF ok, of _ c "[]"])
  next
    case (peer_read c bytes)
    then show ?thesis using cluster_rest
      by (intro contexts_ok_put [OF ok, of _ c]) (simp_all add: exec_clusterServerOnMessage split_beta)
  qed (simp_all add: same resetHandler_def)
qed

lemma step_contexts: "node_step E isClient v v' \<Longrightarrow> contexts_ok isClient v \<Longrightarrow> contexts_ok isClient v'"
  by (erule node_step.cases) (auto intro: act_contexts elim: contexts_same)

section \<open>Properties\<close>

lemma reachable_ok: "node_reachable E isClient v \<Longrightarrow> service_ok E (service v) \<and> contexts_ok isClient v"
proof (induction rule: node_reachable.induct)
  case (started env base pool argv s)
  then show ?case using start_steady [OF started] by (simp add: started_node_def contexts_ok_def cluster_nil)
next
  case (stepped v v')
  then have "steady E 0 {#} (service v)" by (simp add: steady_def)
  from step_steady [OF stepped.hyps(2) this] show ?case
    using step_contexts [OF stepped.hyps(2)] stepped.IH by (simp add: steady_def)
qed

lemma steps_steady:
  assumes "(node_step E isClient)\<^sup>*\<^sup>* v w" and "steady E l B (service v)"
  shows "steady E l B (service w)"
  using assms by (induction rule: rtranclp_induct) (auto intro: step_steady)

text \<open>
  C2. Every state of a running node is well-formed. However clients, other nodes, the router's
  channels, Redis, the heartbeat and the interrupt handler take turns after \<open>main\<close> has started
  the servers: the channel table leads to open channels under their own names and no queue
  exceeds its limit; every user is at most once in the connection table and in the bucket
  lookups use; every dispatcher is that of its loop, holds tasks for connections of that loop
  only, no more than its limit, with exactly one flush functor queued while a flush is marked
  as scheduled, and none is left with tasks and no flush; registry and router are there; and
  no connection context holds a complete message.
\<close>

theorem node_well_formed:
  assumes "node_reachable E isClient v"
  shows "router_inv (service v) \<and> buckets_ok (service v) \<and> dispatchers_ok E (service v) \<and>
    hasRegistry (service v) \<and> hasRouter (service v) \<and> contexts_ok isClient v"
  using reachable_ok [OF assms] by (simp add: service_ok_def)

lemma backlog_delivered:
  fixes v w :: "('r, 'd) server" and E :: "('r, 'd, 'e) service_env_scheme"
  assumes ok: "service_ok E (service v)" and "(c, msg) \<in># backlog (connLoop E c) (service v)"
    and "(node_step E isClient)\<^sup>*\<^sup>* v w"
  defines "l \<equiv> connLoop E c"
  shows "(c, msg) \<in> set (outbox (service w)) \<or>
    l \<in> set (flushQueue (service w)) \<and>
    (\<exists>w'. node_step E isClient w w' \<and> w' = exec (on_thread l (on_service (runFlush E l))) w \<and>
       (c, msg) \<in> set (outbox (service w')))"
proof -
  have "steady E l (backlog l (service v)) (service v)" using ok by (simp add: steady_def)
  then have w: "steady E l (backlog l (service v)) (service w)" by (rule steps_steady [OF assms(3)])
  then have "(c, msg) \<in># backlog l (service w)" using assms(2) by (auto simp: steady_def l_def dest: mset_subset_eqD)
  then consider (sent) "(c, msg) \<in> set (outbox (service w))"
    | (waits) "(c, msg) \<in> task_send ` set (dp_pending (dispatcherFor l (service w)))" by (auto simp: backlog_def)
  then show ?thesis
  proof cases
    case waits
    let ?t = "(service w)\<lparr>currentLoop := l\<rparr>"
    have "dispatchers_ok E (service w)" using w by (simp add: steady_def service_ok_def)
    with waits have queued: "l \<in> set (flushQueue (service w))" by (force simp: dispatchers_ok_def dispatcher_ok_def)
    have t: "steady E l (backlog l (service v)) ?t" by (rule steady_thread [OF w])
    have "dispatcherFor l ?t = dispatcherFor l (service w)" by (simp add: dispatcherFor_def cong: option.case_cong)
    then have "(c, msg) \<in> set (outbox (exec (runFlush E l) ?t))"
      using steady_flush(2) [OF t] queued waits by simp
    then show ?thesis using queued node_step.own [OF node_act.flush [OF queued]] by auto
  qed simp
qed

text \<open>
  C3. An accepted message reaches its connection. Once a message for a connection waits in the
  dispatcher of the connection's loop, or was written, in any state of a running node, then
  after any further steps of the node it was written, or the loop has a flush functor queued
  that writes it when it runs, in whatever state the node is then.
\<close>

theorem accepted_delivered:
  assumes "node_reachable E isClient v" and "(c, msg) \<in># backlog (connLoop E c) (service v)"
    and "(node_step E isClient)\<^sup>*\<^sup>* v w"
  defines "l \<equiv> connLoop E c"
  shows "(c, msg) \<in> set (outbox (service w)) \<or>
    l \<in> set (flushQueue (service w)) \<and>
    (\<exists>w'. node_step E isClient w w' \<and> w' = exec (on_thread l (on_service (runFlush E l))) w \<and>
       (c, msg) \<in> set (outbox (service w')))"
  using backlog_delivered [OF _ assms(2,3)] reachable_ok [OF assms(1)] unfolding l_def by blast

section \<open>Witnesses\<close>

text \<open>A node without a database, on whose client connection 2 somebody registers.\<close>

definition sampleReg :: json where
  "sampleReg = JObj [(''msgId'', JInt 4), (''name'', JStr ''a''), (''password'', JStr ''b'')]"

definition sampleNodeEnv :: "(sample_redis, sample_db) service_env" where
  "sampleNodeEnv = sampleServiceEnv\<lparr>jparse := (\<lambda>_. Some sampleReg)\<rparr>"

definition sampleStarted :: "(sample_redis, sample_db) server" where
  "sampleStarted = started_node sampleNodeEnv Map.empty 0 [7] [''ChatServer'', ''10.0.0.1'', ''6000''] sampleService"

definition sampleRegistered :: "(sample_redis, sample_db) server" where
  "sampleRegistered = exec (on_thread (connLoop sampleNodeEnv 2) (chatServerOnMessage sampleNodeEnv 2 (''{}'' @ [NUL]))) sampleStarted"

lemma sample_started: "node_reachable sampleNodeEnv even sampleStarted"
  unfolding sampleStarted_def
  by (rule node_reachable.started) (simp add: serverMain_def addressesOf_def Let_def)

lemma sample_registered:
  "node_reachable sampleNodeEnv even sampleRegistered" "(2, ''{}'') \<in> set (outbox (service sampleRegistered))"
proof -
  show "node_reachable sampleNodeEnv even sampleRegistered" unfolding sampleRegistered_def
    by (rule node_reachable.stepped [OF sample_started]) (rule node_step.own, rule node_act.client_read, simp)
  have json: "jparse sampleNodeEnv ''{}'' = Some sampleReg" "jint sampleReg ''msgId'' = Some (msg_code REG_MSG)"
    "jstr sampleReg ''name'' = Some ''a''" "jstr sampleReg ''password'' = Some ''b''" "jdump sampleNodeEnv v = Some ''{}''" for v
    by (simp_all add: sampleNodeEnv_def sampleServiceEnv_def sampleReg_def jint_def jstr_def jmember_def)
  have handler: "getHandler sampleNodeEnv (msg_code REG_MSG) c js = reg sampleNodeEnv c js" for c js
    by (simp add: getHandler_def handlerOf_def)
  have "chatOnMessage (''{}'' @ [NUL]) = ([''{}''], [])" by (simp add: chatOnMessage_split NUL_def)
  then show "(2, ''{}'') \<in> set (outbox (service sampleRegistered))"
    by (simp add: sampleRegistered_def exec_chatServerOnMessage sampleStarted_def started_node_def handleText_def json handler reg_def
        with_value_def sendJson_def finish_def connSend_def del: msg_code.simps)
qed

theorem node_well_formed_witness: "dispatchers_ok sampleNodeEnv (service sampleRegistered)"
  using node_well_formed [OF sample_registered(1)] by blast

theorem accepted_delivered_witness:
  "(2, ''{}'') \<in> set (outbox (service (exec (on_thread 5 (on_service (heartbeatTick sampleNodeEnv))) sampleRegistered))) \<or>
   connLoop sampleNodeEnv 2 \<in> set (flushQueue (service (exec (on_thread 5 (on_service (heartbeatTick sampleNodeEnv))) sampleRegistered)))"
proof -
  let ?w = "exec (on_thread 5 (on_service (heartbeatTick sampleNodeEnv))) sampleRegistered"
  have "(5 :: nat) \<notin> range (connLoop sampleNodeEnv)"
  proof
    assume "(5 :: nat) \<in> range (connLoop sampleNodeEnv)"
    then obtain c :: nat where "5 = c mod 2" by (auto simp: sampleNodeEnv_def sampleServiceEnv_def)
    moreover have "c mod 2 < 2" by simp
    ultimately show False by simp
  qed
  then have "(node_step sampleNodeEnv even)\<^sup>*\<^sup>* sampleRegistered ?w" by (intro r_into_rtranclp node_step.own node_act.heartbeat)
  moreover have "(2, ''{}'') \<in># backlog (connLoop sampleNodeEnv 2) (service sampleRegistered)"
    using sample_registered(2) by (simp add: backlog_def)
  ultimately show ?thesis using accepted_delivered [OF sample_registered(1)] by blast
qed

end
