(* ===== verification/EndToEnd.thy ===== *)
theory EndToEnd
  imports ClientSession NodeSteps
begin

text \<open>
  A chat message from keyboard to screen: the client that sends
  (\<open>src/client/main.cpp\<close>, \<open>mainMenu\<close> and \<open>chat\<close>), the node, or the nodes, on its way
  (\<open>ChatServer::onMessage\<close>, \<open>oneChat\<close>, \<open>ClusterServer::onMessage\<close>,
  \<open>handleClusterOneChatFrame\<close>, the dispatchers), and the client that receives
  (\<open>readTaskHandler\<close>). The JSON library is outside the repository: that a text it prints
  parses to what was printed is a hypothesis.
\<close>

section \<open>The node\<close>

lemma handed_backlog:
  assumes "handed E c msg s s'"
  shows "(c, msg) \<in># backlog (connLoop E c) s'"
proof -
  have "(c, msg) \<in> set (outbox s') \<or> (c, msg) \<in> set (map task_send (dp_pending (dispatcherFor (connLoop E c) s')))"
    using assms unfolding handed_def
  proof (elim disjE exE conjE)
    fix d
    assume "localDispatchers s' (connLoop E c) = Some d"
      and "map task_send (dp_pending d) = map task_send (dp_pending (dispatcherFor (connLoop E c) s)) @ [(c, msg)]"
    then show ?thesis by (simp add: dispatcherFor_def)
  qed simp
  then show ?thesis by (auto simp: backlog_def)
qed

lemma service_ok_inv: "service_ok E s \<Longrightarrow> delivery_inv s"
  by (auto simp: service_ok_def dispatchers_ok_def delivery_inv_def dispatcher_ok_def dispatcherFor_def split: option.splits)

lemma step_ok:
  assumes "node_step E isClient v v'" and "service_ok E (service v)"
  shows "service_ok E (service v')"
  using step_steady [OF assms(1), where l = 0 and B = "{#}"] assms(2) by (simp add: steady_def)

lemma on_thread_reachable [simp]: "reachable_here E (s\<lparr>currentLoop := l\<rparr>) u = reachable_here E s u"
  by (simp add: reachable_here_def has_room_def tableOf_def dispatcherFor_def cong: option.case_cong)

text \<open>The last piece of a request, and of a frame, is read.\<close>

lemma request_read:
  assumes ctx: "contexts v c = AString p" and whole: "p @ r = printed @ [NUL]" "printed \<noteq> []" "NUL \<notin> set printed"
  shows "service (exec (on_thread l (chatServerOnMessage E c r)) v) = exec (handleText E c printed) ((service v)\<lparr>currentLoop := l\<rparr>)"
proof -
  have "chatOnMessage (p @ r) = ([printed], [])"
    using nul_split_piece [of printed "[]" "[]"] whole by (simp add: chatOnMessage_split)
  then show ?thesis by (simp add: exec_chatServerOnMessage ctx)
qed

lemma frame_read:
  assumes ctx: "contexts v c = AString p" and whole: "p @ r = oneChatFrame u text'"
    and small: "kOneChatFrameBodyPrefixBytes + length text' < 2 ^ 32"
  shows "service (exec (on_thread l (clusterServerOnMessage E c r)) v) =
    exec (handleClusterOneChatFrame E u text') ((service v)\<lparr>currentLoop := l\<rparr>)"
proof -
  have "clusterOnMessageLoop (p @ r) = ([OneChatFrame u text'], [])"
    using cluster_wire.scan_whole [of "OneChatFrame u text'" "[]"] small whole by (simp add: cluster_nil)
  then show ?thesis by (simp add: exec_clusterServerOnMessage ctx handleEvent_def)
qed

section \<open>The receiving client\<close>

lemma answer_shown:
  assumes buf: "recvBuf b @ r = text'" and obj: "json_object text'"
    and parse: "c_parse E text' = Some (chatJson u time target msg)"
  shows "exec (readTaskTurn E (Some r)) b =
    b\<lparr>display := display b @ [ChatLine time (JI (user_id u)) (user_name u) msg], recvBuf := []\<rparr>"
proof -
  have cut: "clientReceive (recvBuf b @ r) = ([text'], [])"
    using client_wire.scan_whole [OF obj, of "[]"] buf by (simp add: client_wire.scan_empty)
  have fields: "jstr (chatJson u time target msg) ''time'' = Some time" "jstr (chatJson u time target msg) ''name'' = Some (user_name u)"
    "jshown (chatJson u time target msg) ''id'' = JI (user_id u)"
    by (simp_all add: chatJson_def json_fields jshown_def)
  have "exec (handleAnswer E text') b = b\<lparr>display := display b @ [ChatLine time (JI (user_id u)) (user_name u) msg]\<rparr>"
    by (simp add: handleAnswer_def parse dispatchAnswer_def showOneChat_def with_value_def chatJson_fields fields finish_def)
  then show ?thesis by (simp add: readTaskTurn_def cut)
qed

section \<open>Properties\<close>

text \<open>
  C1. A chat line reaches the screen of a receiver on the same node. The client types
  \<open>chat:<id>:<message>\<close>; in whatever well-formed state the node reads the last piece of the
  request, with the receiver connected there and room in his queue, and whatever the node does
  then: the message, as the server prints it, was written to the receiver's connection or is
  written by a flush that is queued; and when its last piece arrives, the receiver's client
  shows one line with the sender's time, id and name and the text that was typed.
\<close>

theorem chat_same_node:
  fixes S :: "('r, 'd, 'e) service_env_scheme"
  assumes good: "in_good (stdin a)" and typed: "in_text (stdin a) = ''chat:'' @ to_string u @ '':'' @ msg @ newline # rest"
    and msg: "newline \<notin> set msg" "NUL \<notin> set msg" "length (''chat:'' @ to_string u @ '':'' @ msg) < 1024"
    and up: "c_send A (sendCalls a)"
    and request: "c_dump A (chatRequest A a u msg) = Some printed" "printed \<noteq> []" "NUL \<notin> set printed"
      "jparse S printed = Some (chatRequest A a u msg)" "jdump S (chatRequest A a u msg) = Some answer"
    and a': "a' = exec (menuTurn A) a"
    and ok: "service_ok S (service v)" and conn: "isClient c" "contexts v c = AString p"
    and bytes: "sentBytes a' = sentBytes a @ p @ r"
    and here: "reachable_here S (service v) u = Some d"
    and v': "v' = exec (on_thread (connLoop S c) (chatServerOnMessage S c r)) v"
    and later: "(node_step S isClient)\<^sup>*\<^sup>* v' w"
    and receiver: "recvBuf b @ r' = answer" "json_object answer" "c_parse B answer = Some (chatRequest A a u msg)"
  shows "((d, answer) \<in> set (outbox (service w)) \<or>
      connLoop S d \<in> set (flushQueue (service w)) \<and>
      (\<exists>w'. node_step S isClient w w' \<and> w' = exec (on_thread (connLoop S d) (on_service (runFlush S (connLoop S d)))) w \<and>
         (d, answer) \<in> set (outbox (service w')))) \<and>
    display (exec (readTaskTurn B (Some r')) b) = display b @
      [ChatLine (timeText (c_localtime A (timeCalls a))) (JI (user_id (currentUser a))) (user_name (currentUser a)) msg]"
proof -
  have "(result (menuTurn A) a, a') = run_state (menuTurn A) a" by (simp add: a' run_state_pair)
  from chat_typed(2) [OF good typed msg up request(1) this] have whole: "p @ r = printed @ [NUL]" using bytes by simp
  let ?s = "(service v)\<lparr>currentLoop := connLoop S c\<rparr>"
  from request_read [OF conn(2) whole request(2,3), where E = S and l = "connLoop S c"] have
    s': "service v' = exec (oneChat S c (chatRequest A a u msg)) ?s"
    by (simp add: v' chat_handled [OF request(4)])
  have inv: "delivery_inv ?s" "router_inv ?s"
    using service_ok_inv [OF ok] ok by (simp_all add: service_ok_def delivery_inv_def router_inv_def)
  have to_from: "jint (chatRequest A a u msg) ''to'' = Some u" "jint (chatRequest A a u msg) ''id'' = Some (user_id (currentUser a))"
    by (simp_all add: chatRequest_def chatJson_fields)
  have "handed S d answer ?s (service v')"
    using oneChat_effect(1) [OF inv to_from request(5) s'] here by simp
  then have waits: "(d, answer) \<in># backlog (connLoop S d) (service v')" by (rule handed_backlog)
  have "node_step S isClient v v'" unfolding v' by (rule node_step.own, rule node_act.client_read, rule conn(1))
  from step_ok [OF this ok] have "service_ok S (service v')" .
  from backlog_delivered [OF this waits later] answer_shown [OF receiver(1,2) receiver(3) [unfolded chatRequest_def]]
  show ?thesis by simp
qed

text \<open>
  C4. A chat frame reaches the screen of a receiver on another node. In whatever well-formed
  state a node reads the last piece of a frame of another node, with the receiver connected
  here and room in his queue, and whatever the node does then: the payload was written to the
  receiver's connection, or is written by a flush that is queued; and when its last piece
  arrives, the receiver's client shows the line of the message the frame carried.
\<close>

theorem chat_across_nodes:
  fixes S :: "('r, 'd, 'e) service_env_scheme"
  assumes ok: "service_ok S (service v)" and conn: "\<not> isClient c" "contexts v c = AString p"
    and bytes: "p @ r = oneChatFrame u payload" "kOneChatFrameBodyPrefixBytes + length payload < 2 ^ 32"
    and here: "reachable_here S (service v) u = Some d"
    and v': "v' = exec (on_thread (connLoop S c) (clusterServerOnMessage S c r)) v"
    and later: "(node_step S isClient)\<^sup>*\<^sup>* v' w"
    and receiver: "recvBuf b @ r' = payload" "json_object payload" "c_parse B payload = Some (chatJson sender time u msg)"
  shows "((d, payload) \<in> set (outbox (service w)) \<or>
      connLoop S d \<in> set (flushQueue (service w)) \<and>
      (\<exists>w'. node_step S isClient w w' \<and> w' = exec (on_thread (connLoop S d) (on_service (runFlush S (connLoop S d)))) w \<and>
         (d, payload) \<in> set (outbox (service w')))) \<and>
    display (exec (readTaskTurn B (Some r')) b) = display b @ [ChatLine time (JI (user_id sender)) (user_name sender) msg]"
proof -
  let ?s = "(service v)\<lparr>currentLoop := connLoop S c\<rparr>"
  have s': "service v' = exec (handleClusterOneChatFrame S u payload) ?s"
    unfolding v' by (rule frame_read [OF conn(2) bytes])
  have inv: "delivery_inv ?s" using service_ok_inv [OF ok] by (simp add: delivery_inv_def)
  have "handed S d payload ?s (service v')" using frame_effect(1) [OF inv s'] here by (simp add: settled_def)
  then have waits: "(d, payload) \<in># backlog (connLoop S d) (service v')" by (rule handed_backlog)
  have "node_step S isClient v v'" unfolding v' by (rule node_step.own, rule node_act.peer_read, rule conn(1))
  from step_ok [OF this ok] have "service_ok S (service v')" .
  from backlog_delivered [OF this waits later] answer_shown [OF receiver] show ?thesis by simp
qed

section \<open>Witnesses\<close>

text \<open>Node and client for user 7, who is on connection 2; requests come on connection 4, frames on 9.\<close>

definition sampleHome :: "(sample_redis, sample_db) server" where
  "sampleHome = \<lparr>service = exec (addLocalConnection 7 2) sampleService, contexts = (\<lambda>_. AString []), shutdowns = []\<rparr>"

lemma sampleHome_facts:
  "service_ok E (service sampleHome)" "reachable_here E (service sampleHome) 7 = Some 2"
proof -
  have ok: "buckets_ok (exec (addLocalConnection 7 2) sampleService)"
    by (rule buckets.ok_add) (rule sampleService_facts)
  have "dispatchers_ok E (exec (addLocalConnection 7 2) sampleService)" "router_inv (exec (addLocalConnection 7 2) sampleService)"
    by (simp_all add: dispatchers_ok_def dispatcher_ok_def dispatcherFor_def sampleService_def addLocalConnection_def Let_def
        router_inv_def)
  then show "service_ok E (service sampleHome)"
    using ok by (simp add: sampleHome_def service_ok_def) (simp add: addLocalConnection_def Let_def sampleService_def)
  have "tableOf (exec (addLocalConnection 7 2) sampleService) 7 = Some 2"
    by (simp add: buckets.add_table [OF sampleService_facts(2)])
  then show "reachable_here E (service sampleHome) 7 = Some 2"
    by (simp add: reachable_here_def sampleHome_def has_room_def dispatcherFor_def dispatcherFull_def)
      (simp add: addLocalConnection_def Let_def sampleService_def)
qed

lemma empty_object: "json_object ''{}''"
  by (simp add: json_object_def json_body.empty)

theorem chat_same_node_witness:
  "\<exists>B. display (exec (readTaskTurn B (Some ''{}'')) (client_init [])) =
     [ChatLine (timeText (c_localtime sampleClientEnv 0)) (JI (-1)) '''' ''hi'']"
proof -
  let ?line = "''chat:'' @ to_string 7 @ '':'' @ ''hi''"
  define a where "a = sampleTyping ?line"
  define js where "js = chatRequest sampleClientEnv a 7 ''hi''"
  define S where "S = sampleServiceEnv\<lparr>jparse := (\<lambda>_. Some js)\<rparr>"
  define B where "B = sampleClientEnv\<lparr>c_parse := (\<lambda>_. Some js)\<rparr>"
  have *: "newline \<notin> set ''hi''" "NUL \<notin> set ''hi''" by (simp_all add: newline_def NUL_def)
  have l: "length ?line < 1024" using length_to_string [of 7] by simp
  have t: "in_good (stdin a)" "in_text (stdin a) = ''chat:'' @ to_string 7 @ '':'' @ ''hi'' @ newline # []" by (simp_all add: a_def)
  have e: "c_send sampleClientEnv (sendCalls a)" "c_dump sampleClientEnv (chatRequest sampleClientEnv a 7 ''hi'') = Some ''{}''"
    by (simp_all add: sampleClientEnv_def)
  have p: "jparse S ''{}'' = Some (chatRequest sampleClientEnv a 7 ''hi'')"
    "jdump S (chatRequest sampleClientEnv a 7 ''hi'') = Some ''{}''"
    "c_parse B ''{}'' = Some (chatRequest sampleClientEnv a 7 ''hi'')"
    by (simp_all add: S_def B_def js_def sampleServiceEnv_def)
  have n: "''{}'' \<noteq> []" "NUL \<notin> set ''{}''" by (simp_all add: NUL_def)
  have sent: "sentBytes (exec (menuTurn sampleClientEnv) a) = sentBytes a @ [] @ ''{}'' @ [NUL]"
    using chat_typed(2) [OF t * l e run_state_pair [symmetric]] by simp
  have ctx: "contexts sampleHome 4 = AString []" and even: "even (4 :: nat)" by (simp_all add: sampleHome_def)
  have buf: "recvBuf (client_init []) @ ''{}'' = ''{}''" by (simp add: client_init_def)
  have "currentUser a = defaultUser" "timeCalls a = 0" "display (client_init []) = []"
    by (simp_all add: a_def sampleTyping_def client_init_def)
  then show ?thesis
    using chat_same_node [where S = S and isClient = even and c = 4, OF t * l e(1) e(2) n p(1,2) refl sampleHome_facts(1) even ctx sent sampleHome_facts(2) refl
        rtranclp.rtrancl_refl buf empty_object p(3)]
    by (intro exI [of _ B]) (simp add: defaultUser_def makeUser_def)
qed

theorem chat_across_nodes_witness:
  "(2, ''{}'') \<in> set (outbox (service (exec (on_thread 1 (clusterServerOnMessage sampleServiceEnv 9 (oneChatFrame 7 ''{}''))) sampleHome))) \<or>
   0 \<in> set (flushQueue (service (exec (on_thread 1 (clusterServerOnMessage sampleServiceEnv 9 (oneChatFrame 7 ''{}''))) sampleHome)))"
proof -
  have odd: "\<not> even (9 :: nat)" and ctx: "contexts sampleHome 9 = AString []" by (simp_all add: sampleHome_def)
  have frame: "[] @ oneChatFrame 7 ''{}'' = oneChatFrame 7 ''{}''" "kOneChatFrameBodyPrefixBytes + length ''{}'' < 2 ^ 32"
    by (simp_all add: kOneChatFrameBodyPrefixBytes_def)
  have buf: "recvBuf (client_init []) @ ''{}'' = ''{}''" by (simp add: client_init_def)
  have parse: "c_parse (sampleClientEnv\<lparr>c_parse := (\<lambda>_. Some (chatJson defaultUser ''now'' 7 ''hi''))\<rparr>) ''{}'' =
      Some (chatJson defaultUser ''now'' 7 ''hi'')" by simp
  have loops: "connLoop sampleServiceEnv 9 = 1" "connLoop sampleServiceEnv 2 = 0" by (simp_all add: sampleServiceEnv_def)
  show ?thesis
    using chat_across_nodes [where S = sampleServiceEnv and isClient = even and c = 9, OF sampleHome_facts(1) odd ctx frame sampleHome_facts(2) refl rtranclp.rtrancl_refl buf empty_object parse]
    unfolding loops by blast
qed

end
