(* ===== verification/Cluster.thy ===== *)
theory Cluster
  imports NodeSteps
begin

text \<open>
  The nodes of a cluster: processes that run \<open>main\<close> (\<open>src/server/main.cpp\<close>) and share one Redis
  and one database. A step of the cluster is a step of one node on what it shares with the
  others, or the start of another node, and carries the number of the node that acts. The
  sessions in Redis belong to nodes of the cluster, and each is written by the node it names.
\<close>

section \<open>The steps of a cluster\<close>

record ('r, 'd) cluster =
  members :: "('r, 'd) server list"
  sharedRedis :: 'r
  sharedDb :: 'd

text \<open>A node as it is when it takes its turn, and the cluster after the turn of \<open>v\<close>.\<close>

definition member :: "('r, 'd) cluster \<Rightarrow> nat \<Rightarrow> ('r, 'd) server" where
  "member C i = (let v = members C ! i
     in v\<lparr>service := (service v)\<lparr>redisSrv := sharedRedis C, database := sharedDb C\<rparr>\<rparr>)"

definition after_turn :: "('r, 'd) server list \<Rightarrow> ('r, 'd) server \<Rightarrow> ('r, 'd) cluster" where
  "after_turn vs v = \<lparr>members = vs, sharedRedis = redisSrv (service v), sharedDb = database (service v)\<rparr>"

text \<open>
  \<open>E i\<close> is the environment of the \<open>i\<close>-th process; clocks, event loops and the JSON library are
  its own. A node that has left does not step any more, a restart is a new process.
  \<open>cluster_step E isClient i C C'\<close>: node \<open>i\<close> takes a turn, or starts, as the last of \<open>C'\<close>.
\<close>

inductive cluster_step ::
  "(nat \<Rightarrow> ('r, 'd, 'e) service_env_scheme) \<Rightarrow> (conn \<Rightarrow> bool) \<Rightarrow> nat \<Rightarrow> ('r, 'd) cluster \<Rightarrow> ('r, 'd) cluster \<Rightarrow> bool"
  for E isClient where
  turn: "i < length (members C) \<Longrightarrow> node_act (E i) isClient (member C i) v \<Longrightarrow>
    cluster_step E isClient i C (after_turn ((members C)[i := v]) v)"
| join: "result (serverMain (E (length (members C))) env base pool argv) s \<Longrightarrow>
    redisSrv s = sharedRedis C \<Longrightarrow> database s = sharedDb C \<Longrightarrow>
    v = started_node (E (length (members C))) env base pool argv s \<Longrightarrow>
    cluster_step E isClient (length (members C)) C (after_turn (members C @ [v]) v)"

inductive cluster_run ::
  "(nat \<Rightarrow> ('r, 'd, 'e) service_env_scheme) \<Rightarrow> (conn \<Rightarrow> bool) \<Rightarrow> ('r, 'd) cluster \<Rightarrow> ('r, 'd) cluster \<Rightarrow> bool"
  for E isClient C where
  start: "cluster_run E isClient C C"
| steps: "cluster_run E isClient C C' \<Longrightarrow> cluster_step E isClient i C' C'' \<Longrightarrow> cluster_run E isClient C C''"

section \<open>What a node does to the sessions\<close>

text \<open>A Redis key holds finitely many elements.\<close>

definition finite_keys :: "('r \<Rightarrow> redis_view) \<Rightarrow> bool" where
  "finite_keys view \<longleftrightarrow> (\<forall>r k. finite (v_sets (view r) k) \<and> finite (dom (v_hashes (view r) k)))"

text \<open>What a node writes into the session key of a user it binds.\<close>

definition own_value :: "NodeMeta \<Rightarrow> string" where
  "own_value self = c_str (sessionValue (nodeId self) (instanceId self))"

lemma list_all_entries: "set fs = dom h \<Longrightarrow> map_of (map (\<lambda>f. (f, the (h f))) fs) = h"
proof
  fix f
  assume "set fs = dom h"
  then show "map_of (map (\<lambda>f. (f, the (h f))) fs) f = h f"
    by (cases "h f") (simp_all add: map_of_map_restrict restrict_map_def domIff)
qed

lemma smembers_strs:
  assumes "redis_documented command view" and "finite_keys view" and "command [''SMEMBERS'', k] r = (reply, r')"
  shows "v_strs (view r') = v_strs (view r)"
proof -
  have "finite (v_sets (view r) k)" using assms(2) by (simp add: finite_keys_def)
  then obtain xs where "set xs = v_sets (view r) k" using finite_list by blast
  from redis_step [OF assms(1) redis_doc.smembers [OF this] assms(3)] show ?thesis by (auto simp: expired_def elim!: doc_smembers)
qed

lemma hgetall_strs:
  assumes "redis_documented command view" and "finite_keys view" and "command [''HGETALL'', k] r = (reply, r')"
  shows "v_strs (view r') = v_strs (view r)"
proof -
  define h where "h = v_hashes (view r) k"
  have "finite (dom h)" using assms(2) by (simp add: finite_keys_def h_def)
  from finite_distinct_list [OF this] obtain fs where fs: "set fs = dom h" "distinct fs" by (elim exE conjE)
  have kvs: "distinct (map fst (map (\<lambda>f. (f, the (h f))) fs))" "map_of (map (\<lambda>f. (f, the (h f))) fs) = v_hashes (view r) k"
    using fs(2) list_all_entries [OF fs(1)] unfolding h_def [symmetric] by (simp_all only: map_map o_def fst_conv map_ident)
  from redis_step [OF assms(1) redis_doc.hgetall [OF kvs] assms(3)] show ?thesis
    by (auto simp: expired_def elim!: doc_hgetall)
qed

lemma hmset_expire_strs:
  assumes doc: "redis_documented command view"
  shows "command (''HMSET'' # k # fvs) r = (reply, r') \<Longrightarrow> v_strs (view r') = v_strs (view r)"
    and "command [''EXPIRE'', k, n] r = (reply, r') \<Longrightarrow> v_strs (view r') = v_strs (view r)"
  using redis_step [OF doc redis_doc.hmset] redis_step [OF doc redis_doc.expire] by (fastforce simp: expired_def elim!: doc_hmset doc_expire)+

text \<open>A command of a node leaves a string key, clears it, or puts the node's own value there.\<close>

lemma command_strs:
  assumes doc: "redis_documented command view" and fin: "finite_keys view"
    and argv: "node_command self argv" and run: "command argv r = (reply, r')"
  shows "v_strs (view r') x \<in> {v_strs (view r) x, None, Some (own_value self)}"
  using argv
proof cases
  case (set u)
  then show ?thesis using strs_step(1,2) [OF doc run set]
    by (cases "v_strs (view r) (sessionKey u)") (auto simp: own_value_def)
qed (use run strs_step(3-6) [OF doc run] smembers_strs [OF doc fin] hgetall_strs [OF doc fin] hmset_expire_strs [OF doc]
  in \<open>auto\<close>)

text \<open>
  As one invariant of a node: it is who it was, and every string key is as it was at the
  beginning (\<open>r0\<close>), gone, or the node's own.
\<close>

definition same_node :: "NodeMeta \<Rightarrow> NodeMeta \<Rightarrow> bool" where
  "same_node a b \<longleftrightarrow> nodeId a = nodeId b \<and> instanceId a = instanceId b"

definition own_writes ::
  "('r \<Rightarrow> redis_view) \<Rightarrow> 'r \<Rightarrow> NodeMeta \<Rightarrow> ('r, 'd, 'x) service_state_scheme \<Rightarrow> bool" where
  "own_writes view r0 self s \<longleftrightarrow> same_node (selfNode s) self \<and>
     (\<forall>x. v_strs (view (redisSrv s)) x \<in> {v_strs (view r0) x, None, Some (own_value self)})"

definition control_part :: "('r, 'd, 'x) service_state_scheme \<Rightarrow> 'r \<times> NodeMeta" where
  "control_part s = (redisSrv s, selfNode s)"

lemma own_keeps:
  fixes m :: "(('r, 'd, 'x) service_state_scheme, 'a) state"
  shows "keeps control_part m \<Longrightarrow> preserves (own_writes view r0 self) m"
  by (auto simp: keeps_def preserves_def own_writes_def control_part_def)

lemma control_router:
  fixes m :: "(('r, 'd, 'x) service_state_scheme, 'a) state"
  assumes "keeps beyond_router m"
  shows "keeps control_part m"
proof (rule keepsI)
  fix s :: "('r, 'd, 'x) service_state_scheme"
  show "control_part (exec m s) = control_part s"
    using keepsD [OF assms, of s] by (simp add: beyond_router_def control_part_def)
qed

lemma control_quiet: "quiet t = quiet s \<Longrightarrow> control_part t = control_part s"
  using quiet_obs(10,19) [of t s] by (simp add: control_part_def)

lemma control_enqueue: "keeps control_part (enqueueLocalDelivery E c m)"
proof (rule keepsI)
  fix s :: "('a, 'b, 'x) service_state_scheme"
  show "control_part (exec (enqueueLocalDelivery E c m) s) = control_part s"
  proof (cases "dispatcherFull (dispatcherFor (connLoop E c) s)")
    case True
    from control_quiet [OF enqueue_full(2) [OF this]] show ?thesis by (simp add: control_part_def)
  next
    case False
    from control_quiet [OF enqueue_room(2) [OF this]] show ?thesis by (simp add: control_part_def split: if_splits)
  qed
qed

lemma control_flush: "keeps control_part (runFlush E l)"
proof -
  have task: "keeps control_part (deliverTask E task)" for task
    by (rule keepsI) (simp add: deliverTask_def control_part_def connSend_def Let_def)
  have batch: "keeps control_part (State (\<lambda>s. let (tasks, d) = takeBatch (the (localDispatchers s l))
      in (tasks, s\<lparr>localDispatchers := (localDispatchers s)(l \<mapsto> d)\<rparr>)))"
    by (rule keepsI) (simp add: exec_def control_part_def split_beta Let_def)
  have turn: "keeps control_part (drainTurn E l)"
    unfolding drainTurn_def by (intro keeps task batch)
  show ?thesis unfolding runFlush_def drainLocalDeliveriesInLoop_def
    by (intro keeps keeps_modify turn) (simp add: control_part_def)
qed

lemma control_callbacks:
  "keeps control_part (handleConnection i c)" "keeps control_part (handleWriteComplete i)"
  "keeps control_part (handleHighWaterMark i)" "keeps control_part (runFunctor f)"
proof -
  have set: "keeps control_part (modify (\<lambda>s. setChannel i (g s) s))" for i g
    by (rule keeps_modify) (simp add: control_part_def setChannel_def)
  have drain: "keeps control_part (drainPendingInLoop i)" for i
    unfolding drainPendingInLoop_def by (rule keeps_modify) (simp add: control_part_def setChannel_def split_beta Let_def)
  show "keeps control_part (handleConnection i c)" unfolding handleConnection_def by (intro keeps set drain)
  show "keeps control_part (handleWriteComplete i)" unfolding handleWriteComplete_def by (intro keeps set drain)
  show "keeps control_part (handleHighWaterMark i)" unfolding handleHighWaterMark_def by (rule set)
  show "keeps control_part (runFunctor f)"
    by (cases f) (simp_all add: drain, (rule keeps_modify, simp add: control_part_def setChannel_def split_beta Let_def)+)
qed

lemma control_table:
  "keeps control_part (connSend c m)" "keeps control_part (addLocalConnection u c)" "keeps control_part (removeLocalConnection u)"
  "keeps control_part (removeLocalConnectionByConn c)"
  by (rule keepsI, simp add: control_part_def connSend_def addLocalConnection_def removeLocalConnection_def
      removeLocalConnectionByConn_def exec_def split_beta Let_def)+

lemma own_law:
  fixes E :: "('r, 'd, 'e) service_env_scheme"
  assumes doc: "redis_documented (redisCommand E) view" and fin: "finite_keys view"
  shows "node_law E (own_writes view r0 self)"
proof
  fix s t :: "('r, 'd) service_state" and argv :: "string list" and now
  assume s: "own_writes view r0 self s"
  show "own_writes view r0 self t" if "node_core t = node_core s"
    using s that by (simp add: own_writes_def node_core_def)
  show "own_writes view r0 self (s\<lparr>redisSrv := snd (redisCommand E argv (redisSrv s))\<rparr>)" if "node_command (selfNode s) argv"
  proof -
    have "own_value (selfNode s) = own_value self" using s by (simp add: own_writes_def own_value_def same_node_def)
    then have "v_strs (view (snd (redisCommand E argv (redisSrv s)))) x \<in> {v_strs (view (redisSrv s)) x, None, Some (own_value self)}" for x
      using command_strs [OF doc fin that prod.collapse [symmetric], of "redisSrv s" x] by simp
    moreover have "v_strs (view (redisSrv s)) x \<in> {v_strs (view r0) x, None, Some (own_value self)}" for x
      using s by (simp add: own_writes_def)
    ultimately have "v_strs (view (snd (redisCommand E argv (redisSrv s)))) x \<in> {v_strs (view r0) x, None, Some (own_value self)}" for x
      by (metis insert_iff empty_iff)
    then show ?thesis using s by (simp add: own_writes_def)
  qed
  show "own_writes view r0 self (s\<lparr>selfNode := (selfNode s)\<lparr>heartbeatMs := now\<rparr>\<rparr>)"
    using s by (simp add: own_writes_def same_node_def)
  show "own_writes view r0 self (exec (runFlush E l) s)" for l
    by (rule preservesD [OF own_keeps [OF control_flush] s])
qed (rule own_keeps control_table control_enqueue control_router control_callbacks router_keeps)+

section \<open>Whose the sessions are\<close>

definition identity :: "('r, 'd) server \<Rightarrow> string \<times> string" where
  "identity v = (nodeId (selfNode (service v)), instanceId (selfNode (service v)))"

definition storable_node :: "('r, 'd) server \<Rightarrow> bool" where
  "storable_node v \<longleftrightarrow> storable (fst (identity v)) (snd (identity v))"

lemma identity_own: "same_node (selfNode (service v)) self \<longleftrightarrow> identity v = (nodeId self, instanceId self)"
  by (auto simp: identity_def same_node_def)

lemma own_value_identity: "own_value (selfNode (service v)) = c_str (sessionValue (fst (identity v)) (snd (identity v)))"
  by (simp add: own_value_def identity_def)

lemma session_value:
  assumes "storable_node v" and "v_strs w' (sessionKey u) \<in> {v_strs w (sessionKey u), None, Some (own_value (selfNode (service v)))}"
  shows "session_of w' u \<in> {session_of w u, None, Some (identity v)}"
proof -
  have "splitSession (c_str (own_value (selfNode (service v)))) = identity v" "fst (identity v) \<noteq> ''''"
    using assms(1) by (simp_all add: storable_node_def own_value_identity c_str_sessionValue splitSession_sessionValue)
      (simp_all add: storable_def splitSession_sessionValue)
  then show ?thesis using assms(2) by (auto simp: session_of_def split_beta)
qed

text \<open>The turn of a node, and the first turn of a new one.\<close>

lemma own_turn:
  fixes E :: "('r, 'd, 'e) service_env_scheme"
  assumes "redis_documented (redisCommand E) view" and "finite_keys view"
  shows "node_act E isClient v v' \<Longrightarrow>
      own_writes view (redisSrv (service v)) (selfNode (service v)) (service v')"
    and "addressesOf env argv = Some a \<Longrightarrow>
      own_writes view (redisSrv s) (bootMeta E env a s) (exec (serverMain E env base pool argv) s)"
proof -
  note law = own_law [OF assms]
  have "own_writes view (redisSrv (service v)) (selfNode (service v)) (service v)"
    by (simp add: own_writes_def same_node_def)
  then show "own_writes view (redisSrv (service v)) (selfNode (service v)) (service v')" if "node_act E isClient v v'"
    by (rule node_law.act [OF law that])
  have "own_writes view (redisSrv s) (bootMeta E env a s) (bootState E env base pool a s)"
    by (simp add: own_writes_def same_node_def bootState_def Let_def router_init_def service_init_def)
  then show "own_writes view (redisSrv s) (bootMeta E env a s) (exec (serverMain E env base pool argv) s)"
    if "addressesOf env argv = Some a"
    by (rule node_law.boot [OF law that])
qed

text \<open>A step changes the string keys to what the acting node writes, and nobody's identity.\<close>

lemma step_writes:
  fixes E :: "nat \<Rightarrow> ('r, 'd, 'e) service_env_scheme"
  assumes docs: "\<And>n. redis_documented (redisCommand (E n)) view" and fin: "finite_keys view"
    and step: "cluster_step E isClient i C C'"
  shows "i < length (members C')"
    and "v_strs (view (sharedRedis C')) x \<in>
      {v_strs (view (sharedRedis C)) x, None, Some (own_value (selfNode (service (members C' ! i))))}"
    and "take (length (members C)) (map identity (members C')) = map identity (members C)"
proof -
  have goal: "i < length (members C') \<and> v_strs (view (sharedRedis C')) x \<in>
      {v_strs (view (sharedRedis C)) x, None, Some (own_value (selfNode (service (members C' ! i))))} \<and>
    take (length (members C)) (map identity (members C')) = map identity (members C)"
    using step
  proof cases
    case (turn v)
    note own = own_turn(1) [OF docs [of i] fin turn(3)]
    then have same: "identity v = identity (members C ! i)"
      by (auto simp: own_writes_def same_node_def identity_def member_def Let_def)
    have "map identity (members C') = map identity (members C)"
      unfolding turn(1) after_turn_def using turn(2) by (simp add: map_update same list_update_same_conv)
    moreover have "members C' ! i = v" "i < length (members C')" using turn(1,2) by (simp_all add: after_turn_def)
    moreover have "own_value (selfNode (service v)) = own_value (selfNode (service (member C i)))"
      using own by (simp add: own_writes_def own_value_def same_node_def)
    ultimately show ?thesis using own turn(1)
      by (simp add: own_writes_def after_turn_def member_def Let_def)
  next
    case (join env base pool argv s v)
    from join(3) obtain a where a: "addressesOf env argv = Some a" by (auto simp: serverMain_def split: option.splits)
    note own = own_turn(2) [OF docs [of "length (members C)"] fin this, where base = base and pool = pool and s = s]
    then show ?thesis using join
      by (auto simp: own_writes_def own_value_def same_node_def after_turn_def started_node_def)
  qed
  then show "i < length (members C')"
    "v_strs (view (sharedRedis C')) x \<in>
      {v_strs (view (sharedRedis C)) x, None, Some (own_value (selfNode (service (members C' ! i))))}"
    "take (length (members C)) (map identity (members C')) = map identity (members C)" by blast+
qed

lemma step_sessions:
  assumes docs: "\<And>n. redis_documented (redisCommand (E n)) view" and fin: "finite_keys view"
    and step: "cluster_step E isClient i C C'" and storable: "list_all storable_node (members C')"
  shows "i < length (members C')"
    and "session_of (view (sharedRedis C')) u \<in> {session_of (view (sharedRedis C)) u, None, Some (identity (members C' ! i))}"
proof -
  note writes = step_writes [OF docs fin step]
  show i: "i < length (members C')" by (rule writes(1))
  then have "storable_node (members C' ! i)" using storable by (simp add: list_all_length)
  from session_value [OF this writes(2)]
  show "session_of (view (sharedRedis C')) u \<in> {session_of (view (sharedRedis C)) u, None, Some (identity (members C' ! i))}" .
qed

lemma step_identities:
  assumes docs: "\<And>n. redis_documented (redisCommand (E n)) view" and fin: "finite_keys view"
    and step: "cluster_step E isClient i C C'"
  shows "set (map identity (members C)) \<subseteq> set (map identity (members C'))"
  using step_writes(3) [OF docs fin step] by (metis set_take_subset)

lemma storable_identities:
  "list_all storable_node vs \<longleftrightarrow> (\<forall>p\<in>set (map identity vs). storable (fst p) (snd p))"
  by (auto simp: list_all_iff storable_node_def)

lemma run_sessions:
  assumes docs: "\<And>n. redis_documented (redisCommand (E n)) view" and fin: "finite_keys view"
    and run: "cluster_run E isClient C C'" and storable: "list_all storable_node (members C')"
    and "session_of (view (sharedRedis C')) u = Some p"
  shows "session_of (view (sharedRedis C)) u = Some p \<or> p \<in> set (map identity (members C'))"
  using run storable assms(5)
proof (induction rule: cluster_run.induct)
  case (steps C' i C'')
  note more = step_identities [OF docs fin steps.hyps(2)]
  note own = step_sessions [OF docs fin steps.hyps(2) steps.prems(1)]
  from own(2) [of u] steps.prems(2)
  consider "session_of (view (sharedRedis C')) u = Some p" | "p = identity (members C'' ! i)" by auto
  then show ?case
  proof cases
    case 1
    have "list_all storable_node (members C')" using steps.prems(1) more unfolding storable_identities by blast
    from steps.IH [OF this 1] more show ?thesis by blast
  next
    case 2
    then show ?thesis using own(1) by simp
  qed
qed simp

section \<open>Properties\<close>

text \<open>
  C9. The sessions belong to nodes of the cluster. The conditions are a Redis that behaves as
  documented and whose keys hold finitely many elements, and nodes whose id and incarnation
  can be stored: no NUL, an id that is not empty, no bar in the incarnation. Then, whatever
  clients and peers send and in whatever order the nodes take their turns: a user's session is
  one that was there at the beginning or names a node of the cluster by id and incarnation;
  and when a node takes a turn, or starts, every session is left as it was, removed, or made
  one of exactly this node, which keeps its own identity, as all others keep theirs. No node
  ever writes a session for another.
\<close>

theorem session_owners:
  assumes "\<forall>n. redis_documented (redisCommand (E n)) view" and "finite_keys view"
    and "cluster_run E isClient C0 C" and "cluster_step E isClient i C C'"
    and "list_all storable_node (members C')"
  shows "(\<forall>u p. session_of (view (sharedRedis C')) u = Some p \<longrightarrow>
        session_of (view (sharedRedis C0)) u = Some p \<or> p \<in> set (map identity (members C'))) \<and>
    i < length (members C') \<and>
    (\<forall>u. session_of (view (sharedRedis C')) u \<in>
        {session_of (view (sharedRedis C)) u, None, Some (identity (members C' ! i))}) \<and>
    take (length (members C)) (map identity (members C')) = map identity (members C)"
proof -
  have docs: "redis_documented (redisCommand (E n)) view" for n using assms(1) by blast
  have run: "cluster_run E isClient C0 C'" using assms(3,4) by (rule cluster_run.steps)
  show ?thesis
    using run_sessions [OF docs assms(2) run assms(5)] step_sessions [OF docs assms(2,4,5)]
      step_writes(3) [OF docs assms(2,4)] by blast
qed

section \<open>Witnesses\<close>

text \<open>The first node of a cluster.\<close>

definition sampleEmpty :: "(sample_redis, sample_db) cluster" where
  "sampleEmpty = \<lparr>members = [], sharedRedis = sampleStart, sharedDb = []\<rparr>"

definition sampleOne :: "(sample_redis, sample_db) cluster" where
  "sampleOne = after_turn [sampleStarted] sampleStarted"

lemma sample_join: "cluster_step (\<lambda>_. sampleNodeEnv) even 0 sampleEmpty sampleOne"
proof -
  have "result (serverMain sampleNodeEnv Map.empty 0 [7] [''ChatServer'', ''10.0.0.1'', ''6000'']) sampleService"
    by (simp add: serverMain_def addressesOf_def Let_def)
  from cluster_step.join [of "\<lambda>_. sampleNodeEnv" sampleEmpty, OF this _ _ sampleStarted_def] show ?thesis
    by (simp add: sampleEmpty_def sampleOne_def sampleService_def)
qed

lemma sample_finite: "finite_keys sampleView"
  by (simp add: finite_keys_def sampleView_def finite_dom_map_of)

lemma sample_docs: "redis_documented (redisCommand sampleNodeEnv) sampleView"
  using sample_env_ok(1) by (simp add: sampleNodeEnv_def sampleServiceEnv_def sampleEnv_def)

lemma show_int_no_bar: "CHR ''|'' \<notin> set (show_int i)"
proof -
  have "\<not> is_digit (CHR ''|'')" by (simp add: is_digit_def)
  then show ?thesis using show_nat_digits by (auto simp: show_int_def)
qed

lemma sample_storable: "storable_node sampleStarted"
proof -
  obtain a where a: "addressesOf Map.empty [''ChatServer'', ''10.0.0.1'', ''6000''] = Some a"
    and ip: "sa_interIp a = ''10.0.0.1''" by (simp add: addressesOf_def Let_def getEnvOrDefault_def)
  let ?m = "bootMeta sampleNodeEnv Map.empty a sampleService"
  have "identity sampleStarted = (nodeId ?m, instanceId ?m)"
    using own_turn(2) [OF sample_docs sample_finite a, of sampleService 0 "[7]"]
    by (simp add: own_writes_def identity_def same_node_def sampleStarted_def started_node_def)
  moreover have "storable (nodeId ?m) (instanceId ?m)"
    by (simp add: storable_def bootMeta_def Let_def ip show_int_no_bar) (simp add: NUL_def)
  ultimately show ?thesis by (simp add: storable_node_def)
qed

theorem session_owners_witness:
  "session_of (sampleView (sharedRedis sampleOne)) 5 \<in> {None, Some (identity sampleStarted)}"
proof -
  have docs: "\<forall>n :: nat. redis_documented (redisCommand ((\<lambda>_. sampleNodeEnv) n)) sampleView" using sample_docs by simp
  have one: "list_all storable_node (members sampleOne)" "members sampleOne = [sampleStarted]"
    using sample_storable by (simp_all add: sampleOne_def after_turn_def)
  have none: "session_of (sampleView (sharedRedis sampleEmpty)) 5 = None"
    by (simp add: session_of_def sampleView_def sampleEmpty_def sampleStart_def)
  from session_owners [OF docs sample_finite cluster_run.start sample_join one(1), THEN conjunct2, THEN conjunct2,
      THEN conjunct1, rule_format, of 5]
  show ?thesis unfolding one(2) none by simp
qed

end
