(* ===== verification/Shutdown.thy ===== *)
theory Shutdown
  imports SessionLifecycle
begin

text \<open>
  How a user leaves by a request (\<open>logout\<close>) and how a node leaves (\<open>reset\<close>, called by the
  interrupt handler of \<open>src/server/main.cpp\<close>), both in \<open>src/server/chatservice.cpp\<close>.
\<close>

section \<open>Logging out\<close>

text \<open>
  C24. A logout takes the user named in the request off the node and off the map, whoever asks.
  With a Redis that answers, on any connection, and whether or not the user is logged in
  there: afterwards the user has no connection in the table and no session, whichever node the
  session named, the database is told that the user is offline, nothing is answered, and the
  entries of all other users are as before.
\<close>

theorem logout_outcome:
  fixes s :: "('r, 'd, 'x) service_state_scheme" and E :: "('r, 'd, 'e) service_env_scheme"
  assumes doc: "redis_documented (redisCommand E) view" and ans: "answers (redisCommand E)"
    and ok: "buckets_ok s" and reg: "hasRegistry s" and js: "jint js ''id'' = Some u"
    and s': "s' = exec (logout E c js) s"
  shows "result (logout E c js) s = Finished \<and> tableOf s' = (tableOf s)(u := None) \<and>
    session_of (view (redisSrv s')) = (session_of (view (redisSrv s)))(u := None) \<and>
    sqlLog s' = sqlLog s @ [c_str (updateStateSql (makeUser u '''' '''' ''offline''))] \<and> outbox s' = outbox s"
proof -
  define t where "t = exec (removeLocalConnection u) s"
  have t: "tableOf t = (tableOf s)(u := None)" "hasRegistry t" "redisSrv t = redisSrv s" "sqlLog t = sqlLog s" "outbox t = outbox s"
    unfolding t_def buckets.remove_table [OF ok] using reg by (simp_all add: removeLocalConnection_def Let_def)
  define w where "w = exec (unbindUser E u) t"
  have w: "session_of (view (redisSrv w)) = (session_of (view (redisSrv s)))(u := None)"
    using sessions_unbind(2) [OF doc ans, of u "nodeId (selfNode t)" "exec (eraseCachedUserNode u) t"]
    by (simp add: w_def run_unbindUser t(3))
  have frame: "obs_db w = obs_db t" "obs_service w = obs_service t" "outbox w = outbox t"
    unfolding w_def obs_out_def [symmetric]
    by (rule keepsD [OF registry_lift(1) [OF beyond_bindUser(2)]] keepsD [OF registry_lift(2) [OF beyond_bindUser(2)]]
        keepsD [OF registry_lift(3) [OF beyond_bindUser(2)]])+
  have s'w: "s' = db_after E (updateStateSql (makeUser u '''' '''' ''offline'')) w"
    using js t(2) by (simp add: s' logout_def with_value_def finish_def releaseUser_def setOffline_def t_def w_def)
  have "tableOf s' = tableOf t"
    using frame(2) by (intro tableOf_cong) (simp add: s'w obs_service_def)
  then show ?thesis
    using t w frame js by (simp add: s'w db_after_def obs_db_def logout_def with_value_def finish_def)
qed

section \<open>Leaving the cluster\<close>

definition stopped :: "ShardChannel \<Rightarrow> bool" where
  "stopped ch \<longleftrightarrow> closing ch \<and> pending ch = [] \<and> connection ch = None"

lemma stop_all:
  assumes "i < length (channels s)" and "stopped (channels s ! i) \<or> i \<in> set is"
  shows "stopped (channels (fold (\<lambda>i. exec (stopChannel i)) is s) ! i)"
  using assms
proof (induction "is" arbitrary: s)
  case (Cons j "is")
  have "stopped (channels (exec (stopChannel j) s) ! i) \<or> i \<in> set is"
    using Cons.prems by (cases "j = i") (auto simp: stopped_def stopLocked_def)
  moreover have "i < length (channels (exec (stopChannel j) s))" using Cons.prems(1) by simp
  ultimately show ?case using Cons.IH by (simp del: exec_stopChannel)
qed simp

lemma stop_frame: "keeps (\<lambda>s. (outbox s, connMap s)) (for_each is stopChannel)"
proof -
  have "keeps (\<lambda>s. (outbox s, connMap s)) (stopChannel i)" for i by (simp add: keeps_def)
  then show ?thesis by (intro keeps)
qed

lemma closeAll_effect:
  assumes inv: "router_inv s" and s': "s' = exec closeAll s"
  shows "connMap s' = []" and "outbox s' = outbox s" and "i \<in> snd ` set (connMap s) \<Longrightarrow> stopped (channels s' ! i)"
proof -
  have s'f: "s' = fold (\<lambda>i. exec (stopChannel i)) (map snd (connMap s)) (s\<lparr>connMap := []\<rparr>)"
    by (simp add: s' closeAll_def del: exec_stopChannel)
  show "connMap s' = []" "outbox s' = outbox s"
    using keepsD [OF stop_frame, of "map snd (connMap s)" "s\<lparr>connMap := []\<rparr>"] by (simp_all add: s'f del: exec_stopChannel)
  show "stopped (channels s' ! i)" if "i \<in> snd ` set (connMap s)"
    unfolding s'f using inv that by (intro stop_all) (auto simp: router_inv_def)
qed

lemma offline_all:
  "sqlLog (exec (for_each us (setOffline E)) s) = sqlLog s @ map (\<lambda>u. c_str (updateStateSql (makeUser u '''' '''' ''offline''))) us"
  by (induction us arbitrary: s) (simp_all add: setOffline_def db_after_def)

lemma offline_frame:
  "keeps (\<lambda>s. (redisSrv s, running s, userRouteCache s, nodeMetaCache s, connMap s, outbox s, channels s)) (for_each us (setOffline E))"
proof -
  have "keeps (\<lambda>s. (redisSrv s, running s, userRouteCache s, nodeMetaCache s, connMap s, outbox s, channels s)) (setOffline E u)" for u
    by (simp add: keeps_def setOffline_def db_after_def)
  then show ?thesis by (intro keeps)
qed

lemma redis_only_running:
  fixes m :: "(('r, 'x) registry_state_scheme, 'a) state"
  assumes "redis_only m"
  shows "keeps running m"
proof (rule keepsI)
  fix s :: "('r, 'x) registry_state_scheme"
  obtain srv t where "exec m s = s\<lparr>redisSrv := srv, ticks := t\<rparr>" by (rule redis_onlyE [OF assms])
  then show "running (exec m s) = running s" by simp
qed

lemma running_cleanup: "keeps running (cleanupSelf E)"
proof -
  have clear: "keeps running (modify (\<lambda>s. s\<lparr>userRouteCache := Map.empty, nodeMetaCache := Map.empty\<rparr>))"
    by (rule keeps_modify) simp
  show ?thesis unfolding cleanupSelf_def by (intro keeps redis_only_ops [THEN redis_only_running] clear)
qed

text \<open>
  C25. What a node leaves behind when it is interrupted. With a Redis that answers, no user that
  was in the node's user set has a session, the heartbeat is stopped, both caches and the
  channel table are empty, and the database is told, once for each of these users and in the
  order Redis lists them, that the user is offline. But nothing is written any more: every
  channel that was open is closed with an empty queue, so messages that the router has
  accepted and that still waited for a connection are neither sent nor stored offline.
\<close>

theorem shutdown_outcome:
  fixes s :: "('r, 'd, 'x) service_state_scheme" and E :: "('r, 'd, 'e) service_env_scheme"
  assumes doc: "redis_documented (redisCommand E) view" and ans: "answers (redisCommand E)"
    and fin: "finite (v_sets (view (redisSrv s)) (nodeUsersKey (nodeId (selfNode s))))"
    and same: "nodeId (serviceNode s) = nodeId (selfNode s)"
    and there: "hasRegistry s" "hasRouter s" and inv: "router_inv s"
    and s': "s' = exec (reset E) s"
  shows "(\<forall>u. to_string u \<in> v_sets (view (redisSrv s)) (nodeUsersKey (nodeId (selfNode s))) \<longrightarrow> session_of (view (redisSrv s')) u = None) \<and>
    \<not> running s' \<and> userRouteCache s' = Map.empty \<and> nodeMetaCache s' = Map.empty \<and>
    sqlLog s' = sqlLog s @ map (\<lambda>u. c_str (updateStateSql (makeUser u '''' '''' ''offline'')))
      (result (getNodeUsers E (nodeId (selfNode s))) s) \<and>
    connMap s' = [] \<and> outbox s' = outbox s \<and>
    (\<forall>i \<in> snd ` set (connMap s). closing (channels s' ! i) \<and> pending (channels s' ! i) = [])"
proof -
  define n where "n = nodeId (selfNode s)"
  define s1 where "s1 = exec stop (exec (getNodeUsers E n) s)"
  define s2 where "s2 = exec (cleanupSelf E) s1"
  define s3 where "s3 = exec closeAll s2"
  let ?us = "result (getNodeUsers E n) s"
  have pre: "keeps beyond_registry (do { getNodeUsers E n; stop })"
    by (intro keeps registry_keeps)
  have frame: "beyond_registry s1 = beyond_registry s" "beyond_registry s2 = beyond_registry s"
    using keepsD [OF pre, of s] keepsD [OF beyond_cleanupSelf(1), of E s1] by (simp_all add: s1_def s2_def)
  then have self: "selfNode s1 = selfNode s" "hasRouter s2" "hasRegistry s1" "hasRouter s1"
    using there registry_frame(2) [OF frame(1)] registry_frame(2) [OF frame(2)]
    by (simp_all add: beyond_registry_def obs_service_def)
  have chans: "channels s2 = channels s \<and> connMap s2 = connMap s \<and> outbox s2 = outbox s \<and> sqlLog s2 = sqlLog s"
    by (rule registry_changes [OF frame(2) [symmetric]]) simp
  have run: "s' = exec (for_each ?us (setOffline E)) s3"
    using there same by (simp add: s' reset_def registered_def n_def [symmetric] s1_def s2_def s3_def del: exec_for_each)
  have "v_sets (view (redisSrv s1)) = v_sets (view (redisSrv s))"
    using smembers_sets [OF doc fin] by (simp add: s1_def n_def stop_def)
  then have gone: "session_of (view (redisSrv s2)) u = None" "userRouteCache s2 = Map.empty" "nodeMetaCache s2 = Map.empty"
    if "to_string u \<in> v_sets (view (redisSrv s)) (nodeUsersKey n)" for u
    using cleanup_gone [OF doc ans _ _ s2_def, of u] fin that by (simp_all add: self n_def)
  have idle: "\<not> running s2" using keepsD [OF running_cleanup, of E s1] by (simp add: s2_def s1_def stop_def)
  have "userRouteCache s2 = Map.empty" "nodeMetaCache s2 = Map.empty" by (simp_all add: s2_def cleanupSelf_def)
  moreover have "router_inv s2" using inv chans by (simp add: router_inv_def)
  note closed = closeAll_effect [OF this s3_def]
  moreover have "beyond_router s3 = beyond_router s2" unfolding s3_def by (rule keepsD [OF beyond_closeAll])
  moreover have "obs_db s3 = obs_db s2" unfolding s3_def by (rule keepsD [OF router_lift(1) [OF beyond_closeAll]])
  moreover note offline_all [where us = ?us and E = E and s = s3] keepsD [OF offline_frame [where us = ?us and E = E], of s3]
  ultimately show ?thesis
    using gone idle chans unfolding run n_def
    by (auto simp: beyond_router_def obs_db_def stopped_def simp del: exec_for_each)
qed

section \<open>Witnesses\<close>

text \<open>The user of connection 2 is logged out by a request on connection 3.\<close>

theorem logout_outcome_witness:
  "tableOf (exec (logout sampleNoRows 3 (JObj [(''id'', JInt 5)])) (exec (addLocalConnection 5 2) sampleService)) 5 = None"
proof -
  have js: "jint (JObj [(''id'', JInt 5)]) ''id'' = Some 5" by (simp add: jint_def jmember_def)
  have "hasRegistry (exec (addLocalConnection 5 2) sampleService)"
    using sampleService_facts(3) by (simp add: addLocalConnection_def Let_def)
  from logout_outcome [OF sampleNoRows_doc sampleOnline(2) this js refl, of 3] show ?thesis by simp
qed

text \<open>A node that user 7 has logged in to.\<close>

definition sampleLeaving :: "(sample_redis, sample_db) service_state" where
  "sampleLeaving = exec (bindUser sampleNoRows 7) sampleService"

theorem shutdown_outcome_witness:
  "session_of (sampleView (redisSrv (exec (reset sampleNoRows) sampleLeaving))) 7 = None"
proof -
  have sets: "v_sets (sampleView (redisSrv sampleLeaving)) (nodeUsersKey (nodeId (selfNode sampleLeaving))) = {to_string 7}"
    by (simp add: sampleLeaving_def bindUser_def bindUserNode_def sampleNoRows_def sampleServiceEnv_def sampleRedis_def
        sampleStart_def sampleService_def c_str_OK sampleView_def)
  have frame: "beyond_registry sampleLeaving = beyond_registry sampleService"
    unfolding sampleLeaving_def by (rule keepsD [OF beyond_bindUser(1)])
  have "selfNode sampleLeaving = sampleNode" using frame by (simp add: beyond_registry_def sampleService_def)
  then have facts: "nodeId (serviceNode sampleLeaving) = nodeId (selfNode sampleLeaving)" "hasRegistry sampleLeaving"
    "hasRouter sampleLeaving"
    using registry_frame(2) [OF frame] by (simp_all add: obs_service_def sampleService_def)
  have inv: "router_inv sampleLeaving"
    unfolding sampleLeaving_def by (rule preservesD [OF router_inv_beyond [OF beyond_bindUser(1)] sampleService_inv(2)])
  have "finite (v_sets (sampleView (redisSrv sampleLeaving)) (nodeUsersKey (nodeId (selfNode sampleLeaving))))"
    by (simp add: sets)
  from shutdown_outcome [OF sampleNoRows_doc this facts inv refl] show ?thesis by (simp add: sets)
qed

end
