(* ===== verification/LiveRoutes.thy ===== *)
theory LiveRoutes
  imports NodeRegistry
begin

text \<open>
  Where the answers of the registry come from (\<open>queryUserNode\<close>, \<open>resolveUserNode\<close> of
  \<open>src/server/noderegistry.cpp\<close>): the route of exactly this user, and the description of
  exactly the node of that route, each from its cache or from Redis.
\<close>

section \<open>What is known about a user and about a node\<close>

text \<open>The user's route, in a cache entry that has not expired or as the session in Redis.\<close>

definition route_known ::
  "('r, 'e) redis_env_scheme \<Rightarrow> ('r \<Rightarrow> redis_view) \<Rightarrow> ('r, 'x) registry_state_scheme \<Rightarrow> cint \<Rightarrow> string \<Rightarrow> string \<Rightarrow> bool" where
  "route_known E view s u nid inst \<longleftrightarrow>
     (\<exists>e t. userRouteCache s u = Some e \<and> ur_nodeId e = nid \<and> ur_instanceId e = inst \<and>
        ticks s \<le> t \<and> clock_ms E t \<le> ur_expireAtMs e) \<or>
     session_of (view (redisSrv s)) u = Some (nid, inst)"

text \<open>The description of a node, as the hash in Redis holds it.\<close>

definition stored_node :: "redis_view \<Rightarrow> string \<Rightarrow> NodeMeta \<Rightarrow> bool" where
  "stored_node v nid m \<longleftrightarrow> v_hashes v (nodeKey nid) \<noteq> Map.empty \<and> m = fieldsOf (v_hashes v (nodeKey nid)) emptyNodeMeta"

definition node_known ::
  "('r, 'e) redis_env_scheme \<Rightarrow> ('r \<Rightarrow> redis_view) \<Rightarrow> ('r, 'x) registry_state_scheme \<Rightarrow> string \<Rightarrow> NodeMeta \<Rightarrow> bool" where
  "node_known E view s nid m \<longleftrightarrow>
     (\<exists>e t. nodeMetaCache s nid = Some e \<and> nm_nodeMeta e = m \<and> ticks s \<le> t \<and> clock_ms E t \<le> nm_expireAtMs e) \<or>
     stored_node (view (redisSrv s)) nid m"

text \<open>
  \<open>follows view nid s t\<close>: what happened between the two states did not add anything about
  this node but what Redis held for it.
\<close>

definition follows ::
  "('r \<Rightarrow> redis_view) \<Rightarrow> string \<Rightarrow> ('r, 'x) registry_state_scheme \<Rightarrow> ('r, 'x) registry_state_scheme \<Rightarrow> bool" where
  "follows view nid s t \<longleftrightarrow> ticks s \<le> ticks t \<and>
     (v_hashes (view (redisSrv t)) (nodeKey nid) = v_hashes (view (redisSrv s)) (nodeKey nid) \<or>
      v_hashes (view (redisSrv t)) (nodeKey nid) = Map.empty) \<and>
     (\<forall>e. nodeMetaCache t nid = Some e \<longrightarrow>
        nodeMetaCache s nid = Some e \<or> stored_node (view (redisSrv s)) nid (nm_nodeMeta e))"

lemma follows_refl: "follows view nid s s"
  by (simp add: follows_def)

lemma follows_stored: "follows view nid s t \<Longrightarrow> stored_node (view (redisSrv t)) nid m \<Longrightarrow> stored_node (view (redisSrv s)) nid m"
  by (auto simp: follows_def stored_node_def)

lemma follows_trans:
  assumes "follows view nid r s" and "follows view nid s t"
  shows "follows view nid r t"
proof -
  have "nodeMetaCache r nid = Some e \<or> stored_node (view (redisSrv r)) nid (nm_nodeMeta e)"
    if "nodeMetaCache t nid = Some e" for e
    using that assms follows_stored [OF assms(1)] unfolding follows_def by blast
  moreover have "v_hashes (view (redisSrv t)) (nodeKey nid) = v_hashes (view (redisSrv r)) (nodeKey nid) \<or>
      v_hashes (view (redisSrv t)) (nodeKey nid) = Map.empty"
    using assms unfolding follows_def by auto
  ultimately show ?thesis using assms by (simp add: follows_def)
qed

lemma follows_known:
  assumes "follows view nid s t" and "node_known E view t nid m"
  shows "node_known E view s nid m"
proof (cases "stored_node (view (redisSrv s)) nid m")
  case False
  then obtain e k where e: "nodeMetaCache t nid = Some e" "nm_nodeMeta e = m" "ticks t \<le> k" "clock_ms E k \<le> nm_expireAtMs e"
    using assms follows_stored [OF assms(1), of m] by (auto simp: node_known_def)
  then have "nodeMetaCache s nid = Some e" "ticks s \<le> k" using assms(1) False by (auto simp: follows_def)
  with e show ?thesis by (auto simp: node_known_def)
qed (simp add: node_known_def)

definition clean_node :: "('r \<Rightarrow> redis_view) \<Rightarrow> string \<Rightarrow> ('r, 'x) registry_state_scheme \<Rightarrow> bool" where
  "clean_node view nid s \<longleftrightarrow> onlyNodeFields (v_hashes (view (redisSrv s)) (nodeKey nid))"

lemma follows_clean: "follows view nid s t \<Longrightarrow> clean_node view nid s \<Longrightarrow> clean_node view nid t"
  by (auto simp: follows_def clean_node_def onlyNodeFields_def)

section \<open>The operations\<close>

lemma follows_caches:
  "follows view nid s (exec (getCachedUserNode E u) s)" "follows view nid s (exec (getCachedNode E n) s)"
  "follows view nid s (exec (cacheUserNode E u n i) s)" "follows view nid s (exec (eraseCachedNode n) s)"
  by (auto simp: follows_def exec_getCachedUserNode exec_getCachedNode split: option.split)

lemma get_step:
  assumes doc: "redis_documented command view" and run: "command [''GET'', k] r = (reply, r')"
  shows "expired (view r) (view r')"
proof -
  obtain y w where "redis_doc [''GET'', k] (view r) y w"
    by (cases "v_strs (view r) k") (auto intro: redis_doc.get_none redis_doc.get_some)
  from redis_step [OF doc this run] show ?thesis by (auto simp: expired_def elim!: doc_get)
qed

lemma follows_getUserSession:
  assumes "redis_documented (redisCommand E) view"
  shows "follows view nid s (exec (getUserSession E u) s)"
proof -
  obtain reply r' where run: "redisCommand E [''GET'', sessionKey u] (redisSrv s) = (reply, r')" by fastforce
  from get_step [OF assms run] show ?thesis
    by (auto simp: follows_def getUserSession_def run expired_def)
qed

lemma getNode_some:
  assumes doc: "redis_documented (redisCommand E) view" and clean: "clean_node view nid s"
  shows "follows view nid s (exec (getNode E nid) s)"
    and "result (getNode E nid) s = Some m \<Longrightarrow> stored_node (view (redisSrv s)) nid m"
proof -
  obtain reply r' where run: "redisCommand E [''HGETALL'', nodeKey nid] (redisSrv s) = (reply, r')" by fastforce
  let ?h = "v_hashes (view (redisSrv s)) (nodeKey nid)"
  have only: "onlyNodeFields ?h" using clean by (simp add: clean_node_def)
  from hgetall_step(1) [OF doc only run] show "follows view nid s (exec (getNode E nid) s)"
    by (auto simp: follows_def getNode_def run expired_def)
  assume some: "result (getNode E nid) s = Some m"
  then obtain kvs where kvs: "distinct (map fst kvs)" "map_of kvs = ?h" "reply = Some (RArray (map RString (flat kvs)))"
    using hgetall_reply [OF doc only run] by (auto simp: getNode_def run split: option.splits)
  have "kvs \<noteq> []" using some by (auto simp: getNode_def run kvs(3))
  then have "?h \<noteq> Map.empty" using kvs(2) by (cases kvs) auto
  moreover have "readNodeFields (map RString (flat kvs)) emptyNodeMeta = fieldsOf ?h emptyNodeMeta"
    using readNodeFields_hash [OF kvs(1), of emptyNodeMeta] only by (simp add: kvs(2))
  then have "m = fieldsOf ?h emptyNodeMeta"
    using some by (auto simp: getNode_def run kvs(3) Let_def split: if_splits)
  ultimately show "stored_node (view (redisSrv s)) nid m" by (simp add: stored_node_def)
qed

lemma queryNode_known:
  assumes doc: "redis_documented (redisCommand E) view" and clean: "clean_node view nid s"
  shows "follows view nid s (exec (queryNode E nid) s)"
    and "result (queryNode E nid) s = Some m \<Longrightarrow> node_known E view s nid m"
proof -
  define s1 where "s1 = exec (getCachedNode E nid) s"
  have s1: "follows view nid s s1" unfolding s1_def by (rule follows_caches)
  note get = getNode_some [OF doc follows_clean [OF s1 clean]]
  have "follows view nid s (exec (queryNode E nid) s) \<and>
    (result (queryNode E nid) s = Some m \<longrightarrow> node_known E view s nid m)"
  proof (cases "result (getCachedNode E nid) s")
    case (Some c)
    then have run: "result (queryNode E nid) s = Some c" "exec (queryNode E nid) s = s1"
      by (simp_all add: queryNode_def s1_def)
    obtain e where "nodeMetaCache s nid = Some e" "nm_nodeMeta e = c" "clock_ms E (ticks s) \<le> nm_expireAtMs e"
      using Some by (cases "nodeMetaCache s nid") (auto simp: run_getCachedNode split: if_splits)
    then have "node_known E view s nid c" unfolding node_known_def by blast
    then show ?thesis using s1 run by auto
  next
    case None
    define s2 where "s2 = exec (getNode E nid) s1"
    have s2: "follows view nid s s2" using follows_trans [OF s1 get(1)] by (simp add: s2_def)
    show ?thesis
    proof (cases "result (getNode E nid) s1")
      case N: None
      then have "exec (queryNode E nid) s = exec (eraseCachedNode nid) s2" "result (queryNode E nid) s = None"
        using None by (simp_all add: queryNode_def s1_def s2_def)
      then show ?thesis using follows_trans [OF s2 follows_caches(4), of nid] by simp
    next
      case (Some c)
      then have run: "exec (queryNode E nid) s = exec (cacheNode E c) s2" "result (queryNode E nid) s = Some c"
        using None by (simp_all add: queryNode_def s1_def s2_def)
      have stored: "stored_node (view (redisSrv s)) nid c" by (rule follows_stored [OF s1 get(2) [OF Some]])
      then have "follows view nid s (exec (cacheNode E c) s2)"
        using s2 by (auto simp: follows_def)
      then show ?thesis using stored run by (auto simp: node_known_def)
    qed
  qed
  then show "follows view nid s (exec (queryNode E nid) s)"
    "result (queryNode E nid) s = Some m \<Longrightarrow> node_known E view s nid m" by blast+
qed

lemma checkRoute_live:
  assumes doc: "redis_documented (redisCommand E) view" and clean: "clean_node view nid s"
    and found: "result (checkRoute E u n i) s = Some nid"
  shows "n = nid" "follows view nid s (exec (checkRoute E u n i) s)"
    "\<exists>m. node_known E view s nid m \<and> i \<noteq> '''' \<and> instanceId m = i"
proof -
  have match: "instanceMatches (result (queryNode E n) s) i" and n: "n = nid"
    using found by (auto simp: checkRoute_def dropStaleSession_def split: if_splits)
  then obtain m where m: "result (queryNode E nid) s = Some m" "i \<noteq> ''''" "instanceId m = i"
    by (auto simp: instanceMatches_def split: option.splits)
  show "n = nid" by (rule n)
  show "\<exists>m. node_known E view s nid m \<and> i \<noteq> '''' \<and> instanceId m = i"
    using queryNode_known(2) [OF doc clean m(1)] m(2,3) by blast
  have "exec (checkRoute E u n i) s = exec (queryNode E nid) s"
    using match by (simp add: checkRoute_def n)
  then show "follows view nid s (exec (checkRoute E u n i) s)" using queryNode_known(1) [OF doc clean] by simp
qed

lemma queryUserNode_live:
  fixes s :: "('r, 'x) registry_state_scheme"
  assumes doc: "redis_documented (redisCommand E) view" and clean: "clean_node view nid s"
    and found: "result (queryUserNode E u) s = Some nid"
  shows "follows view nid s (exec (queryUserNode E u) s)"
    and "\<exists>inst m. inst \<noteq> '''' \<and> instanceId m = inst \<and> route_known E view s u nid inst \<and> node_known E view s nid m"
proof -
  define s1 where "s1 = exec (getCachedUserNode E u) s"
  have s1: "follows view nid s s1" unfolding s1_def by (rule follows_caches)
  obtain n i t where "follows view nid s t" "route_known E view s u n i"
    and run: "result (queryUserNode E u) s = result (checkRoute E u n i) t"
      "exec (queryUserNode E u) s = exec (checkRoute E u n i) t"
  proof (cases "result (getCachedUserNode E u) s")
    case (Some p)
    obtain n i where p: "p = (n, i)" by fastforce
    obtain e where "userRouteCache s u = Some e" "ur_nodeId e = n" "ur_instanceId e = i" "clock_ms E (ticks s) \<le> ur_expireAtMs e"
      using getCachedUserNode_some [of E u s n i] Some p by auto
    then have "route_known E view s u n i" unfolding route_known_def by blast
    with that [OF s1 this] show thesis using Some p by (simp add: queryUserNode_checkRoute s1_def)
  next
    case None
    define s2 where "s2 = exec (getUserSession E u) s1"
    have s2: "follows view nid s s2" unfolding s2_def by (rule follows_trans [OF s1 follows_getUserSession [OF doc]])
    show thesis
    proof (cases "result (getUserSession E u) s1")
      case N: None
      then show thesis using found None by (simp add: queryUserNode_checkRoute s1_def)
    next
      case (Some p)
      obtain n i where p: "p = (n, i)" by fastforce
      have "redisSrv s1 = redisSrv s" using getCachedUserNode_none [OF None] by (simp add: s1_def)
      then have "session_of (view (redisSrv s)) u = Some (n, i)"
        using sessions_lookup(2) [OF doc Some] by (simp add: p)
      then have "route_known E view s u n i" by (simp add: route_known_def)
      from that [OF follows_trans [OF s2 follows_caches(3)] this, of E u n i] show thesis
        using None Some p by (simp add: queryUserNode_checkRoute s1_def s2_def)
    qed
  qed
  note t = this
  have "result (checkRoute E u n i) t = Some nid" using run(1) found by simp
  note live = checkRoute_live [OF doc follows_clean [OF t(1) clean] this]
  show "follows view nid s (exec (queryUserNode E u) s)"
    unfolding run(2) by (rule follows_trans [OF t(1) live(2)])
  show "\<exists>inst m. inst \<noteq> '''' \<and> instanceId m = inst \<and> route_known E view s u nid inst \<and> node_known E view s nid m"
    using live(1,3) t(2) follows_known [OF t(1)] by blast
qed

section \<open>Property\<close>

text \<open>
  C11. A user is only routed to an incarnation that is known to be alive. The conditions are a
  documented Redis and a hash of the node that holds only the fields of a description. When
  \<open>queryUserNode\<close> answers with a node, then the route of exactly this user names that node and
  an instance id that is not empty, in a cache entry that has not expired or in the session
  in Redis; and exactly that node has a description with the same instance id, in a cache entry
  that has not expired or in its hash in Redis. So a session left by an earlier run of a node
  is not answered, up to the age of the cached descriptions. What \<open>resolveUserNode\<close> answers is
  a node with such a route and such a description, and the description that comes with it is
  one of exactly that node, from the cache or from Redis.
\<close>

theorem query_live:
  fixes s :: "('r, 'x) registry_state_scheme"
  assumes "redis_documented (redisCommand E) view"
    and "onlyNodeFields (v_hashes (view (redisSrv s)) (nodeKey nid))"
  shows "(result (queryUserNode E u) s = Some nid \<longrightarrow>
      (\<exists>inst m. inst \<noteq> '''' \<and> instanceId m = inst \<and> route_known E view s u nid inst \<and> node_known E view s nid m)) \<and>
    (result (resolveUserNode E u) s = Some (nid, meta) \<longrightarrow>
      node_known E view s nid meta \<and>
      (\<exists>inst m. inst \<noteq> '''' \<and> instanceId m = inst \<and> route_known E view s u nid inst \<and> node_known E view s nid m))"
proof (intro conjI impI)
  have clean: "clean_node view nid s" using assms(2) by (simp add: clean_node_def)
  note live = queryUserNode_live [OF assms(1)]
  show "\<exists>inst m. inst \<noteq> '''' \<and> instanceId m = inst \<and> route_known E view s u nid inst \<and> node_known E view s nid m"
    if "result (queryUserNode E u) s = Some nid" using live(2) [OF clean that] .
  define s1 where "s1 = exec (getCachedUserNode E u) s"
  have s1: "follows view nid s s1" unfolding s1_def by (rule follows_caches)
  assume found: "result (resolveUserNode E u) s = Some (nid, meta)"
  have "node_known E view s nid meta \<and>
      (\<exists>inst m. inst \<noteq> '''' \<and> instanceId m = inst \<and> route_known E view s u nid inst \<and> node_known E view s nid m)"
  proof (cases "\<exists>n i. result (getCachedUserNode E u) s = Some (n, i) \<and> instanceMatches (result (getCachedNode E n) s1) i")
    case True
    then obtain n i where hit: "result (getCachedUserNode E u) s = Some (n, i)" "instanceMatches (result (getCachedNode E n) s1) i"
      by blast
    then have m: "n = nid" "result (getCachedNode E nid) s1 = Some meta" "i \<noteq> ''''" "instanceId meta = i"
      using found by (auto simp: resolveUserNode_def s1_def instanceMatches_def split: option.splits)
    obtain e where e: "userRouteCache s u = Some e" "ur_nodeId e = nid" "ur_instanceId e = i" "clock_ms E (ticks s) \<le> ur_expireAtMs e"
      using getCachedUserNode_some [OF hit(1)] m(1) by auto
    then have "route_known E view s u nid i" unfolding route_known_def by blast
    moreover obtain c where "nodeMetaCache s1 nid = Some c" "nm_nodeMeta c = meta" "clock_ms E (ticks s1) \<le> nm_expireAtMs c"
      using m(2) by (cases "nodeMetaCache s1 nid") (auto simp: run_getCachedNode split: if_splits)
    then have "node_known E view s nid meta" by (intro follows_known [OF s1]) (auto simp: node_known_def)
    ultimately show ?thesis using m(3,4) by blast
  next
    case False
    define s2 where "s2 = (case result (getCachedUserNode E u) s of None \<Rightarrow> s1 | Some (n, i) \<Rightarrow> exec (getCachedNode E n) s1)"
    have s2: "follows view nid s s2"
      using follows_trans [OF s1 follows_caches(2)] s1 by (auto simp: s2_def split: option.split)
    define s3 where "s3 = exec (queryUserNode E u) s2"
    have run: "result (queryUserNode E u) s2 = Some nid" "result (queryNode E nid) s3 = Some meta"
    proof -
      have "result (resolveUserNode E u) s = (case result (queryUserNode E u) s2 of None \<Rightarrow> None
          | Some n \<Rightarrow> map_option (\<lambda>m. (n, m)) (result (queryNode E n) s3))"
        using False by (auto simp: resolveUserNode_def s3_def s2_def s1_def split: option.split)
      then have "\<exists>n. result (queryUserNode E u) s2 = Some n \<and> map_option (\<lambda>m. (n, m)) (result (queryNode E n) s3) = Some (nid, meta)"
        using found by (simp split: option.splits)
      then show "result (queryUserNode E u) s2 = Some nid" "result (queryNode E nid) s3 = Some meta" by auto
    qed
    note live2 = live [OF follows_clean [OF s2 clean] run(1)]
    have s3: "follows view nid s s3" unfolding s3_def by (rule follows_trans [OF s2 live2(1)])
    have "node_known E view s nid meta"
      by (rule follows_known [OF s3 queryNode_known(2) [OF assms(1) follows_clean [OF s3 clean] run(2)]])
    moreover have "route_known E view s u nid inst" if "route_known E view s2 u nid inst" for inst
    proof -
      have "userRouteCache s2 u = Some e \<Longrightarrow> userRouteCache s u = Some e" "ticks s \<le> ticks s2" "redisSrv s2 = redisSrv s" for e
        by (auto simp: s2_def s1_def exec_getCachedUserNode exec_getCachedNode split: option.splits if_splits)
      then show ?thesis using that unfolding route_known_def by (metis order_trans)
    qed
    ultimately show ?thesis using live2(2) follows_known [OF s2] by blast
  qed
  then show "node_known E view s nid meta"
    "\<exists>inst m. inst \<noteq> '''' \<and> instanceId m = inst \<and> route_known E view s u nid inst \<and> node_known E view s nid m" by blast+
qed

theorem query_live_witness:
  "\<exists>inst m. instanceId m = inst \<and> inst \<noteq> '''' \<and> node_known sampleEnv sampleView sampleBusy (nodeId sampleNode) m"
proof -
  have "onlyNodeFields (v_hashes (sampleView (redisSrv sampleBusy)) (nodeKey (nodeId sampleNode)))"
    by (simp add: onlyNodeFields_def sampleBusy_def sampleView_def sampleStart_def)
  from query_live [OF sample_env_ok(1) this] sample_query_5 show ?thesis by blast
qed

end
