(* ===== verification/StaleRoutes.thy ===== *)
theory StaleRoutes
  imports NodeRegistry
begin

text \<open>
  A limit of the registry (\<open>src/server/noderegistry.cpp\<close>): when a route turns out to be stale,
  \<open>queryUserNode\<close> deletes the session key of the user without looking at what it holds by then.
\<close>

lemma cleared_bind:
  fixes s :: "('r, 'x) registry_state_scheme"
  assumes doc: "redis_documented (redisCommand E) view" and ans: "answers (redisCommand E)"
    and free: "v_strs (view (redisSrv s)) (sessionKey u) = None"
  shows "result (bindUser E u) s"
proof -
  let ?self = "selfNode s"
  obtain reply r1 where set: "redisCommand E [''SET'', sessionKey u, c_str (sessionValue (nodeId ?self) (instanceId ?self)), ''NX'']
      (redisSrv s) = (reply, r1)" by fastforce
  have "reply = Some (RStatus ''OK'')"
    using strs_step(2) [OF doc set refl free] answersD [OF ans set] by auto
  moreover have "fst (redisCommand E [''SADD'', nodeUsersKey (nodeId ?self), to_string u] r1) \<noteq> None"
    using ans by (simp add: answers_def)
  ultimately have "result (bindUserNode E u (nodeId ?self) (instanceId ?self)) s"
    by (simp add: bindUserNode_def set c_str_OK)
  then show ?thesis by (simp add: bindUser_def)
qed

lemma drop_clears:
  fixes s :: "('r, 'x) registry_state_scheme"
  assumes doc: "redis_documented (redisCommand E) view" and ans: "answers (redisCommand E)"
  shows "v_strs (view (redisSrv (exec (dropStaleSession E u n) s))) (sessionKey u) = None"
proof -
  obtain reply r1 where del: "redisCommand E [''DEL'', sessionKey u] (redisSrv s) = (reply, r1)" by fastforce
  obtain reply' r2 where rem: "redisCommand E [''SREM'', nodeUsersKey n, to_string u] r1 = (reply', r2)" by fastforce
  have "v_strs (view r1) (sessionKey u) = None"
    using strs_step(4) [OF doc del refl] answersD [OF ans del] by auto
  moreover have "v_strs (view r2) = v_strs (view r1)" by (rule strs_step(6) [OF doc rem refl])
  ultimately show ?thesis
    using answersD [OF ans del] by (simp add: dropStaleSession_def unbindUserNode_def del rem)
qed

text \<open>
  C33. A stale route takes away a live session. A node has a route of the user in its cache
  that has not expired, and finds that the node of the route no longer runs in that
  incarnation. Whatever session the user has by now, one on another live node included:
  \<open>queryUserNode\<close> answers no, the session is gone although nobody logged out, and this node can
  bind the user, who is still connected to the other one.
\<close>

theorem stale_route_unbinds:
  fixes s :: "('r, 'x) registry_state_scheme"
  assumes doc: "redis_documented (redisCommand E) view" and ans: "answers (redisCommand E)"
    and cached: "userRouteCache s u = Some e" "clock_ms E (ticks s) \<le> ur_expireAtMs e"
    and dead: "\<not> instanceMatches (result (queryNode E (ur_nodeId e)) (s\<lparr>ticks := Suc (ticks s)\<rparr>)) (ur_instanceId e)"
  defines "s' \<equiv> exec (queryUserNode E u) s"
  shows "result (queryUserNode E u) s = None \<and> session_of (view (redisSrv s')) u = None \<and> result (bindUser E u) s'"
proof -
  let ?t = "s\<lparr>ticks := Suc (ticks s)\<rparr>"
  have hit: "result (getCachedUserNode E u) s = Some (ur_nodeId e, ur_instanceId e)" "exec (getCachedUserNode E u) s = ?t"
    using cached by (simp_all add: run_getCachedUserNode exec_getCachedUserNode)
  have s': "s' = exec (dropStaleSession E u (ur_nodeId e)) (exec (queryNode E (ur_nodeId e)) ?t)"
    unfolding s'_def by (simp add: queryUserNode_checkRoute hit checkRoute_def dead)
  note free = drop_clears [OF doc ans, of u "ur_nodeId e" "exec (queryNode E (ur_nodeId e)) ?t", folded s']
  have "result (queryUserNode E u) s = None"
    by (simp add: queryUserNode_checkRoute hit checkRoute_def dead dropStaleSession_def)
  then show ?thesis using free cleared_bind [OF doc ans free] by (simp add: session_of_def)
qed

text \<open>User 5 was on node \<open>n9\<close>, which is gone, and has logged in on \<open>n2\<close>.\<close>

definition sampleMoved :: "sample_redis registry_state" where
  "sampleMoved = sampleBusy
     \<lparr>redisSrv := sampleStart\<lparr>sr_strs := [sessionKey 5 \<mapsto> sessionValue ''n2'' ''n2#1'']\<rparr>,
      userRouteCache := [5 \<mapsto> \<lparr>ur_nodeId = ''n9'', ur_instanceId = ''n9#1'', ur_expireAtMs = 1000\<rparr>]\<rparr>"

theorem stale_route_unbinds_witness:
  "session_of (sampleView (redisSrv sampleMoved)) 5 = Some (''n2'', ''n2#1'') \<and>
   session_of (sampleView (redisSrv (exec (queryUserNode sampleEnv 5) sampleMoved))) 5 = None \<and>
   result (bindUser sampleEnv 5) (exec (queryUserNode sampleEnv 5) sampleMoved)"
proof -
  have "c_str (sessionValue ''n2'' ''n2#1'') = sessionValue ''n2'' ''n2#1''"
    by (rule c_str_id) (simp add: sessionValue_def NUL_def)
  then have before: "session_of (sampleView (redisSrv sampleMoved)) 5 = Some (''n2'', ''n2#1'')"
    by (simp add: session_of_def sampleView_def sampleMoved_def splitSession_sessionValue)
  define e where "e = \<lparr>ur_nodeId = ''n9'', ur_instanceId = ''n9#1'', ur_expireAtMs = 1000\<rparr>"
  have cached: "userRouteCache sampleMoved 5 = Some e" "clock_ms sampleEnv (ticks sampleMoved) \<le> ur_expireAtMs e"
    by (simp_all add: sampleMoved_def e_def sampleBusy_def sampleRegistry_def clock_ms_def sampleEnv_def c_div_def)
  have "result (queryNode sampleEnv ''n9'') (sampleMoved\<lparr>ticks := Suc (ticks sampleMoved)\<rparr>) = None"
    by (simp add: queryNode_def run_getCachedNode exec_getCachedNode getNode_def sampleMoved_def sampleBusy_def
        sampleEnv_def sampleRedis_def sampleStart_def sampleRegistry_def sampleNode_def)
  then have "\<not> instanceMatches (result (queryNode sampleEnv (ur_nodeId e)) (sampleMoved\<lparr>ticks := Suc (ticks sampleMoved)\<rparr>)) (ur_instanceId e)"
    by (simp add: e_def instanceMatches_def)
  from stale_route_unbinds [OF sample_env_ok cached this] before show ?thesis by blast
qed

end
