(* ===== verification/Injection.thy ===== *)
theory Injection
  imports OfflineStore
begin

text \<open>
  \<open>OfflineMsgModel::insert\<close> (\<open>src/server/model/offlinemessagemodel.cpp\<close>) writes the message into
  the statement as it is. \<open>OfflineStore\<close> is about the messages that mean themselves inside an
  SQL literal; this theory is about one that does not.
\<close>

section \<open>A statement with two rows\<close>

definition twoRowsText :: "cint \<Rightarrow> string \<Rightarrow> cint \<Rightarrow> string \<Rightarrow> string" where
  "twoRowsText u m v n = ''insert into offlinemessage values('' @ to_string u @ '', '' @ quoted m @ ''), ('' @
     to_string v @ '', '' @ quoted n @ '')''"

text \<open>The manual: an \<open>INSERT\<close> with several row constructors inserts all the rows.\<close>

definition two_rows_documented :: "(string \<Rightarrow> 'd \<Rightarrow> mysql_reply \<times> 'd) \<Rightarrow> ('d \<Rightarrow> cint \<Rightarrow> string multiset) \<Rightarrow> bool" where
  "two_rows_documented q view \<longleftrightarrow>
     (\<forall>u m v n d. plain_text m \<longrightarrow> plain_text n \<longrightarrow>
        (\<exists>i d'. q (twoRowsText u m v n) d = (Done i, d') \<and>
           view d' = (\<lambda>w. view d w + (if w = u then {#m#} else {#}) + (if w = v then {#n#} else {#}))))"

text \<open>The message that continues the statement: it ends its literal, and starts a row for \<open>v\<close>.\<close>

definition forged :: "string \<Rightarrow> cint \<Rightarrow> string \<Rightarrow> string" where
  "forged m v n = m @ CHR 0x27 # ''), ('' @ to_string v @ '', '' @ CHR 0x27 # n"

lemma forged_statement:
  assumes "plain_text m" and "plain_text n"
  shows "insertOfflineText u (forged m v n) = twoRowsText u m v n"
proof -
  have "NUL \<notin> set (forged m v n)" "NUL \<notin> set m" "NUL \<notin> set n"
    using assms to_string_no_nul [of v] by (simp_all add: forged_def plain_text_def) (simp_all add: NUL_def)
  then show ?thesis by (simp add: insertOfflineText_def twoRowsText_def quoted_def c_str_id) (simp add: forged_def)
qed

text \<open>
  C39. A message can put a message into somebody else's mailbox. The text is not escaped: a
  message for user \<open>u\<close> that holds an apostrophe, a closing and an opening parenthesis is sent to
  MySQL as an insertion of two rows, and, as MySQL documents such statements, stores a message
  of the sender's choice for any user \<open>v\<close> he names, besides the one for \<open>u\<close>.
\<close>

theorem offline_forgery:
  fixes s :: "('r, 'd, 'x) db_state_scheme" and E :: "('r, 'd, 'e) db_env_scheme"
  assumes doc: "two_rows_documented (mysqlQuery E) view" and plain: "plain_text m" "plain_text n"
    and fit: "length (forged m v n) \<le> 973" and s': "s' = exec (OfflineMsgModel_insert E u (forged m v n)) s"
  shows "view (database s') =
    (\<lambda>w. view (database s) w + (if w = u then {#m#} else {#}) + (if w = v then {#n#} else {#}))"
proof -
  have "length (insertOfflineText u (forged m v n)) < sqlBuffer"
    using fit length_to_string [of u] length_c_str [of "forged m v n"]
    by (simp add: insertOfflineText_def quoted_def sqlBuffer_def)
  then have "insertOfflineSql u (forged m v n) = twoRowsText u m v n"
    by (simp add: insertOfflineSql_text snprintf_id forged_statement [OF plain])
  moreover have "c_str (insertOfflineSql u (forged m v n)) = insertOfflineSql u (forged m v n)" by simp
  moreover obtain i d' where "mysqlQuery E (twoRowsText u m v n) (database s) = (Done i, d')"
    "view d' = (\<lambda>w. view (database s) w + (if w = u then {#m#} else {#}) + (if w = v then {#n#} else {#}))"
    using doc plain unfolding two_rows_documented_def by blast
  ultimately show ?thesis by (simp add: s' db_after_def)
qed

section \<open>Witness\<close>

text \<open>A database that reads one or two rows behind \<open>values\<close>.\<close>

definition readRow :: "string \<Rightarrow> (cint \<times> string) \<times> string" where
  "readRow text' = (let (u, rest) = split_at (CHR '','') text'; (m, rest) = split_at (CHR 0x27) (drop 2 rest) in ((atoi u, m), rest))"

definition sampleRows :: "string \<Rightarrow> sample_db \<Rightarrow> mysql_reply \<times> sample_db" where
  "sampleRows sql d =
     (let (row, rest) = readRow (drop 34 sql)
      in (Done 0, d @ row # (if take 4 rest = ''), ('' then [fst (readRow (drop 4 rest))] else [])))"

lemma readRow_text: "plain_text m \<Longrightarrow> readRow (to_string u @ '', '' @ quoted m @ rest) = ((u, m), rest)"
  by (simp add: readRow_def split_at_append [OF to_string_no_comma] quoted_def plain_text_def c_str_id split_at_append)

lemma sampleRows_documented: "two_rows_documented sampleRows sampleStored"
  unfolding two_rows_documented_def
proof (intro allI impI)
  fix u m v n d
  assume plain: "plain_text m" "plain_text n"
  let ?tail = "to_string v @ '', '' @ quoted n @ '')''"
  have "drop 34 (twoRowsText u m v n) = to_string u @ '', '' @ quoted m @ ''), ('' @ ?tail" by (simp add: twoRowsText_def)
  moreover have "readRow (to_string u @ '', '' @ quoted m @ ''), ('' @ ?tail) = ((u, m), ''), ('' @ ?tail)"
    by (rule readRow_text [OF plain(1)])
  moreover have "readRow ?tail = ((v, n), '')'')" by (rule readRow_text [OF plain(2)])
  ultimately have "sampleRows (twoRowsText u m v n) d = (Done 0, d @ [(u, m), (v, n)])" by (simp add: sampleRows_def)
  moreover have "sampleStored (d @ [(u, m), (v, n)]) =
      (\<lambda>w. sampleStored d w + (if w = u then {#m#} else {#}) + (if w = v then {#n#} else {#}))"
    using plain by (auto simp: sampleStored_def fun_eq_iff plain_text_def c_str_id)
  ultimately show "\<exists>i d'. sampleRows (twoRowsText u m v n) d = (Done i, d') \<and>
      sampleStored d' = (\<lambda>w. sampleStored d w + (if w = u then {#m#} else {#}) + (if w = v then {#n#} else {#}))" by blast
qed

theorem offline_forgery_witness:
  "sampleStored (database (exec (OfflineMsgModel_insert (sampleDbEnv\<lparr>mysqlQuery := sampleRows\<rparr>) 5 (forged ''a'' 9 ''b'')) sampleDbState)) 9 =
     {#''b''#}"
proof -
  have doc: "two_rows_documented (mysqlQuery (sampleDbEnv\<lparr>mysqlQuery := sampleRows\<rparr>)) sampleStored"
    by (simp add: sampleRows_documented)
  have plain: "plain_text ''a''" "plain_text ''b''" by (simp_all add: plain_text_def NUL_def)
  have fit: "length (forged ''a'' 9 ''b'') \<le> 973" using length_to_string [of 9] by (simp add: forged_def)
  have "sampleStored (database sampleDbState) 9 = {#}"
    by (simp add: sampleDbState_def router_state.defs sampleRouter_def sampleStored_def)
  then show ?thesis using offline_forgery [OF doc plain fit refl, of 5 sampleDbState] by simp
qed

end
