(* ===== verification/ChannelThreads.thy ===== *)
theory ChannelThreads
  imports ShardChannel
begin

text \<open>
  The threads that use one channel of the \<open>ClusterRouter\<close>. Any thread may call
  \<open>enqueueOrSend\<close>; everything else runs in the loop thread of the channel, which executes
  the functors queued for it in order. \<open>connection->send\<close> called outside the loop thread
  is itself a queued functor (muduo), inside the loop thread it writes at once. Two critical
  sections never overlap, so a step is one locked block with the code up to the next one.
\<close>

section \<open>The threads\<close>

text \<open>
  What a caller still has to do after it has released the mutex, and the functors of the
  loop. \<open>DoSend\<close> is the functor muduo queues for a \<open>send\<close> from another thread.
\<close>

datatype chan_task =
    DoSend conn string | DoConnect | DoDrain | DoHighWater | DoWriteComplete | DoTeardown "conn option"

text \<open>
  \<open>callers\<close>: actions of threads that have left the locked block. \<open>draining\<close>, \<open>hand\<close>: the
  loop thread is inside \<open>drainPendingInLoop\<close>, with the message it has taken out. \<open>wire\<close>:
  what was written, per connection, in order; \<open>lost\<close>: what was sent on a connection that
  was down. The rest are ghosts: the accepted messages, those that went through \<open>pending\<close>,
  those of them that were sent, those cleared by \<open>stopChannel\<close>.
\<close>

record chan_sys =
  chan :: ShardChannel
  up :: "conn \<Rightarrow> bool"
  callers :: "chan_task list"
  queue :: "chan_task list"
  draining :: bool
  hand :: "(conn \<times> string) option"
  wire :: "(conn \<times> string) list"
  lost :: "(conn \<times> string) list"
  accepted :: "string list"
  direct :: "string list"
  queued :: "string list"
  drained :: "string list"
  cleared :: "string list"

definition transmit :: "conn \<Rightarrow> string \<Rightarrow> chan_sys \<Rightarrow> chan_sys" where
  "transmit c m s = (if up s c then s\<lparr>wire := wire s @ [(c, m)]\<rparr> else s\<lparr>lost := lost s @ [(c, m)]\<rparr>)"

text \<open>A call of \<open>enqueueOrSend\<close>, up to the release of the mutex, and its effect on the ghosts.\<close>

definition call :: "string \<Rightarrow> chan_sys \<Rightarrow> chan_sys" where
  "call m s =
     (let (r, ch) = enqueueLocked (up s) m (chan s); s = s\<lparr>chan := ch\<rparr>;
          s' = s\<lparr>accepted := accepted s @ [m], queued := queued s @ [m]\<rparr>
      in case r of
           Refused \<Rightarrow> s
         | SendOn c \<Rightarrow> s\<lparr>callers := callers s @ [DoSend c m], accepted := accepted s @ [m], direct := direct s @ [m]\<rparr>
         | QueuedConnect \<Rightarrow> s'\<lparr>callers := callers s' @ [DoConnect]\<rparr>
         | QueuedDrain \<Rightarrow> s'\<lparr>callers := callers s' @ [DoDrain]\<rparr>
         | QueuedOnly \<Rightarrow> s')"

text \<open>The loop thread takes one functor.\<close>

definition run_task :: "chan_task \<Rightarrow> chan_sys \<Rightarrow> chan_sys" where
  "run_task t s =
     (case t of
        DoSend c m \<Rightarrow> transmit c m s
      | DoConnect \<Rightarrow> s\<lparr>chan := snd (connectTask (up s) (chan s))\<rparr>
      | DoDrain \<Rightarrow> s\<lparr>draining := True\<rparr>
      | DoTeardown co \<Rightarrow>
          s\<lparr>up := (case co of None \<Rightarrow> up s | Some c \<Rightarrow> (up s)(c := False)), chan := (chan s)\<lparr>client := False\<rparr>\<rparr>
      | DoHighWater \<Rightarrow> s\<lparr>chan := highWaterLocked (chan s)\<rparr>
      | DoWriteComplete \<Rightarrow> s\<lparr>chan := writeCompleteLocked (chan s), draining := True\<rparr>)"

text \<open>One turn of the drain loop, up to the release of the mutex.\<close>

definition drain_turn :: "chan_sys \<Rightarrow> chan_sys" where
  "drain_turn s =
     (case drainLocked (up s) (chan s) of
        (None, ch) \<Rightarrow> s\<lparr>chan := ch, draining := False\<rparr>
      | (Some (c, m), ch) \<Rightarrow> s\<lparr>chan := ch, hand := Some (c, m)\<rparr>)"

inductive chan_step :: "chan_sys \<Rightarrow> chan_sys \<Rightarrow> bool" where
  enqueue: "chan_step s (call m s)"
| release: "callers s = xs @ t # ys \<Longrightarrow> chan_step s (s\<lparr>callers := xs @ ys, queue := queue s @ [t]\<rparr>)"
| task: "\<not> draining s \<Longrightarrow> queue s = t # ts \<Longrightarrow> chan_step s (run_task t (s\<lparr>queue := ts\<rparr>))"
| take: "draining s \<Longrightarrow> hand s = None \<Longrightarrow> chan_step s (drain_turn s)"
| send: "draining s \<Longrightarrow> hand s = Some (c, m) \<Longrightarrow>
    chan_step s (transmit c m (s\<lparr>hand := None, drained := drained s @ [m]\<rparr>))"
| connected: "\<not> draining s \<Longrightarrow>
    chan_step s (s\<lparr>up := (up s)(c := True), chan := channelUp c (chan s), draining := True\<rparr>)"
| broken: "chan_step s (s\<lparr>up := (up s)(c := False)\<rparr>)"
| disconnected: "\<not> draining s \<Longrightarrow> chan_step s (s\<lparr>chan := channelDown (chan s)\<rparr>)"
| backpressure: "chan_step s (s\<lparr>queue := queue s @ [DoHighWater]\<rparr>)"
| written: "chan_step s (s\<lparr>queue := queue s @ [DoWriteComplete]\<rparr>)"
| stopped: "chan_step s (s\<lparr>cleared := cleared s @ pending (chan s), chan := stopLocked (chan s),
    callers := callers s @ [DoTeardown (connection (chan s))]\<rparr>)"

definition chan_start :: "string \<Rightarrow> NodeMeta \<Rightarrow> loop_id \<Rightarrow> nat \<Rightarrow> nat \<Rightarrow> chan_sys" where
  "chan_start i meta loop limit mark =
     \<lparr>chan = newShardChannel i meta loop limit mark, up = (\<lambda>_. False), callers = [], queue = [],
      draining = False, hand = None, wire = [], lost = [], accepted = [], direct = [], queued = [],
      drained = [], cleared = []\<rparr>"

inductive chan_reachable :: "chan_sys \<Rightarrow> bool" where
  start: "chan_reachable (chan_start i meta loop limit mark)"
| next_state: "chan_reachable s \<Longrightarrow> chan_step s s' \<Longrightarrow> chan_reachable s'"

section \<open>The invariant\<close>

text \<open>
  \<open>wanted\<close>: some thread is about to run, or the loop is running, the drain loop. The
  invariant has four parts: the bound of the queue; a closing channel is empty; the queue
  is first in, first out and neither loses nor duplicates a message; and a channel that can
  send and has something to send is going to be drained.
\<close>

fun drains :: "chan_task \<Rightarrow> bool" where
  "drains DoDrain \<longleftrightarrow> True"
| "drains DoWriteComplete \<longleftrightarrow> True"
| "drains _ \<longleftrightarrow> False"

definition wanted :: "chan_sys \<Rightarrow> bool" where
  "wanted s \<longleftrightarrow> draining s \<or> (\<exists>t \<in> set (callers s) \<union> set (queue s). drains t)"

definition hand_messages :: "chan_sys \<Rightarrow> string list" where
  "hand_messages s = (case hand s of None \<Rightarrow> [] | Some (c, m) \<Rightarrow> [m])"

definition can_send :: "chan_sys \<Rightarrow> bool" where
  "can_send s \<longleftrightarrow> \<not> closing (chan s) \<and> \<not> isOverloaded (chan s) \<and> isConnected (up s) (chan s)"

fun direct_of :: "chan_task \<Rightarrow> string list" where
  "direct_of (DoSend c m) = [m]"
| "direct_of _ = []"

text \<open>The messages on their way that did not go through \<open>pending\<close>.\<close>

definition underway :: "chan_sys \<Rightarrow> string list" where
  "underway s = concat (map direct_of (callers s @ queue s))"

definition chan_inv :: "chan_sys \<Rightarrow> bool" where
  "chan_inv s \<longleftrightarrow>
     length (pending (chan s)) \<le> pendingLimit (chan s) \<and>
     (closing (chan s) \<longrightarrow> pending (chan s) = []) \<and>
     queued s = drained s @ hand_messages s @ pending (chan s) @ cleared s \<and>
     (cleared s \<noteq> [] \<longrightarrow> closing (chan s)) \<and>
     mset (accepted s) = mset (direct s) + mset (queued s) \<and>
     mset (direct s) + mset (drained s) = mset (underway s) + mset (map snd (wire s)) + mset (map snd (lost s)) \<and>
     (can_send s \<longrightarrow> pending (chan s) \<noteq> [] \<longrightarrow> wanted s)"

lemma chan_inv_start: "chan_inv (chan_start i meta loop limit mark)"
  by (simp add: chan_inv_def chan_start_def newShardChannel_def hand_messages_def underway_def can_send_def isConnected_def)

lemmas ghost_defs = hand_messages_def underway_def can_send_def wanted_def

text \<open>Handing an action on, and writing a message out.\<close>

lemma inv_release:
  assumes "chan_inv s" and "callers s = xs @ t # ys"
  shows "chan_inv (s\<lparr>callers := xs @ ys, queue := queue s @ [t]\<rparr>)"
  using assms by (auto simp: chan_inv_def ghost_defs)

lemma underway_transmit: "underway (transmit c m s) = underway s"
  by (simp add: transmit_def underway_def)

lemma inv_call:
  assumes inv: "chan_inv s"
  shows "chan_inv (call m s)"
proof -
  obtain r ch where run: "enqueueLocked (up s) m (chan s) = (r, ch)" by fastforce
  show ?thesis
  proof (cases r)
    case Refused
    with run have "ch = chan s" by (auto simp: enqueueLocked_def Let_def split: if_splits)
    with Refused run inv show ?thesis by (simp add: call_def)
  next
    case (SendOn c)
    with run have "ch = chan s" by (auto simp: enqueueLocked_def Let_def split: if_splits)
    with SendOn run inv show ?thesis by (auto simp: call_def chan_inv_def ghost_defs)
  next
    case QueuedConnect
    with run have "ch = (chan s)\<lparr>pending := pending (chan s) @ [m], connecting := True\<rparr>"
      "\<not> closing (chan s)" "length (pending (chan s)) < pendingLimit (chan s)" "\<not> isConnected (up s) (chan s)"
      by (auto simp: enqueueLocked_def Let_def split: if_splits)
    with QueuedConnect run inv show ?thesis
      by (auto simp: call_def chan_inv_def ghost_defs isConnected_def)
  next
    case QueuedDrain
    with run have "ch = (chan s)\<lparr>pending := pending (chan s) @ [m]\<rparr>"
      "\<not> closing (chan s)" "length (pending (chan s)) < pendingLimit (chan s)"
      by (auto simp: enqueueLocked_def Let_def split: if_splits)
    with QueuedDrain run inv show ?thesis
      by (auto simp: call_def chan_inv_def ghost_defs isConnected_def)
  next
    case QueuedOnly
    with run have "ch = (chan s)\<lparr>pending := pending (chan s) @ [m]\<rparr>"
      "\<not> closing (chan s)" "length (pending (chan s)) < pendingLimit (chan s)"
      "isConnected (up s) (chan s) \<longrightarrow> isOverloaded (chan s)"
      by (auto simp: enqueueLocked_def Let_def split: if_splits)
    with QueuedOnly run inv show ?thesis
      by (auto simp: call_def chan_inv_def ghost_defs isConnected_def)
  qed
qed

lemma inv_task:
  assumes inv: "chan_inv s" and idle: "\<not> draining s" and q: "queue s = t # ts"
  shows "chan_inv (run_task t (s\<lparr>queue := ts\<rparr>))"
proof (cases t)
  case (DoSend c m)
  with inv q show ?thesis
    by (auto simp: run_task_def transmit_def chan_inv_def ghost_defs)
next
  case DoConnect
  have same: "pending (snd (connectTask (up s) (chan s))) = pending (chan s)"
    "pendingLimit (snd (connectTask (up s) (chan s))) = pendingLimit (chan s)"
    "closing (snd (connectTask (up s) (chan s))) = closing (chan s)"
    "isOverloaded (snd (connectTask (up s) (chan s))) = isOverloaded (chan s)"
    "connection (snd (connectTask (up s) (chan s))) = connection (chan s)"
    by (simp_all add: connectTask_def ensureClientInLoop_def Let_def)
  show ?thesis using inv q unfolding DoConnect
    by (simp add: run_task_def chan_inv_def ghost_defs isConnected_def same)
next
  case DoDrain
  with inv q show ?thesis by (simp add: run_task_def chan_inv_def ghost_defs)
next
  case DoHighWater
  with inv q show ?thesis
    by (simp add: run_task_def chan_inv_def ghost_defs isConnected_def highWaterLocked_def)
next
  case DoWriteComplete
  with inv q show ?thesis
    by (simp add: run_task_def chan_inv_def ghost_defs isConnected_def writeCompleteLocked_def)
next
  case (DoTeardown co)
  with inv q show ?thesis
    by (auto simp: run_task_def chan_inv_def ghost_defs isConnected_def split: option.splits if_splits)
qed

lemma inv_take:
  assumes inv: "chan_inv s" and h: "hand s = None"
  shows "chan_inv (drain_turn s)"
proof (cases "drainLocked (up s) (chan s)")
  case (Pair x ch)
  show ?thesis
  proof (cases x)
    case None
    with Pair have "ch = chan s" "can_send s \<longrightarrow> pending (chan s) = []"
      by (auto simp: drainLocked_def can_send_def split: if_splits list.splits)
    with Pair None inv show ?thesis
      by (auto simp: drain_turn_def chan_inv_def hand_messages_def underway_def can_send_def)
  next
    case (Some p)
    obtain c m where p: "p = (c, m)" by fastforce
    from Pair Some p have "pending (chan s) = m # pending ch" "ch = (chan s)\<lparr>pending := pending ch\<rparr>"
      by (auto simp: drainLocked_def split: if_splits list.splits)
    moreover have "closing ch = closing (chan s)" "pendingLimit ch = pendingLimit (chan s)"
      by (subst calculation(2), simp)+
    moreover have "can_send s"
      using Pair Some by (auto simp: drainLocked_def can_send_def split: if_splits list.splits)
    ultimately show ?thesis using Pair Some p inv h
      by (auto simp: drain_turn_def chan_inv_def ghost_defs)
  qed
qed

lemma inv_send:
  assumes "chan_inv s" and "hand s = Some (c, m)"
  shows "chan_inv (transmit c m (s\<lparr>hand := None, drained := drained s @ [m]\<rparr>))"
  using assms by (auto simp: transmit_def chan_inv_def ghost_defs)

theorem chan_inv_step:
  assumes "chan_inv s" and "chan_step s s'"
  shows "chan_inv s'"
  using assms(2,1)
proof (cases rule: chan_step.cases)
  case (enqueue m)
  then show ?thesis using assms(1) by (simp add: inv_call)
next
  case (release xs t ys)
  then show ?thesis using assms(1) by (simp add: inv_release)
next
  case (task t ts)
  then show ?thesis using assms(1) by (simp add: inv_task)
next
  case take
  then show ?thesis using assms(1) by (simp add: inv_take)
next
  case (send c m)
  then show ?thesis using assms(1) by (simp add: inv_send)
next
  case (connected c)
  then show ?thesis using assms(1) by (auto simp: chan_inv_def ghost_defs channelUp_def)
next
  case (broken c)
  then show ?thesis using assms(1)
    by (auto simp: chan_inv_def ghost_defs isConnected_def split: option.splits if_splits)
next
  case disconnected
  then show ?thesis using assms(1) by (auto simp: chan_inv_def ghost_defs channelDown_def isConnected_def)
next
  case backpressure
  then show ?thesis using assms(1) by (auto simp: chan_inv_def ghost_defs)
next
  case written
  then show ?thesis using assms(1) by (auto simp: chan_inv_def ghost_defs)
next
  case stopped
  then show ?thesis using assms(1) by (auto simp: chan_inv_def ghost_defs stopLocked_def)
qed

lemma chan_inv_reachable: "chan_reachable s \<Longrightarrow> chan_inv s"
  by (induction rule: chan_reachable.induct) (auto simp: chan_inv_start chan_inv_step)

section \<open>Properties\<close>

text \<open>
  C15. The channel queue under any interleaving of sending threads, the loop thread, network
  events and \<open>stopChannel\<close>: it never exceeds its limit; the messages that went through it
  leave it in the order they entered, none lost and none twice; and every accepted message
  is accounted for exactly once: written, sent on a broken connection, on its way, waiting,
  or cleared by \<open>stopChannel\<close>.
\<close>

theorem channel_conserves:
  assumes "chan_reachable s"
  shows "length (pending (chan s)) \<le> pendingLimit (chan s) \<and>
    queued s = drained s @ hand_messages s @ pending (chan s) @ cleared s \<and>
    mset (accepted s) = mset (map snd (wire s)) + mset (map snd (lost s)) + mset (underway s)
      + mset (hand_messages s) + mset (pending (chan s)) + mset (cleared s)"
  using chan_inv_reachable [OF assms] unfolding chan_inv_def
  by (auto simp: add.assoc [symmetric])

text \<open>
  C16. No wake-up is missed: whenever a channel holds messages and could send them (open, not
  under back-pressure, connected), the drain loop is running or some thread or the loop's
  queue holds a functor that will run it.
\<close>

theorem channel_wakeup:
  assumes "chan_reachable s" and "\<not> closing (chan s)" and "\<not> isOverloaded (chan s)"
    and "isConnected (up s) (chan s)" and "pending (chan s) \<noteq> []"
  shows "draining s \<or> (\<exists>t \<in> set (callers s) \<union> set (queue s). t = DoDrain \<or> t = DoWriteComplete)"
proof -
  have "wanted s" using chan_inv_reachable [OF assms(1)] assms(2-) by (simp add: chan_inv_def can_send_def)
  moreover have "drains t \<Longrightarrow> t = DoDrain \<or> t = DoWriteComplete" for t by (cases t) auto
  ultimately show ?thesis unfolding wanted_def by blast
qed

text \<open>An executable scheduler: the choices of the step relation as actions.\<close>

datatype chan_action = Call string | Release | Task | Drain | Connected conn | HighWater | Written

fun act :: "chan_action \<Rightarrow> chan_sys \<Rightarrow> chan_sys option" where
  "act (Call m) s = Some (call m s)"
| "act Release s =
     (case callers s of [] \<Rightarrow> None | t # ts \<Rightarrow> Some (s\<lparr>callers := ts, queue := queue s @ [t]\<rparr>))"
| "act Task s =
     (case queue s of
        [] \<Rightarrow> None
      | t # ts \<Rightarrow> if draining s then None else Some (run_task t (s\<lparr>queue := ts\<rparr>)))"
| "act Drain s =
     (if \<not> draining s then None
      else case hand s of
             None \<Rightarrow> Some (drain_turn s)
           | Some (c, m) \<Rightarrow> Some (transmit c m (s\<lparr>hand := None, drained := drained s @ [m]\<rparr>)))"
| "act (Connected c) s =
     (if draining s then None
      else Some (s\<lparr>up := (up s)(c := True), chan := channelUp c (chan s), draining := True\<rparr>))"
| "act HighWater s = Some (s\<lparr>queue := queue s @ [DoHighWater]\<rparr>)"
| "act Written s = Some (s\<lparr>queue := queue s @ [DoWriteComplete]\<rparr>)"

primrec acts :: "chan_action list \<Rightarrow> chan_sys \<Rightarrow> chan_sys option" where
  "acts [] s = Some s"
| "acts (a # as) s = (case act a s of None \<Rightarrow> None | Some s' \<Rightarrow> acts as s')"

lemma act_step: "act a s = Some s' \<Longrightarrow> chan_step s s'"
proof (induction a s rule: act.induct)
  case (2 s)
  then obtain t ts where "callers s = [] @ t # ts" "s' = s\<lparr>callers := [] @ ts, queue := queue s @ [t]\<rparr>"
    by (auto split: list.splits)
  then show ?case using chan_step.release [of s "[]" t ts] by simp
qed (auto intro: chan_step.intros split: list.splits if_splits option.splits)

lemma acts_reachable: "acts as s = Some s' \<Longrightarrow> chan_reachable s \<Longrightarrow> chan_reachable s'"
  by (induction as arbitrary: s) (auto split: option.splits dest: act_step chan_reachable.next_state)

text \<open>Two sends of one thread: the functor of the first waits behind a write-complete.\<close>

definition overtaking :: "string \<Rightarrow> string \<Rightarrow> chan_action list" where
  "overtaking a b = [Connected 1, Drain, HighWater, Written, Call a, Release, Task, Call b, Task, Drain, Drain, Drain, Task]"

lemmas chan_run = chan_start_def newShardChannel_def channelUp_def drain_turn_def drainLocked_def isConnected_def
  call_def enqueueLocked_def run_task_def highWaterLocked_def writeCompleteLocked_def transmit_def

text \<open>
  C38. The order of two messages of one sender is not kept in general. The comment in
  \<open>enqueueOrSend\<close> rules out that a new message overtakes an older one; but a message sent on
  the direct path is a functor in the loop's queue, and when the functors of a high-water
  and of a write-complete event stand before it, a later message is queued by the first and
  written by the second. For any two messages there is a reachable state in which the first
  was accepted first and written last.
\<close>

theorem channel_overtaking:
  "\<exists>s. chan_reachable s \<and> accepted s = [a, b] \<and> wire s = [(1, b), (1, a)]"
proof -
  obtain s where run: "acts (overtaking a b) (chan_start ''n#0'' emptyNodeMeta 0 256 524288) = Some s"
    and s: "accepted s = [a, b]" "wire s = [(1, b), (1, a)]"
    by (simp add: overtaking_def chan_run)
  from acts_reachable [OF run chan_reachable.start] s show ?thesis by blast
qed

theorem channel_conserves_witness:
  "\<exists>s. acts [Call ''a'', Connected 1, Drain, Call ''b''] (chan_start ''n#0'' emptyNodeMeta 0 2 9) = Some s \<and>
     queued s = drained s @ hand_messages s @ pending (chan s) @ cleared s \<and> hand_messages s = [''a'']"
proof -
  obtain s where run: "acts [Call ''a'', Connected 1, Drain, Call ''b''] (chan_start ''n#0'' emptyNodeMeta 0 2 9) = Some s"
    and "hand_messages s = [''a'']"
    by (simp add: chan_run hand_messages_def)
  with channel_conserves [OF acts_reachable [OF run chan_reachable.start]] show ?thesis by blast
qed

theorem channel_wakeup_witness:
  "\<exists>s. acts [Call ''a'', Connected 1] (chan_start ''n#0'' emptyNodeMeta 0 2 9) = Some s \<and>
     (draining s \<or> (\<exists>t \<in> set (callers s) \<union> set (queue s). t = DoDrain \<or> t = DoWriteComplete))"
proof -
  obtain s where run: "acts [Call ''a'', Connected 1] (chan_start ''n#0'' emptyNodeMeta 0 2 9) = Some s"
    and "\<not> closing (chan s)" "\<not> isOverloaded (chan s)" "isConnected (up s) (chan s)" "pending (chan s) \<noteq> []"
    by (simp add: chan_run)
  with channel_wakeup [OF acts_reachable [OF run chan_reachable.start]] show ?thesis by blast
qed

end
