(* ===== verification/DispatchThreads.thy ===== *)
theory DispatchThreads
  imports ServiceSample
begin

text \<open>
  The threads that use one \<open>LocalLoopDispatcher\<close> (\<open>enqueueLocalDelivery\<close> and
  \<open>drainLocalDeliveriesInLoop\<close> of \<open>src/server/chatservice.cpp\<close>). A step is one block under
  \<open>pendingMutex\<close>, or one action between two blocks. Any number of threads enqueue; the loop
  that owns the dispatcher enqueues as well when it is not draining, and then drains inline.
\<close>

section \<open>The system\<close>

text \<open>
  \<open>schedulers\<close>: threads that have found no flush scheduled and are about to call
  \<open>queueInLoop\<close>; \<open>flushes\<close>: flush functors in the queue of the loop; \<open>batch\<close>: the loop is
  inside \<open>drainLocalDeliveriesInLoop\<close>, with the tasks it has still to send. \<open>accepted\<close> is a
  ghost: the tasks for which \<open>enqueueLocalDelivery\<close> returns true, in order.
\<close>

record disp_sys =
  disp :: LocalLoopDispatcher
  schedulers :: nat
  flushes :: nat
  batch :: "LocalDeliveryTask list option"
  sent :: "(conn \<times> string) list"
  accepted :: "LocalDeliveryTask list"

text \<open>The steps of a dispatcher that nobody adds to, and all steps.\<close>

inductive loop_step :: "disp_sys \<Rightarrow> disp_sys \<Rightarrow> bool" where
  hand_over: "schedulers s = Suc n \<Longrightarrow> loop_step s (s\<lparr>schedulers := n, flushes := Suc (flushes s)\<rparr>)"
| flush: "batch s = None \<Longrightarrow> flushes s = Suc n \<Longrightarrow> loop_step s (s\<lparr>flushes := n, batch := Some []\<rparr>)"
| turn: "batch s = Some [] \<Longrightarrow> takeBatch (disp s) = (tasks, d) \<Longrightarrow>
    loop_step s (s\<lparr>disp := d, batch := (if tasks = [] then None else Some tasks)\<rparr>)"
| send: "batch s = Some (t # ts) \<Longrightarrow> loop_step s (s\<lparr>batch := Some ts, sent := sent s @ [task_send t]\<rparr>)"

inductive disp_step :: "disp_sys \<Rightarrow> disp_sys \<Rightarrow> bool" where
  enqueue: "\<not> dispatcherFull (disp s) \<Longrightarrow> pushTask t (disp s) = (shouldSchedule, d) \<Longrightarrow>
    disp_step s (s\<lparr>disp := d, accepted := accepted s @ [t],
      schedulers := schedulers s + (if shouldSchedule then 1 else 0)\<rparr>)"
| enqueue_inline: "batch s = None \<Longrightarrow> \<not> dispatcherFull (disp s) \<Longrightarrow> pushTask t (disp s) = (shouldSchedule, d) \<Longrightarrow>
    disp_step s (s\<lparr>disp := d, accepted := accepted s @ [t], batch := (if shouldSchedule then Some [] else None)\<rparr>)"
| drains: "loop_step s s' \<Longrightarrow> disp_step s s'"

definition disp_start :: "loop_id \<Rightarrow> nat \<Rightarrow> disp_sys" where
  "disp_start loop limit =
     \<lparr>disp = \<lparr>dp_loop = loop, dp_pending = [], flushScheduled = False, dp_pendingLimit = limit\<rparr>,
      schedulers = 0, flushes = 0, batch = None, sent = [], accepted = []\<rparr>"

inductive disp_reachable :: "disp_sys \<Rightarrow> bool" where
  start: "disp_reachable (disp_start loop limit)"
| next_state: "disp_reachable s \<Longrightarrow> disp_step s s' \<Longrightarrow> disp_reachable s'"

section \<open>The invariant\<close>

definition batch_tasks :: "disp_sys \<Rightarrow> LocalDeliveryTask list" where
  "batch_tasks s = (case batch s of None \<Rightarrow> [] | Some ts \<Rightarrow> ts)"

definition draining_count :: "disp_sys \<Rightarrow> nat" where
  "draining_count s = schedulers s + flushes s + (case batch s of None \<Rightarrow> 0 | Some _ \<Rightarrow> 1)"

definition disp_inv :: "disp_sys \<Rightarrow> bool" where
  "disp_inv s \<longleftrightarrow>
     map task_send (accepted s) = sent s @ map task_send (batch_tasks s @ dp_pending (disp s)) \<and>
     length (dp_pending (disp s)) \<le> dp_pendingLimit (disp s) \<and>
     draining_count s = (if flushScheduled (disp s) then 1 else 0) \<and>
     (dp_pending (disp s) \<noteq> [] \<longrightarrow> flushScheduled (disp s))"

lemma disp_inv_start: "disp_inv (disp_start loop limit)"
  by (simp add: disp_inv_def disp_start_def batch_tasks_def draining_count_def)

lemma disp_inv_loop: "loop_step s s' \<Longrightarrow> disp_inv s \<Longrightarrow> disp_inv s'"
proof (induction rule: loop_step.induct)
  case (turn s tasks d)
  then show ?case
    by (auto simp: disp_inv_def batch_tasks_def draining_count_def takeBatch_def split: if_splits)
qed (auto simp: disp_inv_def batch_tasks_def draining_count_def split: if_splits option.splits)

lemma disp_inv_step: "disp_step s s' \<Longrightarrow> disp_inv s \<Longrightarrow> disp_inv s'"
proof (induction rule: disp_step.induct)
  case (drains s s')
  then show ?case by (simp add: disp_inv_loop)
qed (auto simp: disp_inv_def batch_tasks_def draining_count_def pushTask_def dispatcherFull_def
      split: if_splits option.splits)

lemma disp_inv_reachable: "disp_reachable s \<Longrightarrow> disp_inv s"
  by (induction rule: disp_reachable.induct) (auto intro: disp_inv_start disp_inv_step)

section \<open>The loop ends\<close>

definition work :: "disp_sys \<Rightarrow> nat" where
  "work s = 3 * schedulers s + 2 * flushes s + 2 * length (dp_pending (disp s)) +
     (case batch s of None \<Rightarrow> 0 | Some ts \<Rightarrow> Suc (length ts))"

lemma loop_step_work: "loop_step s s' \<Longrightarrow> work s' < work s"
  by (induction rule: loop_step.induct) (auto simp: work_def takeBatch_def split: if_splits)

lemma loop_ends: "\<exists>t. loop_step\<^sup>*\<^sup>* s t \<and> \<not> (\<exists>u. loop_step t u)"
proof (induction "work s" arbitrary: s rule: less_induct)
  case less
  show ?case
  proof (cases "\<exists>u. loop_step s u")
    case True
    then obtain u where u: "loop_step s u" ..
    with less [OF loop_step_work [OF u]] show ?thesis by (meson converse_rtranclp_into_rtranclp)
  qed auto
qed

lemma loop_run_kept: "loop_step\<^sup>*\<^sup>* s t \<Longrightarrow> disp_inv s \<Longrightarrow> disp_inv t \<and> accepted t = accepted s"
proof (induction rule: rtranclp_induct)
  case (step t u)
  moreover have "accepted u = accepted t" using step(2) by (cases rule: loop_step.cases) simp_all
  ultimately show ?case using disp_inv_loop by simp
qed simp

lemma loop_stuck:
  assumes "disp_inv s" and stuck: "\<not> (\<exists>u. loop_step s u)"
  shows "dp_pending (disp s) = []" "batch_tasks s = []"
proof -
  have none: "schedulers s = 0" using stuck hand_over [of s] by (cases "schedulers s") auto
  have "batch s = None"
  proof (cases "batch s")
    case (Some ts)
    show ?thesis
    proof (cases ts)
      case Nil
      with Some stuck turn [of s "fst (takeBatch (disp s))" "snd (takeBatch (disp s))"] show ?thesis by simp
    next
      case (Cons t ts)
      with Some stuck send [of s t ts] show ?thesis by simp
    qed
  qed
  moreover from this have "flushes s = 0" using stuck flush [of s] by (cases "flushes s") auto
  ultimately show "dp_pending (disp s) = []" "batch_tasks s = []"
    using assms(1) none by (auto simp: disp_inv_def batch_tasks_def draining_count_def)
qed

section \<open>Properties\<close>

text \<open>
  C18. Local deliveries under any interleaving: what has been handed to the connections, what
  the loop has in its hands and what waits in the dispatcher is, in this order, exactly what
  was accepted, so that each connection gets its messages in order and none twice; the queue
  respects its limit; and at most one flush is under way or scheduled, which is the case
  exactly when the flag says so, and always while a message waits.
\<close>

theorem dispatch_conserves:
  assumes "disp_reachable s"
  shows "map task_send (accepted s) = sent s @ map task_send (batch_tasks s @ dp_pending (disp s)) \<and>
    length (dp_pending (disp s)) \<le> dp_pendingLimit (disp s) \<and>
    draining_count s = (if flushScheduled (disp s) then 1 else 0) \<and>
    (dp_pending (disp s) = [] \<or> flushScheduled (disp s))"
  using disp_inv_reachable [OF assms] by (auto simp: disp_inv_def)

text \<open>
  C17. Accepted messages are delivered. From every reachable state, once no thread adds
  messages, the remaining steps come to an end whatever their order, and where they end every
  message accepted so far has been handed to its connection, in order.
\<close>

theorem dispatch_delivers:
  assumes "disp_reachable s"
  shows "(\<exists>t. loop_step\<^sup>*\<^sup>* s t \<and> \<not> (\<exists>u. loop_step t u)) \<and> wfP (\<lambda>u t. loop_step t u) \<and>
    (\<forall>t. loop_step\<^sup>*\<^sup>* s t \<longrightarrow> (\<exists>u. loop_step t u) \<or> sent t = map task_send (accepted s))"
proof (intro conjI allI impI)
  show "\<exists>t. loop_step\<^sup>*\<^sup>* s t \<and> \<not> (\<exists>u. loop_step t u)" by (rule loop_ends)
  show "wfP (\<lambda>u t. loop_step t u)"
    by (rule wfp_if_convertible_to_nat [of _ work]) (rule loop_step_work)
  fix t
  assume "loop_step\<^sup>*\<^sup>* s t"
  from loop_run_kept [OF this disp_inv_reachable [OF assms]] have "disp_inv t" "accepted t = accepted s" by auto
  then show "(\<exists>u. loop_step t u) \<or> sent t = map task_send (accepted s)"
    using loop_stuck [of t] unfolding disp_inv_def by (metis append.right_neutral list.simps(8))
qed

text \<open>A run of two threads: one enqueues for another loop, then the loop flushes.\<close>

definition sampleTask :: LocalDeliveryTask where
  "sampleTask = \<lparr>ld_conn = 3, ld_msg = ''hi'', ld_enqueueNs = 0\<rparr>"

definition sampleDisp :: disp_sys where
  "sampleDisp = \<lparr>disp = \<lparr>dp_loop = 1, dp_pending = [sampleTask], flushScheduled = True, dp_pendingLimit = 8\<rparr>,
      schedulers = 1, flushes = 0, batch = None, sent = [], accepted = [sampleTask]\<rparr>"

lemma sampleDisp_reachable: "disp_reachable sampleDisp"
proof (rule next_state [OF start])
  let ?s = "disp_start 1 8"
  have "disp_step ?s (?s\<lparr>disp := \<lparr>dp_loop = 1, dp_pending = [sampleTask], flushScheduled = True, dp_pendingLimit = 8\<rparr>,
      accepted := accepted ?s @ [sampleTask], schedulers := schedulers ?s + (if True then 1 else 0)\<rparr>)"
    by (rule enqueue) (simp_all add: disp_start_def dispatcherFull_def pushTask_def)
  then show "disp_step ?s sampleDisp" by (simp add: disp_start_def sampleDisp_def)
qed

theorem dispatch_conserves_witness: "flushScheduled (disp sampleDisp)"
  using dispatch_conserves [OF sampleDisp_reachable] by (simp add: sampleDisp_def)

theorem dispatch_delivers_witness: "\<exists>t. loop_step\<^sup>*\<^sup>* sampleDisp t \<and> sent t = [(3, ''hi'')]"
proof -
  have "map task_send (accepted sampleDisp) = [(3, ''hi'')]" by (simp add: sampleDisp_def sampleTask_def task_send_def)
  with dispatch_delivers [OF sampleDisp_reachable] show ?thesis by metis
qed

end
