(* ===== verification/ConnectionPool.thy ===== *)
theory ConnectionPool
  imports Config
begin

text \<open>
  The class \<open>ConnectionPool\<close> (\<open>src/server/db/connectionpool.cpp\<close>): MySQL connections lent
  to the threads of the server. \<open>getConnection\<close> blocks on a condition variable while the
  queue is empty; the deleter of the returned \<open>shared_ptr\<close> puts the connection back and
  wakes one thread. A connection is a number, a step is one action under the mutex.
\<close>

section \<open>The pool\<close>

text \<open>
  \<open>waiting\<close>: threads asleep in \<open>cv_.wait\<close>; \<open>awake\<close>: threads that have been woken and are
  about to test the queue again; \<open>lent\<close>: the connections that live \<open>shared_ptr\<close>s hold.
\<close>

record pool =
  pool_queue :: "nat list"
  lent :: "nat list"
  waiting :: nat
  awake :: nat

text \<open>The constructor: \<open>opens i\<close> says whether the \<open>i\<close>-th \<open>connect\<close> succeeds.\<close>

definition maxSizeOf :: "environment \<Rightarrow> cint" where
  "maxSizeOf env = getEnvIntOrDefault env ''CHAT_DB_POOL_SIZE'' 20"

definition pool_init :: "environment \<Rightarrow> (nat \<Rightarrow> bool) \<Rightarrow> pool" where
  "pool_init env opens =
     \<lparr>pool_queue = filter opens [0..<nat (sint (maxSizeOf env))], lent = [], waiting = 0, awake = 0\<rparr>"

text \<open>
  The blocks: \<open>getConnection\<close> up to its first sleep, the test after a wake-up, and the
  deleter. \<open>None\<close>: the thread goes to sleep.
\<close>

definition getConnection :: "pool \<Rightarrow> nat option \<times> pool" where
  "getConnection p =
     (case pool_queue p of
        [] \<Rightarrow> (None, p\<lparr>waiting := Suc (waiting p)\<rparr>)
      | c # cs \<Rightarrow> (Some c, p\<lparr>pool_queue := cs, lent := lent p @ [c]\<rparr>))"

definition giveBack :: "nat \<Rightarrow> pool \<Rightarrow> pool" where
  "giveBack c p =
     (let p = p\<lparr>pool_queue := pool_queue p @ [c], lent := remove1 c (lent p)\<rparr>
      in if waiting p = 0 then p else p\<lparr>waiting := waiting p - 1, awake := Suc (awake p)\<rparr>)"

inductive pool_step :: "pool \<Rightarrow> pool \<Rightarrow> bool" where
  get: "pool_step p (snd (getConnection p))"
| recheck: "awake p = Suc n \<Longrightarrow> pool_step p (snd (getConnection (p\<lparr>awake := n\<rparr>)))"
| give: "c \<in> set (lent p) \<Longrightarrow> pool_step p (giveBack c p)"
| spurious: "waiting p = Suc n \<Longrightarrow> pool_step p (p\<lparr>waiting := n, awake := Suc (awake p)\<rparr>)"

section \<open>Invariants\<close>

definition conserved :: "pool \<Rightarrow> pool \<Rightarrow> bool" where
  "conserved p p' \<longleftrightarrow> mset (pool_queue p') + mset (lent p') = mset (pool_queue p) + mset (lent p)"

lemma getConnection_cases:
  obtains "pool_queue p = []" "getConnection p = (None, p\<lparr>waiting := Suc (waiting p)\<rparr>)"
  | c cs where "pool_queue p = c # cs" "getConnection p = (Some c, p\<lparr>pool_queue := cs, lent := lent p @ [c]\<rparr>)"
  by (cases "pool_queue p") (simp_all add: getConnection_def)

lemma conserved_get: "conserved p (snd (getConnection p))"
  by (rule getConnection_cases [of p]) (simp_all add: conserved_def)

lemma conserved_step: "pool_step p p' \<Longrightarrow> conserved p p'"
proof (induction rule: pool_step.induct)
  case (recheck p n)
  show ?case using conserved_get [of "p\<lparr>awake := n\<rparr>"] by (simp add: conserved_def)
next
  case (give c p)
  then have "mset (lent p) = add_mset c (mset (remove1 c (lent p)))" by simp
  then show ?case by (simp add: conserved_def giveBack_def Let_def)
qed (simp_all add: conserved_get, simp add: conserved_def)

text \<open>A sleeping thread never overlooks a connection: for each one in the queue somebody is awake.\<close>

definition no_sleeper :: "pool \<Rightarrow> bool" where
  "no_sleeper p \<longleftrightarrow> waiting p = 0 \<or> length (pool_queue p) \<le> awake p"

lemma no_sleeper_step: "pool_step p p' \<Longrightarrow> no_sleeper p \<Longrightarrow> no_sleeper p'"
proof (induction rule: pool_step.induct)
  case (get p)
  then show ?case by (cases rule: getConnection_cases [of p]) (auto simp: no_sleeper_def)
next
  case (recheck p n)
  then show ?case by (cases rule: getConnection_cases [of "p\<lparr>awake := n\<rparr>"]) (auto simp: no_sleeper_def)
qed (auto simp: no_sleeper_def giveBack_def Let_def)

lemma pool_run:
  assumes "pool_step\<^sup>*\<^sup>* (pool_init env opens) p"
  shows "mset (pool_queue p) + mset (lent p) = mset (filter opens [0..<nat (sint (maxSizeOf env))])" "no_sleeper p"
  using assms
proof (induction rule: rtranclp_induct)
  case (step p p')
  { case 1 then show ?case using step(3) conserved_step [OF step(2)] by (simp add: conserved_def) }
  { case 2 then show ?case using step(4) no_sleeper_step [OF step(2)] by simp }
qed (simp_all add: pool_init_def no_sleeper_def)

section \<open>Properties\<close>

text \<open>
  C32. No connection is lent twice. Whatever the threads do, the connections in the queue and
  those lent are together exactly the connections opened at start, each in one place and
  once, so two threads never hold the same one and none is lost; and no thread sleeps on
  while a connection is free: there are then at least as many threads awake as connections.
\<close>

theorem pool_exclusive:
  assumes "pool_step\<^sup>*\<^sup>* (pool_init env opens) p"
  shows "distinct (pool_queue p @ lent p) \<and>
    set (pool_queue p) \<union> set (lent p) = {i. i < nat (sint (maxSizeOf env)) \<and> opens i} \<and>
    (waiting p = 0 \<or> length (pool_queue p) \<le> awake p)"
proof -
  have m: "mset (pool_queue p @ lent p) = mset (filter opens [0..<nat (sint (maxSizeOf env))])"
    using pool_run(1) [OF assms] by simp
  have "distinct (pool_queue p @ lent p)" using mset_eq_imp_distinct_iff [OF m] by simp
  moreover have "set (pool_queue p @ lent p) = {i. i < nat (sint (maxSizeOf env)) \<and> opens i}"
    using mset_eq_setD [OF m] by auto
  ultimately show ?thesis using pool_run(2) [OF assms] by (simp add: no_sleeper_def)
qed

theorem pool_exclusive_witness:
  "distinct (pool_queue (giveBack 0 (snd (getConnection (pool_init Map.empty (\<lambda>_. True))))) @
     lent (giveBack 0 (snd (getConnection (pool_init Map.empty (\<lambda>_. True))))))"
proof -
  let ?p = "pool_init Map.empty (\<lambda>_. True)"
  have "maxSizeOf Map.empty = 20" by (simp add: maxSizeOf_def getEnvIntOrDefault_def)
  then have "pool_queue ?p = [0..<20]" by (simp add: pool_init_def)
  then have "0 \<in> set (lent (snd (getConnection ?p)))" by (simp add: getConnection_def upt_rec split: list.split)
  from pool_step.give [OF this] pool_step.get [of ?p]
  have "pool_step\<^sup>*\<^sup>* ?p (giveBack 0 (snd (getConnection ?p)))"
    by (rule rtranclp.rtrancl_into_rtrancl [OF rtranclp.rtrancl_into_rtrancl [OF rtranclp.rtrancl_refl], rotated])
  then show ?thesis using pool_exclusive by blast
qed

text \<open>
  A pool that could not open a single connection, or whose configured size is not
  positive, never lends one: every thread that asks for one sleeps, and no step of any thread
  ends that. The server then starts and hangs at its first statement.
\<close>

theorem empty_pool_blocks:
  assumes "sint (maxSizeOf env) \<le> 0 \<or> (\<forall>i < nat (sint (maxSizeOf env)). \<not> opens i)"
    and "pool_step\<^sup>*\<^sup>* (pool_init env opens) p"
  shows "lent p = [] \<and> fst (getConnection p) = None"
proof -
  have "{i. i < nat (sint (maxSizeOf env)) \<and> opens i} = {}" using assms(1) by auto
  with pool_exclusive [OF assms(2)] show ?thesis by (auto simp: getConnection_def)
qed

theorem empty_pool_blocks_witness:
  "fst (getConnection (pool_init [''CHAT_DB_POOL_SIZE'' \<mapsto> ''0''] (\<lambda>_. True))) = None"
proof -
  have "sint (maxSizeOf [''CHAT_DB_POOL_SIZE'' \<mapsto> ''0'']) \<le> 0"
    by code_simp
  then show ?thesis using empty_pool_blocks [OF disjI1 rtranclp.rtrancl_refl] by blast
qed

end
