(* ===== verification/Spec2Isabelle.thy ===== *)
theory Spec2Isabelle
  imports EndToEnd Cluster Shutdown LiveRoutes StaleRoutes StoreAndForward Injection ChannelThreads DispatchThreads ConnectionPool
begin

text \<open>
  A verification library for the clustered chat server: the server (\<open>src/server\<close>,
  \<open>include/server\<close>) and its console client (\<open>src/client/main.cpp\<close>).

  \<^bold>\<open>The program.\<close> A cluster is a set of server processes, the nodes, that share one Redis and one
  MySQL database. A node has two TCP ports. On the client port (\<open>ChatServer\<close>) it takes
  NUL-terminated JSON requests and runs the handlers of \<open>ChatService\<close>; on the cluster port
  (\<open>ClusterServer\<close>) it takes what other nodes send it, one-to-one messages in a binary frame and
  group messages as JSON. Redis is the control plane: which nodes there are, and which node has
  which user (\<open>NodeRegistry\<close> over the class \<open>Redis\<close>). The data plane is \<open>ClusterRouter\<close>, a table
  of TCP channels to the other nodes. A message for a user goes to the user's own connection
  when it is on this node (through a queue per event loop), else to the node that Redis names,
  else into the table of offline messages, which the user's next login empties. The client is a
  main thread with menus and a receive thread that meet at a semaphore.

  \<^bold>\<open>How it is modelled.\<close> Effectful code is a function in the state monad of
  \<open>HOL-Library.State_Monad\<close>, one definition per C++ function, with its branches and its calls in
  the code's order. The state of a node is one record, extended class by class: \<open>redis_state\<close>,
  \<open>registry_state\<close>, \<open>router_state\<close>, \<open>db_state\<close>, \<open>service_state\<close>, and \<open>server\<close> around it with the
  contexts of the connections. \<open>int\<close> is \<open>32 word\<close>, the counters are \<open>64 word\<close>, a port is \<open>16 word\<close>;
  \<open>std::string\<close> is a list of bytes, and \<open>c_str\<close> cuts at NUL where the code goes through a C
  string. Shared objects (the channels) live in a list and are named by their index; a
  connection and an event loop are numbers. An uncaught \<open>json::exception\<close> is the outcome
  \<open>JsonThrew\<close>, and what was done before it stays done. What is not in the repository is a
  parameter, collected in the record \<open>service_env\<close>: the answers of Redis and MySQL with the state
  they leave, the JSON printer and parser, the clocks, \<open>std::hash\<close>, the loop of a connection, the
  iteration order of one \<open>unordered_map\<close>.

  \<^bold>\<open>The theories.\<close>
  \<^item> \<open>Prelude\<close>: the monad's rules, and the calculi \<open>preserves\<close> (invariants) and \<open>keeps\<close> (frames)
    that lift through a program by \<open>intro\<close>. \<open>CString\<close>: C strings, \<open>snprintf\<close>, \<open>atoi\<close>, \<open>stoi\<close>,
    \<open>find\<close>, \<open>trimCopy\<close>. \<open>Json\<close>: JSON values and the two kinds of access. \<open>ClusterTypes\<close>:
    \<open>public.hpp\<close>, \<open>clustertypes.hpp\<close>, \<open>include/server/model\<close>. \<open>Config\<close>: \<open>config.cpp\<close> and the
    settings every class reads.
  \<^item> \<open>Framing\<close>: the interface of a receiver of a byte stream, and that what it finds does not
    depend on how the stream is cut; interpreted by \<open>ClusterWire\<close> (\<open>clusterserver.cpp\<close>) and
    twice by \<open>ChatWire\<close> (\<open>chatserver.cpp\<close>, the client's \<open>findJsonEnd\<close>).
  \<^item> \<open>RedisClient\<close>, \<open>RedisSessions\<close>, \<open>RedisNodes\<close>, \<open>RedisChannel\<close>: \<open>redis.cpp\<close>. The commands, the
    interface \<open>session_store\<close> that they implement (at most one owner of a session), the round
    trip of a node's description, connecting and the observing thread.
  \<^item> \<open>NodeRegistry\<close>: \<open>noderegistry.cpp\<close>, with the bound on the age of the caches. \<open>LiveRoutes\<close>: a
    lookup answers with the user's own route, to a node whose own description, in the cache or in
    Redis, has the same incarnation. \<open>StaleRoutes\<close>: a live session that a stale cache entry takes away.
  \<^item> \<open>ShardChannel\<close>, \<open>ChannelThreads\<close>, \<open>ClusterRouter\<close>: \<open>clusterrouter.cpp\<close>. One channel's blocks
    under its mutex, their interleavings (nothing is lost or duplicated, no message waits
    without somebody to send it), and the channel table with its invariant; \<open>carried\<close> and
    \<open>queue_full\<close> say what became of a frame.
  \<^item> \<open>ConnectionPool\<close> and \<open>Models\<close>: \<open>db.cpp\<close>, \<open>connectionpool.cpp\<close>, \<open>src/server/model\<close>.
    \<open>OfflineStore\<close>: the interface of the offline messages and what the models make of it;
    \<open>Injection\<close>: what an apostrophe does.
  \<^item> \<open>LocalDelivery\<close>, \<open>ConnTable\<close>, \<open>DispatchThreads\<close>, \<open>ChatService\<close>: \<open>chatservice.cpp\<close>. The
    connection table (64 buckets, a refinement of one map), the dispatchers of the event loops
    and their interleavings, the handlers.
  \<^item> \<open>ServiceFrames\<close>, \<open>MessageRouting\<close>, \<open>GroupRouting\<close>, \<open>SessionLifecycle\<close>, \<open>Shutdown\<close>: what the
    handlers do, branch by branch: where a message ends up, who is logged in where afterwards.
    What they ask on the way (\<open>resolveUserNode\<close>, \<open>queryUserNode\<close>, \<open>bindUser\<close>, the models) appears in
    the statements as the result of that very call in the state the handler makes it in. The
    field \<open>routed\<close> of the state is only a record; what became of a message is said by the channels,
    the outbox and the statements.
  \<^item> \<open>Servers\<close>, \<open>NodeLoop\<close>, \<open>NodeSteps\<close>, \<open>Cluster\<close>: \<open>chatserver.cpp\<close>, \<open>clusterserver.cpp\<close>,
    \<open>main.cpp\<close>. The two ports, the callbacks of a node as a step relation, the locale
    \<open>node_law\<close> in which one pass over all handlers is made for every invariant, the invariants of
    a running node, and the steps of a cluster of nodes, each with the number of the node that
    takes it.
  \<^item> \<open>Client\<close>, \<open>ClientSession\<close>: the client and its two threads. \<open>StoreAndForward\<close>, \<open>EndToEnd\<close>: offline
    messages from one node to a login on another, and a chat line from keyboard to screen.

  \<^bold>\<open>Hypotheses on what is outside.\<close> They are named, state documented behaviour, and each is met
  by a concrete instance in the witnesses (\<open>ServiceSample\<close> and the ends of \<open>RedisNodes\<close> and
  \<open>OfflineStore\<close>): \<open>redis_documented\<close> (the commands used, with null and error replies and with
  hashes that expire at any time), \<open>finite_keys\<close>, \<open>answers\<close> (no broken connection, where a result
  needs that), \<open>offline_documented\<close>, \<open>offline_isolated\<close> and \<open>two_rows_documented\<close> (MySQL on the
  statements of \<open>offlinemessage\<close>), \<open>reads_back\<close> and its likes (what one side prints the other
  parses). \<open>offline_documented\<close> follows \<open>docs/schema.sql\<close> and \<open>db.cpp\<close>: the insert fails for an id
  that is not in the table \<open>user\<close>, because of the foreign key, and only ASCII text without quote
  and backslash is said to come back unchanged, because the connection is set to \<open>gbk\<close>.
  Nothing is assumed of clocks, of the order of deliveries or of what peers send.

  \<^bold>\<open>Threads.\<close> Where a class is used by several threads at a time its mutex-protected blocks are the
  steps of a relation (\<open>ChannelThreads\<close>, \<open>DispatchThreads\<close>, \<open>ConnectionPool\<close>, the client). In the
  handlers and in \<open>NodeLoop\<close> a callback is one step; two handlers that interleave between blocks
  of different classes are not represented there.

  \<^bold>\<open>Termination and bounds.\<close> There is no fuel. The receive loops and parsers are total functions
  with a measure on what is left of the buffer. The drain loop of a dispatcher is unrolled to
  the two turns it can take when nobody else enqueues; \<open>DispatchThreads\<close> has the loop itself.
  The client's menu loop may run for ever and is a \<open>partial_function\<close> with \<open>None\<close> for that; the
  waits at the semaphore and in the pool are steps that are not enabled.

  \<^bold>\<open>Not modelled.\<close> muduo, hiredis, libmysqlclient and the JSON library beyond the parameters
  above; log output; prompts and help texts of the client, and a line on the terminal that an
  exception cuts off; reference counts and memory; the declarations in the headers except the
  types, constants and inline functions the code uses. After \<open>reset\<close> the process exits, the step
  relation allows more. The files under \<open>thirdparty\<close> are third-party code.
\<close>

end
